(* ===== verification/Nano_Prelude.thy ===== *)
theory Nano_Prelude
  imports Complex_Main "HOL-Library.Multiset" "HOL-Library.List_Lexorder" "HOL-Library.Char_ord"
begin

text \<open>
  Shared vocabulary of the development: Python floats with an explicit NaN, Python exceptions
  as values of a sum type, insertion-ordered dictionaries and the grouping loop
  \<^verbatim>\<open>d.setdefault(k, []).append(v)\<close>, and the generic list lemmas the components use.

  A finite float is modelled by the exact real number it denotes and the rounding of IEEE
  arithmetic is not modelled; NaN is kept, because the measurement code uses it as "undefined"
  and every comparison with it is false.
\<close>

named_theorems flt_simps "evaluation of arithmetic and comparisons on Python floats"
named_theorems err_simps "evaluation of computations that may raise"
named_theorems group_simps "what the grouping loop leaves under each key"

section \<open>Python floats\<close>

datatype flt = NaN | Fl (fval: real)

definition isnan :: "flt \<Rightarrow> bool" where
  "isnan x \<longleftrightarrow> x = NaN"

fun flift2 :: "(real \<Rightarrow> real \<Rightarrow> real) \<Rightarrow> flt \<Rightarrow> flt \<Rightarrow> flt" where
  "flift2 f (Fl a) (Fl b) = Fl (f a b)"
| "flift2 f _ _ = NaN"

fun fcmp :: "(real \<Rightarrow> real \<Rightarrow> bool) \<Rightarrow> flt \<Rightarrow> flt \<Rightarrow> bool" where
  "fcmp r (Fl a) (Fl b) = r a b"
| "fcmp r _ _ = False"

abbreviation fsub :: "flt \<Rightarrow> flt \<Rightarrow> flt" where
  "fsub \<equiv> flift2 (-)"

abbreviation fadd :: "flt \<Rightarrow> flt \<Rightarrow> flt" where
  "fadd \<equiv> flift2 (+)"

abbreviation fmul :: "flt \<Rightarrow> flt \<Rightarrow> flt" where
  "fmul \<equiv> flift2 (*)"

abbreviation flt_le :: "flt \<Rightarrow> flt \<Rightarrow> bool" where
  "flt_le \<equiv> fcmp (\<le>)"

abbreviation flt_lt :: "flt \<Rightarrow> flt \<Rightarrow> bool" where
  "flt_lt \<equiv> fcmp (<)"

text \<open>The values of a list that are numbers, in order: \<^verbatim>\<open>[x for x in xs if not np.isnan(x)]\<close>.\<close>

fun numbers :: "flt list \<Rightarrow> real list" where
  "numbers [] = []"
| "numbers (NaN # xs) = numbers xs"
| "numbers (Fl a # xs) = a # numbers xs"

definition drop_nan :: "flt list \<Rightarrow> flt list" where
  "drop_nan xs = filter (\<lambda>x. \<not> isnan x) xs"

lemma isnan_simps [simp, flt_simps]: "isnan NaN" "\<not> isnan (Fl a)"
  by (simp_all add: isnan_def)

lemma not_isnan_conv: "\<not> isnan x \<longleftrightarrow> x = Fl (fval x)"
  by (cases x) auto

lemma flift2_eq_Fl [flt_simps]:
  "flift2 f x y = Fl c \<longleftrightarrow> (\<exists>a b. x = Fl a \<and> y = Fl b \<and> c = f a b)"
  by (cases x; cases y) auto

lemma isnan_flift2 [simp, flt_simps]: "isnan (flift2 f x y) \<longleftrightarrow> isnan x \<or> isnan y"
  by (cases x; cases y) auto

lemma fcmp_iff [flt_simps]: "fcmp r x y \<longleftrightarrow> (\<exists>a b. x = Fl a \<and> y = Fl b \<and> r a b)"
  by (cases x; cases y) auto

lemma drop_nan_simps [simp]:
  "drop_nan [] = []" "drop_nan (NaN # xs) = drop_nan xs" "drop_nan (Fl a # xs) = Fl a # drop_nan xs"
  by (simp_all add: drop_nan_def)

lemma drop_nan_numbers: "drop_nan xs = map Fl (numbers xs)"
  by (induction xs rule: numbers.induct) auto

lemma numbers_map_Fl [simp]: "numbers (map Fl xs) = xs"
  by (induction xs) auto

lemma numbers_append [simp]: "numbers (xs @ ys) = numbers xs @ numbers ys"
  by (induction xs rule: numbers.induct) auto

lemma set_numbers: "set (numbers xs) = {a. Fl a \<in> set xs}"
  by (induction xs rule: numbers.induct) auto

lemma drop_nan_eq_Nil_iff: "drop_nan xs = [] \<longleftrightarrow> (\<forall>x \<in> set xs. isnan x)"
  by (simp add: drop_nan_def filter_empty_conv)

subsection \<open>Arithmetic mean\<close>

definition mean :: "real list \<Rightarrow> real" where
  "mean xs = sum_list xs / real (length xs)"

text \<open>The mean of floats: NaN when the list is empty or holds a NaN.\<close>

definition fmean :: "flt list \<Rightarrow> flt" where
  "fmean xs = (if xs = [] \<or> NaN \<in> set xs then NaN else Fl (mean (numbers xs)))"

lemma fmean_Nil [simp]: "fmean [] = NaN"
  by (simp add: fmean_def)

lemma fmean_map_Fl [simp]: "fmean (map Fl xs) = (if xs = [] then NaN else Fl (mean xs))"
  by (auto simp: fmean_def)

lemma mean_bounds:
  assumes "xs \<noteq> []" and "\<And>x. x \<in> set xs \<Longrightarrow> lo \<le> x" and "\<And>x. x \<in> set xs \<Longrightarrow> x \<le> hi"
  shows "lo \<le> mean xs" and "mean xs \<le> hi"
proof -
  have lo: "lo * real (length xs) \<le> sum_list xs"
    using assms(2) by (induction xs) (auto simp: algebra_simps intro: add_mono)
  have hi: "sum_list xs \<le> hi * real (length xs)"
    using assms(3) by (induction xs) (auto simp: algebra_simps intro: add_mono)
  have "0 < real (length xs)" using assms(1) by simp
  with lo hi show "lo \<le> mean xs" and "mean xs \<le> hi"
    by (simp_all add: mean_def le_divide_eq divide_le_eq)
qed

lemma mean_eq_upper_iff:
  assumes "xs \<noteq> []" and "\<And>x. x \<in> set xs \<Longrightarrow> x \<le> hi"
  shows "mean xs = hi \<longleftrightarrow> (\<forall>x \<in> set xs. x = hi)"
proof -
  have gap: "hi * real (length xs) - sum_list xs = (\<Sum>x\<leftarrow>xs. hi - x)"
    by (induction xs) (auto simp: algebra_simps)
  have pos: "0 < real (length xs)" using assms(1) by simp
  have "mean xs = hi \<longleftrightarrow> (\<Sum>x\<leftarrow>xs. hi - x) = 0"
    using pos by (simp add: mean_def gap [symmetric] divide_eq_eq) (auto simp: algebra_simps)
  also have "\<dots> \<longleftrightarrow> (\<forall>x \<in> set xs. x = hi)"
    using assms(2) by (subst sum_list_nonneg_eq_0_iff) auto
  finally show ?thesis .
qed

lemma sum_list_concat: "sum_list (concat xss) = (\<Sum>xs\<leftarrow>xss. sum_list xs)" for xss :: "real list list"
  by (induction xss) auto

lemma mean_map_const [simp]: "xs \<noteq> [] \<Longrightarrow> mean (map (\<lambda>_. c) xs) = c"
  by (simp add: mean_def sum_list_triv)

subsection \<open>Rounding for output\<close>

text \<open>\<^verbatim>\<open>round(x, nd)\<close> and \<^verbatim>\<open>f"{x:.<nd>f}"\<close>: the nearest multiple of \<open>10^-nd\<close>, ties to the even one.\<close>

definition half_even :: "real \<Rightarrow> int" where
  "half_even y =
     (let f = \<lfloor>y\<rfloor>; d = y - of_int f in if d < 1 / 2 \<or> (d = 1 / 2 \<and> even f) then f else f + 1)"

definition py_round :: "nat \<Rightarrow> real \<Rightarrow> real" where
  "py_round nd x = of_int (half_even (x * 10 ^ nd)) / 10 ^ nd"

lemma half_even_of_int [simp]: "half_even (of_int i) = i"
  by (simp add: half_even_def)

lemma half_even_error: "\<bar>of_int (half_even y) - y\<bar> \<le> 1 / 2"
  using floor_correct [of y] by (auto simp: half_even_def Let_def abs_le_iff)

lemma half_even_mono: "x \<le> y \<Longrightarrow> half_even x \<le> half_even y"
  using floor_mono [of x y] by (cases "\<lfloor>x\<rfloor> = \<lfloor>y\<rfloor>") (auto simp: half_even_def Let_def)

lemma py_round_of_int: "py_round nd (of_int i) = of_int i"
proof -
  have "of_int i * (10 :: real) ^ nd = of_int (i * 10 ^ nd)" by simp
  then have "half_even (of_int i * 10 ^ nd) = i * 10 ^ nd" by (simp only: half_even_of_int)
  then show ?thesis by (simp add: py_round_def)
qed

lemma py_round_0 [simp]: "py_round nd 0 = 0" and py_round_1 [simp]: "py_round nd 1 = 1"
  using py_round_of_int [of nd 0] py_round_of_int [of nd 1] by simp_all

lemma py_round_mono: "x \<le> y \<Longrightarrow> py_round nd x \<le> py_round nd y"
  using half_even_mono [of "x * 10 ^ nd" "y * 10 ^ nd"]
  by (simp add: py_round_def divide_right_mono mult_right_mono)

lemma py_round_error: "\<bar>py_round nd x - x\<bar> \<le> 1 / 2 / 10 ^ nd"
proof -
  let ?y = "x * 10 ^ nd"
  have "py_round nd x - x = (of_int (half_even ?y) - ?y) / 10 ^ nd"
    by (simp add: py_round_def diff_divide_distrib)
  then have "\<bar>py_round nd x - x\<bar> = \<bar>of_int (half_even ?y) - ?y\<bar> / 10 ^ nd"
    by (simp add: abs_divide)
  also have "\<dots> \<le> 1 / 2 / 10 ^ nd"
    by (rule divide_right_mono [OF half_even_error]) simp
  finally show ?thesis .
qed

section \<open>Exceptions\<close>

text \<open>The exceptions the modelled code raises, or lets through from the language.\<close>

datatype pyerr =
    ValueError string
  | RuntimeError string
  | KeyError string
  | IndexError
  | ZeroDivisionError
  | AssertionError string
  | OSError string
  | TypeError string
  | AttributeError string
  | SystemExit int

type_synonym 'a res = "pyerr + 'a"

fun bindE :: "'a res \<Rightarrow> ('a \<Rightarrow> 'b res) \<Rightarrow> 'b res" where
  "bindE (Inl e) f = Inl e"
| "bindE (Inr x) f = f x"

text \<open>A loop over a list whose body may raise; the first exception ends it.\<close>

fun traverseE :: "('a \<Rightarrow> 'b res) \<Rightarrow> 'a list \<Rightarrow> 'b list res" where
  "traverseE f [] = Inr []"
| "traverseE f (x # xs) =
     bindE (f x) (\<lambda>y. bindE (traverseE f xs) (\<lambda>ys. Inr (y # ys)))"

lemma bindE_eq_Inr [err_simps]: "bindE m f = Inr y \<longleftrightarrow> (\<exists>x. m = Inr x \<and> f x = Inr y)"
  by (cases m) auto

lemma bindE_eq_Inl [err_simps]:
  "bindE m f = Inl e \<longleftrightarrow> m = Inl e \<or> (\<exists>x. m = Inr x \<and> f x = Inl e)"
  by (cases m) auto

lemma traverseE_Inr_conv:
  "traverseE f xs = Inr ys \<longleftrightarrow> list_all2 (\<lambda>x y. f x = Inr y) xs ys"
  by (induction xs arbitrary: ys) (auto simp: err_simps list_all2_Cons1)

lemma traverseE_map_Inr: "(\<And>x. x \<in> set xs \<Longrightarrow> f x = Inr (g x)) \<Longrightarrow> traverseE f xs = Inr (map g xs)"
  by (induction xs) auto

lemma traverseE_cong [fundef_cong]:
  "xs = ys \<Longrightarrow> (\<And>x. x \<in> set ys \<Longrightarrow> f x = g x) \<Longrightarrow> traverseE f xs = traverseE g ys"
  by (induction ys arbitrary: xs) auto

lemma traverseE_total:
  "(\<And>x. x \<in> set xs \<Longrightarrow> \<exists>y. f x = Inr y \<and> P x y) \<Longrightarrow> \<exists>ys. traverseE f xs = Inr ys \<and> list_all2 P xs ys"
  by (induction xs) fastforce+

lemma traverseE_length: "traverseE f xs = Inr ys \<Longrightarrow> length ys = length xs"
  by (auto simp: traverseE_Inr_conv list_all2_lengthD)

section \<open>Stages of a program\<close>

text \<open>A stage goes on with a value, ends the run with a status, raises, or is still waiting.\<close>

datatype 'a stage = Go 'a | Exit int | Crash pyerr | Waiting

fun bindO :: "'a stage \<Rightarrow> ('a \<Rightarrow> 'b stage) \<Rightarrow> 'b stage" where
  "bindO (Go x) f = f x"
| "bindO (Exit c) f = Exit c"
| "bindO (Crash e) f = Crash e"
| "bindO Waiting f = Waiting"

fun raised :: "'a res \<Rightarrow> 'a stage" where
  "raised (Inl e) = Crash e"
| "raised (Inr x) = Go x"

end
