(* ===== verification/Py_Dict.thy ===== *)
theory Py_Dict
  imports Nano_Prelude
begin

text \<open>
  Python dictionaries as association lists in insertion order, and the grouping loop
  \<^verbatim>\<open>for r in rows: d.setdefault(key(r), []).append(val(r))\<close> that almost every analysis of the
  repository is built on. The locale \<^verbatim>\<open>py_multidict\<close> is the contract of a dictionary of lists;
  what the loop leaves behind is proved once, inside it.
\<close>

type_synonym ('k, 'v) dict = "('k \<times> 'v) list"

section \<open>Operations\<close>

text \<open>\<^verbatim>\<open>d[k] = v\<close>: an existing key keeps its position, a new one goes to the end.\<close>

fun dict_set :: "'k \<Rightarrow> 'v \<Rightarrow> ('k, 'v) dict \<Rightarrow> ('k, 'v) dict" where
  "dict_set k v [] = [(k, v)]"
| "dict_set k v ((j, w) # d) = (if k = j then (k, v) # d else (j, w) # dict_set k v d)"

text \<open>\<^verbatim>\<open>d.get(k, default)\<close>.\<close>

definition dict_get :: "('k, 'v) dict \<Rightarrow> 'k \<Rightarrow> 'v \<Rightarrow> 'v" where
  "dict_get d k v = (case map_of d k of None \<Rightarrow> v | Some w \<Rightarrow> w)"

text \<open>\<^verbatim>\<open>d.setdefault(k, []).append(x)\<close>.\<close>

definition dict_append :: "'k \<Rightarrow> 'v \<Rightarrow> ('k, 'v list) dict \<Rightarrow> ('k, 'v list) dict" where
  "dict_append k x d = dict_set k (dict_get d k [] @ [x]) d"

definition group_by :: "('r \<Rightarrow> 'k) \<Rightarrow> ('r \<Rightarrow> 'v) \<Rightarrow> 'r list \<Rightarrow> ('k, 'v list) dict" where
  "group_by key val rows = foldl (\<lambda>d r. dict_append (key r) (val r) d) [] rows"

text \<open>\<^verbatim>\<open>del d[k]\<close>.\<close>

definition dict_del :: "'k \<Rightarrow> ('k, 'v) dict \<Rightarrow> ('k, 'v) dict" where
  "dict_del k d = filter (\<lambda>(j, _). j \<noteq> k) d"

lemma map_of_dict_del [simp]: "map_of (dict_del k d) = (map_of d)(k := None)"
  by (induction d) (auto simp: dict_del_def)

lemma map_of_dict_set [simp]: "map_of (dict_set k v d) = (map_of d)(k \<mapsto> v)"
  by (induction d) auto

lemma keys_dict_set:
  "map fst (dict_set k v d) =
     (if k \<in> set (map fst d) then map fst d else map fst d @ [k])"
  by (induction d) (simp_all add: split_paired_all)

lemma dict_set_fresh: "k \<notin> set (map fst d) \<Longrightarrow> dict_set k v d = d @ [(k, v)]"
  by (induction d) auto

lemma dict_set_zip_fresh: "k \<notin> set ks \<Longrightarrow> dict_set k v (zip ks vs) = zip ks vs @ [(k, v)]"
  by (rule dict_set_fresh) (auto dest: set_zip_leftD)

lemma distinct_dict_set: "distinct (map fst d) \<Longrightarrow> distinct (map fst (dict_set k v d))"
  by (simp add: keys_dict_set)

section \<open>The contract of a dictionary of lists\<close>

locale py_multidict =
  fixes emp :: 'd
    and look :: "'d \<Rightarrow> 'k \<Rightarrow> 'v list option"
    and app :: "'k \<Rightarrow> 'v \<Rightarrow> 'd \<Rightarrow> 'd"
    and keys :: "'d \<Rightarrow> 'k list"
  assumes look_emp: "look emp k = None"
    and keys_emp: "keys emp = []"
    and look_app: "look (app k x d) j =
      (if j = k then Some ((case look d k of None \<Rightarrow> [] | Some xs \<Rightarrow> xs) @ [x]) else look d j)"
    and keys_app: "keys (app k x d) = (if k \<in> set (keys d) then keys d else keys d @ [k])"
begin

abbreviation grouped :: "('r \<Rightarrow> 'k) \<Rightarrow> ('r \<Rightarrow> 'v) \<Rightarrow> 'd \<Rightarrow> 'r list \<Rightarrow> 'd" where
  "grouped key val d rows \<equiv> foldl (\<lambda>d r. app (key r) (val r) d) d rows"

lemma look_grouped:
  "look (grouped key val d rows) k =
     (let new = map val (filter (\<lambda>r. key r = k) rows)
      in if new = [] then look d k
         else Some ((case look d k of None \<Rightarrow> [] | Some xs \<Rightarrow> xs) @ new))"
  by (induction rows arbitrary: d) (auto simp: look_app Let_def split: option.splits)

lemma keys_grouped_set: "set (keys (grouped key val d rows)) = set (keys d) \<union> key ` set rows"
  by (induction rows arbitrary: d) (auto simp: keys_app)

lemma keys_grouped_distinct:
  "distinct (keys d) \<Longrightarrow> distinct (keys (grouped key val d rows))"
  by (induction rows arbitrary: d) (auto simp: keys_app)

lemma keys_grouped_snoc:
  "keys (grouped key val emp (rows @ [r])) =
     (if key r \<in> key ` set rows then keys (grouped key val emp rows)
      else keys (grouped key val emp rows) @ [key r])"
  by (simp add: keys_app keys_grouped_set keys_emp)

lemma keys_in_first_seen_order:
  "keys (grouped key val emp rows) = rev (remdups (rev (map key rows)))"
  by (induction rows rule: rev_induct)
     (auto simp: keys_grouped_snoc keys_emp simp del: foldl_append)

end

interpretation ad: py_multidict "[]" map_of dict_append "map fst"
  by unfold_locales (auto simp: dict_append_def dict_get_def keys_dict_set split: option.splits)

section \<open>What the grouping loop computes\<close>

lemma group_by_lookup [group_simps]:
  "map_of (group_by key val rows) k =
     (if k \<in> key ` set rows then Some (map val (filter (\<lambda>r. key r = k) rows)) else None)"
  by (auto simp: group_by_def ad.look_grouped Let_def filter_empty_conv)

lemma group_by_keys [group_simps]: "set (map fst (group_by key val rows)) = key ` set rows"
  unfolding group_by_def by (subst ad.keys_grouped_set) simp

lemma group_by_distinct [simp]: "distinct (map fst (group_by key val rows))"
  unfolding group_by_def by (rule ad.keys_grouped_distinct) simp

lemma group_by_first_seen: "map fst (group_by key val rows) = rev (remdups (rev (map key rows)))"
  unfolding group_by_def by (rule ad.keys_in_first_seen_order)

lemma group_by_items [group_simps]:
  "(k, vs) \<in> set (group_by key val rows) \<longleftrightarrow>
     k \<in> key ` set rows \<and> vs = map val (filter (\<lambda>r. key r = k) rows)"
  by (simp add: map_of_eq_Some_iff [symmetric] group_by_lookup) auto

lemma group_by_nonempty: "(k, vs) \<in> set (group_by key val rows) \<Longrightarrow> vs \<noteq> []"
  by (auto simp: group_by_items filter_empty_conv)

lemma group_by_values: "vs \<in> set (map snd (group_by key val rows)) \<longleftrightarrow>
    (\<exists>k \<in> key ` set rows. vs = map val (filter (\<lambda>r. key r = k) rows))"
  by (auto simp: group_by_items image_iff) (metis group_by_items imageI snd_conv)+

text \<open>No row is lost and none is counted twice.\<close>

lemma dict_append_total:
  "(\<Sum>vs\<leftarrow>map snd (dict_append k x d). length vs) = Suc (\<Sum>vs\<leftarrow>map snd d. length vs)"
  unfolding dict_append_def
  by (induction d) (auto simp: dict_get_def split: option.splits)

lemma group_by_partition: "(\<Sum>vs\<leftarrow>map snd (group_by key val rows). length vs) = length rows"
  by (induction rows rule: rev_induct)
     (simp_all add: group_by_def dict_append_total del: map_map)

lemma dict_append_mset:
  "mset (concat (map snd (dict_append k x d))) = add_mset x (mset (concat (map snd d)))"
  unfolding dict_append_def
  by (induction d) (auto simp: dict_get_def split: option.splits)

lemma group_by_mset: "mset (concat (map snd (group_by key val rows))) = mset (map val rows)"
  by (induction rows rule: rev_induct)
     (simp_all add: group_by_def dict_append_mset del: map_map mset_concat)

lemma mset_concat_perm:
  "mset xs = mset ys \<Longrightarrow> mset (concat (map f xs)) = mset (concat (map f ys))"
proof -
  assume "mset xs = mset ys"
  then have "image_mset (\<lambda>x. mset (f x)) (mset xs) = image_mset (\<lambda>x. mset (f x)) (mset ys)" by simp
  then have "sum_mset (mset (map (\<lambda>x. mset (f x)) xs)) = sum_mset (mset (map (\<lambda>x. mset (f x)) ys))" by simp
  then show ?thesis by (simp only: sum_mset_sum_list mset_concat map_map comp_def)
qed

text \<open>\<^verbatim>\<open>sorted(d.items())\<close>: keys are unique, so values are never compared.\<close>

definition sorted_items :: "('k :: linorder, 'v) dict \<Rightarrow> ('k, 'v) dict" where
  "sorted_items d = sort_key fst d"

lemma sorted_items_perm [simp]: "mset (sorted_items d) = mset d" "set (sorted_items d) = set d"
  by (simp_all add: sorted_items_def)

end
