(* ===== verification/Numpy_Api.thy ===== *)
theory Numpy_Api
  imports Py_Dict
begin

text \<open>
  numpy is a third-party package, so its routines are a parameter of the model: the record
  \<^verbatim>\<open>numpy\<close>, passed to every definition that calls one. The locale \<^verbatim>\<open>numpy_api\<close> states what the
  numpy reference documents of them, and nothing else: in particular \<^verbatim>\<open>argpartition\<close> and the
  default \<^verbatim>\<open>argsort\<close> promise nothing about the order of equal elements, so what is proved
  from the locale holds for every tie-breaking. Element-wise array expressions, slices and
  boolean masks are written out as list expressions where the code uses them.
\<close>

section \<open>The documented results\<close>

definition variance :: "real list \<Rightarrow> real" where
  "variance xs = mean (map (\<lambda>x. (x - mean xs)\<^sup>2) xs)"

definition covariance :: "real list \<Rightarrow> real list \<Rightarrow> real" where
  "covariance xs ys = mean (map2 (\<lambda>x y. (x - mean xs) * (y - mean ys)) xs ys)"

text \<open>Linear interpolation between the two closest ranks, numpy's default method.\<close>

definition percentile :: "real list \<Rightarrow> real \<Rightarrow> real" where
  "percentile xs q =
     (let ys = sort xs; pos = q / 100 * real (length xs - 1); i = nat \<lfloor>pos\<rfloor>
      in if Suc i < length ys then ys ! i + (pos - real i) * (ys ! Suc i - ys ! i)
         else ys ! (length ys - 1))"

definition median :: "real list \<Rightarrow> real" where
  "median xs =
     (let ys = sort xs; n = length ys
      in if odd n then ys ! (n div 2) else (ys ! (n div 2 - 1) + ys ! (n div 2)) / 2)"

definition bincount :: "nat list \<Rightarrow> nat \<Rightarrow> nat list" where
  "bincount xs n = map (\<lambda>i. count_list xs i) [0..<max n (Suc (Max (insert 0 (set xs))) * (if xs = [] then 0 else 1))]"

fun cumsum_from :: "nat \<Rightarrow> nat list \<Rightarrow> nat list" where
  "cumsum_from acc [] = []"
| "cumsum_from acc (x # xs) = (acc + x) # cumsum_from (acc + x) xs"

section \<open>The parameter and its contract\<close>

record numpy =
  np_mean :: "flt list \<Rightarrow> flt"
  np_median :: "real list \<Rightarrow> real"
  np_percentile :: "real list \<Rightarrow> real \<Rightarrow> real"
  np_std :: "nat \<Rightarrow> real list \<Rightarrow> real"
  np_corrcoef :: "real list \<Rightarrow> real list \<Rightarrow> real"
  np_slope :: "real list \<Rightarrow> real list \<Rightarrow> real"
  np_argpartition :: "real list \<Rightarrow> nat \<Rightarrow> nat list"
  np_argsort :: "real list \<Rightarrow> nat list"
  np_argsort_stable :: "nat list \<Rightarrow> nat list"
  np_unique :: "nat list \<Rightarrow> nat list"
  np_bincount :: "nat list \<Rightarrow> nat \<Rightarrow> nat list"
  np_cumsum :: "nat list \<Rightarrow> nat list"
  np_isin :: "nat list \<Rightarrow> nat list \<Rightarrow> bool list"

definition is_partition_at :: "real list \<Rightarrow> nat \<Rightarrow> nat list \<Rightarrow> bool" where
  "is_partition_at d kth p \<longleftrightarrow>
     mset p = mset [0..<length d] \<and>
     (\<forall>i < kth. d ! (p ! i) \<le> d ! (p ! kth)) \<and>
     (\<forall>i < length d. kth < i \<longrightarrow> d ! (p ! kth) \<le> d ! (p ! i))"

locale numpy_api =
  fixes np :: numpy
  assumes mean: "np_mean np fs = fmean fs"
    and median: "xs \<noteq> [] \<Longrightarrow> np_median np xs = median xs"
    and percentile: "xs \<noteq> [] \<Longrightarrow> 0 \<le> q \<Longrightarrow> q \<le> 100 \<Longrightarrow> np_percentile np xs q = percentile xs q"
    and std: "ddof < length xs \<Longrightarrow>
      np_std np ddof xs = sqrt (variance xs * real (length xs) / real (length xs - ddof))"
    and corrcoef: "length xs = length ys \<Longrightarrow> 0 < variance xs \<Longrightarrow> 0 < variance ys \<Longrightarrow>
      np_corrcoef np xs ys = covariance xs ys / (sqrt (variance xs) * sqrt (variance ys))"
    and slope: "length xs = length ys \<Longrightarrow> 0 < variance xs \<Longrightarrow>
      np_slope np xs ys = covariance xs ys / variance xs"
    and argpartition: "kth < length d \<Longrightarrow> is_partition_at d kth (np_argpartition np d kth)"
    and argsort: "mset (np_argsort np d) = mset [0..<length d] \<and>
      sorted (map ((!) d) (np_argsort np d))"
    and argsort_stable: "np_argsort_stable np ks = sort_key ((!) ks) [0..<length ks]"
    and unique: "np_unique np ks = sorted_list_of_set (set ks)"
    and bincount: "np_bincount np ks n = bincount ks n"
    and cumsum: "np_cumsum np ks = cumsum_from 0 ks"
    and isin: "np_isin np ks js = map (\<lambda>k. k \<in> set js) ks"

section \<open>Consequences shared by the components\<close>

lemma is_partition_at_perm: "is_partition_at d kth p \<Longrightarrow> mset p = mset [0..<length d]"
  by (simp add: is_partition_at_def)

lemma perm_upt_facts:
  assumes "mset p = mset [0..<n]"
  shows "length p = n" and "set p = {0..<n}" and "distinct p"
  using assms mset_eq_setD [OF assms] mset_eq_length [OF assms]
  by (auto simp: mset_eq_imp_distinct_iff [OF assms])

text \<open>The first \<open>k\<close> positions of a partition at \<open>k - 1\<close> hold \<open>k\<close> smallest elements.\<close>

lemma partition_prefix_smallest:
  assumes p: "is_partition_at d (k - 1) p" and k: "0 < k" "k \<le> length d"
    and i: "i \<in> set (take k p)" and j: "j < length d" "j \<notin> set (take k p)"
  shows "d ! i \<le> d ! j"
proof -
  have perm: "length p = length d" "set p = {0..<length d}"
    using perm_upt_facts [OF is_partition_at_perm [OF p]] by auto
  obtain a where a: "a < k" "i = p ! a"
    using i k perm by (auto simp: in_set_conv_nth)
  have "j \<in> set p" using j perm by simp
  then obtain b where b: "b < length p" "j = p ! b" by (auto simp: in_set_conv_nth)
  have "k \<le> b"
    using b j k perm by (metis in_set_conv_nth length_take min.absorb2 not_le nth_take)
  have le_pivot: "d ! (p ! a) \<le> d ! (p ! (k - 1))"
    using a k p by (cases "a = k - 1") (auto simp: is_partition_at_def)
  moreover have "d ! (p ! (k - 1)) \<le> d ! (p ! b)"
    using b \<open>k \<le> b\<close> k p perm by (auto simp: is_partition_at_def)
  ultimately show ?thesis using a b by simp
qed

lemma length_bincount: "set ks \<subseteq> {0..<n} \<Longrightarrow> length (bincount ks n) = n"
proof -
  assume ks: "set ks \<subseteq> {0..<n}"
  have "ks \<noteq> [] \<Longrightarrow> Suc (Max (insert 0 (set ks))) \<le> n"
    using ks by (cases "n = 0") (auto simp: Suc_le_eq)
  then show ?thesis by (auto simp: bincount_def max_def)
qed

lemma nth_bincount: "set ks \<subseteq> {0..<n} \<Longrightarrow> i < n \<Longrightarrow> bincount ks n ! i = count_list ks i"
  using length_bincount [of ks n] by (auto simp: bincount_def)

lemma length_cumsum_from [simp]: "length (cumsum_from acc xs) = length xs"
  by (induction xs arbitrary: acc) auto

lemma nth_cumsum_from: "i < length xs \<Longrightarrow> cumsum_from acc xs ! i = acc + sum_list (take (Suc i) xs)"
  by (induction xs arbitrary: acc i) (auto simp: less_Suc_eq_0_disj)

section \<open>A reference instance\<close>

text \<open>One concrete library that meets the contract: every law is satisfiable together.\<close>

definition sqrt_ref :: "real \<Rightarrow> real" where
  "sqrt_ref x = sqrt x"

text \<open>Evaluation needs square roots of 0 and 1 only.\<close>

lemma sqrt_ref_code [code]:
  "sqrt_ref x = (if x = 0 then 0 else if x = 1 then 1 else Code.abort (STR ''sqrt'') (\<lambda>_. sqrt_ref x))"
  by (simp add: sqrt_ref_def)

definition numpy_ref :: numpy where
  "numpy_ref = \<lparr>
     np_mean = fmean,
     np_median = median,
     np_percentile = percentile,
     np_std = (\<lambda>ddof xs. sqrt_ref (variance xs * real (length xs) / real (length xs - ddof))),
     np_corrcoef = (\<lambda>xs ys. covariance xs ys / (sqrt_ref (variance xs) * sqrt_ref (variance ys))),
     np_slope = (\<lambda>xs ys. covariance xs ys / variance xs),
     np_argpartition = (\<lambda>d kth. sort_key ((!) d) [0..<length d]),
     np_argsort = (\<lambda>d. sort_key ((!) d) [0..<length d]),
     np_argsort_stable = (\<lambda>ks. sort_key ((!) ks) [0..<length ks]),
     np_unique = (\<lambda>ks. sort (remdups ks)),
     np_bincount = bincount,
     np_cumsum = cumsum_from 0,
     np_isin = (\<lambda>ks js. map (\<lambda>k. k \<in> set js) ks)\<rparr>"

lemma numpy_ref_sel [simp]:
  "np_mean numpy_ref = fmean" "np_median numpy_ref = median" "np_percentile numpy_ref = percentile"
  "np_argpartition numpy_ref = (\<lambda>d kth. sort_key ((!) d) [0..<length d])"
  "np_argsort numpy_ref = (\<lambda>d. sort_key ((!) d) [0..<length d])"
  "np_argsort_stable numpy_ref = (\<lambda>ks. sort_key ((!) ks) [0..<length ks])"
  "np_unique numpy_ref = (\<lambda>ks. sort (remdups ks))" "np_bincount numpy_ref = bincount"
  "np_cumsum numpy_ref = cumsum_from 0" "np_isin numpy_ref = (\<lambda>ks js. map (\<lambda>k. k \<in> set js) ks)"
  by (simp_all add: numpy_ref_def)

lemma sort_key_partition:
  assumes "kth < length d"
  shows "is_partition_at d kth (sort_key ((!) d) [0..<length d])"
proof -
  let ?p = "sort_key ((!) d) [0..<length d]"
  have srt: "sorted (map ((!) d) ?p)" by simp
  have le: "d ! (?p ! i) \<le> d ! (?p ! j)" if "i \<le> j" "j < length d" for i j
    using sorted_nth_mono [OF srt, of i j] that by simp
  show ?thesis
    unfolding is_partition_at_def using assms by (auto intro: le)
qed

interpretation npr: numpy_api numpy_ref
  by unfold_locales
     (simp_all add: numpy_ref_def sqrt_ref_def sort_key_partition sorted_list_of_set_sort_remdups)

end
