(* ===== verification/Recall_Metrics.thy ===== *)
theory Recall_Metrics
  imports Numpy_Api
begin

text \<open>
  The measurement core, \<^verbatim>\<open>research/replica_recall/metrics.py\<close>: the corpus view, exact top-k search,
  recall, completeness, peer agreement, and the per-replica score. A Python set of ids is a HOL
  set; where the code iterates over one and sorts the result, the iteration order is the sorted
  one (\<open>rows_for_any_order\<close> shows the result does not depend on it).
\<close>

type_synonym ident = string
type_synonym vec = "real list"

section \<open>Corpus\<close>

record corpus =
  c_ids :: "ident list"
  c_mat :: "vec list"
  c_row_of :: "(ident, nat) dict"
  c_n :: nat

text \<open>\<^verbatim>\<open>Corpus.from_dict\<close>; \<^verbatim>\<open>np.asarray\<close> refuses rows of different lengths.\<close>

definition from_dict :: "(ident, vec) dict \<Rightarrow> corpus res" where
  "from_dict vector_of =
     (let ids = map fst vector_of
      in if ids = [] then Inr \<lparr>c_ids = [], c_mat = [], c_row_of = [], c_n = 0\<rparr>
         else let mat = map snd vector_of
              in if list_all (\<lambda>v. length v = length (hd mat)) mat
                 then Inr \<lparr>c_ids = ids, c_mat = mat, c_row_of = zip ids [0..<length ids],
                           c_n = length ids\<rparr>
                 else Inl (ValueError ''inhomogeneous shape''))"

text \<open>\<^verbatim>\<open>row_of.get(i, -1)\<close> kept when \<^verbatim>\<open>0 <= r < n\<close>.\<close>

definition row_get :: "corpus \<Rightarrow> ident \<Rightarrow> int" where
  "row_get c i = (case map_of (c_row_of c) i of None \<Rightarrow> -1 | Some r \<Rightarrow> int r)"

definition rows_of_list :: "corpus \<Rightarrow> ident list \<Rightarrow> nat list" where
  "rows_of_list c wanted =
     sort (map nat (filter (\<lambda>r. 0 \<le> r \<and> r < int (c_n c)) (map (row_get c) wanted)))"

definition rows_for :: "corpus \<Rightarrow> ident set \<Rightarrow> nat list" where
  "rows_for c wanted = rows_of_list c (sorted_list_of_set wanted)"

section \<open>Exact search\<close>

definition dot :: "vec \<Rightarrow> vec \<Rightarrow> real" where
  "dot u v = sum_list (map2 (*) u v)"

definition l2_scores :: "vec list \<Rightarrow> vec \<Rightarrow> real list" where
  "l2_scores vectors q = map (\<lambda>v. dot v v - 2 * dot q v) vectors"

definition ip_scores :: "vec list \<Rightarrow> vec \<Rightarrow> real list" where
  "ip_scores vectors q = map (\<lambda>v. - dot q v) vectors"

text \<open>\<^verbatim>\<open>queries @ vectors.T\<close> needs equal row lengths.\<close>

definition matmul_ok :: "vec list \<Rightarrow> vec list \<Rightarrow> bool" where
  "matmul_ok queries vectors \<longleftrightarrow>
     list_all (\<lambda>q. list_all (\<lambda>v. length q = length v) vectors) queries"

text \<open>
  One row of \<^verbatim>\<open>part[rows, order]\<close>: the first \<open>k_eff\<close> entries of the partition, reordered by
  distance. The \<^verbatim>\<open>kth\<close> argument \<^verbatim>\<open>k_eff - 1\<close> is \<^verbatim>\<open>-1\<close>, the last position, when \<open>k_eff = 0\<close>.
\<close>

definition topk_row :: "numpy \<Rightarrow> real list \<Rightarrow> nat \<Rightarrow> nat list" where
  "topk_row np d k_eff =
     (let kth = (if k_eff = 0 then length d - 1 else k_eff - 1);
          part = take k_eff (np_argpartition np d kth);
          order = np_argsort np (map ((!) d) part)
      in map ((!) part) order)"

definition exact_topk_rows ::
  "numpy \<Rightarrow> vec list \<Rightarrow> vec list \<Rightarrow> nat \<Rightarrow> string \<Rightarrow> nat list list res" where
  "exact_topk_rows np queries vectors k metric =
     (let n = length vectors
      in if n = 0 then Inr (map (\<lambda>_. []) queries)
         else let k_eff = min k n
              in if metric = ''l2'' then
                   if matmul_ok queries vectors
                   then Inr (map (\<lambda>q. topk_row np (l2_scores vectors q) k_eff) queries)
                   else Inl (ValueError ''matmul'')
                 else if metric = ''ip'' then
                   if matmul_ok queries vectors
                   then Inr (map (\<lambda>q. topk_row np (ip_scores vectors q) k_eff) queries)
                   else Inl (ValueError ''matmul'')
                 else Inl (ValueError ''unknown metric''))"

definition nth_or_raise :: "'a list \<Rightarrow> nat \<Rightarrow> 'a res" where
  "nth_or_raise xs i = (if i < length xs then Inr (xs ! i) else Inl IndexError)"

definition exact_topk ::
  "numpy \<Rightarrow> vec list \<Rightarrow> ident list \<Rightarrow> vec list \<Rightarrow> nat \<Rightarrow> string \<Rightarrow> ident list list res" where
  "exact_topk np queries ids vectors k metric =
     (if ids = [] then Inr (map (\<lambda>_. []) queries)
      else bindE (exact_topk_rows np queries vectors k metric)
             (\<lambda>best. traverseE (traverseE (nth_or_raise ids)) best))"

section \<open>Metrics\<close>

definition recall_at_k :: "ident list \<Rightarrow> ident list \<Rightarrow> nat \<Rightarrow> flt res" where
  "recall_at_k observed truth k =
     (if truth = [] then Inr NaN
      else let t = set (take k truth); o' = set (take k observed)
           in if card t = 0 then Inl ZeroDivisionError
              else Inr (Fl (real (card (o' \<inter> t)) / real (card t))))"

definition set_completeness :: "ident set \<Rightarrow> ident set \<Rightarrow> flt" where
  "set_completeness local intended =
     (if intended = {} then NaN
      else Fl (real (card (local \<inter> intended)) / real (card intended)))"

text \<open>The scores one pair of replicas contributes: pairs of empty answers are skipped.\<close>

definition overlap :: "nat \<Rightarrow> ident list \<Rightarrow> ident list \<Rightarrow> real" where
  "overlap k a b =
     (let sa = set (take k a); sb = set (take k b)
      in real (card (sa \<inter> sb)) / real (max (card sa) (card sb)))"

definition pair_scores :: "nat \<Rightarrow> ident list list \<Rightarrow> ident list list \<Rightarrow> flt list" where
  "pair_scores k a_all b_all =
     [Fl (overlap k a b). (a, b) \<leftarrow> zip a_all b_all,
        \<not> (set (take k a) = {} \<and> set (take k b) = {})]"

definition pairwise_agreement :: "numpy \<Rightarrow> (ident, ident list list) dict \<Rightarrow> nat \<Rightarrow> flt" where
  "pairwise_agreement np obs k =
     (let names = sort (map fst obs)
      in if length names < 2 then NaN
         else let scores = concat [pair_scores k (dict_get obs (names ! i) []) (dict_get obs (names ! j) []).
                                     i \<leftarrow> [0..<length names], j \<leftarrow> [i + 1..<length names]]
              in if scores \<noteq> [] then np_mean np scores else NaN)"

definition loo_scores :: "(ident, ident list list) dict \<Rightarrow> nat \<Rightarrow> ident list \<Rightarrow> ident \<Rightarrow> flt list" where
  "loo_scores obs k names x =
     concat [pair_scores k (dict_get obs x []) (dict_get obs m []). m \<leftarrow> names, m \<noteq> x]"

definition leave_one_out_agreement ::
  "numpy \<Rightarrow> (ident, ident list list) dict \<Rightarrow> nat \<Rightarrow> (ident, flt) dict" where
  "leave_one_out_agreement np obs k =
     (let names = sort (map fst obs)
      in if length names < 3 then map (\<lambda>x. (x, NaN)) names
         else map (\<lambda>x. (x, let scores = loo_scores obs k names x
                            in if scores \<noteq> [] then np_mean np scores else NaN)) names)"

section \<open>One replica at one instant\<close>

record replica_score =
  index_recall :: flt
  e2e_recall :: flt
  completeness :: flt
  n_local :: flt
  n_intended :: flt

text \<open>
  The inner function \<^verbatim>\<open>_mean_recall\<close>: gather the rows, rank them exactly, map the winners back
  to ids, and average the recall of the replica's answers. \<open>restrict = None\<close> is Python's
  \<^verbatim>\<open>None\<close>.
\<close>

definition mean_recall ::
  "numpy \<Rightarrow> vec list \<Rightarrow> ident list list \<Rightarrow> corpus \<Rightarrow> nat \<Rightarrow> string \<Rightarrow> nat list \<Rightarrow>
   ident set option \<Rightarrow> flt res" where
  "mean_recall np queries observed c k metric rows restrict =
     (if rows = [] then Inr NaN
      else bindE (traverseE (nth_or_raise (c_mat c)) rows) (\<lambda>sub.
           bindE (exact_topk_rows np queries sub k metric) (\<lambda>best.
           bindE (traverseE (\<lambda>(o', trow).
                    bindE (traverseE (\<lambda>j. bindE (nth_or_raise rows j) (nth_or_raise (c_ids c))) trow)
                      (\<lambda>t. let o'' = (case restrict of None \<Rightarrow> o' | Some r \<Rightarrow> filter (\<lambda>i. i \<in> r) o')
                           in recall_at_k (take k o'') t k))
                  (zip observed best)) (\<lambda>per_query.
           let scored = drop_nan per_query
           in Inr (if scored \<noteq> [] then np_mean np scored else NaN)))))"

definition score_replica ::
  "numpy \<Rightarrow> vec list \<Rightarrow> ident list list \<Rightarrow> ident set \<Rightarrow> ident set \<Rightarrow> corpus \<Rightarrow> nat \<Rightarrow> string \<Rightarrow>
   nat list option \<Rightarrow> replica_score res" where
  "score_replica np queries observed local_ids intended_ids c k metric intended_rows =
     (let local_rows = rows_for c local_ids;
          irows = (case intended_rows of None \<Rightarrow> rows_for c intended_ids | Some r \<Rightarrow> r)
      in bindE (mean_recall np queries observed c k metric local_rows None) (\<lambda>ir.
         bindE (mean_recall np queries observed c k metric irows (Some intended_ids)) (\<lambda>er.
         Inr \<lparr>index_recall = ir, e2e_recall = er,
              completeness = set_completeness local_ids intended_ids,
              n_local = Fl (real (card local_ids)), n_intended = Fl (real (card intended_ids))\<rparr>)))"

section \<open>Row lookup\<close>

text \<open>
  What a corpus snapshot promises: the first \<open>c_n\<close> rows and ids are there, and on them the
  index \<open>c_row_of\<close> is exactly the inverse of \<open>c_ids\<close>. The index may know later rows too,
  because the writer shares it with its snapshots.
\<close>

definition corpus_ok :: "corpus \<Rightarrow> bool" where
  "corpus_ok c \<longleftrightarrow>
     c_n c \<le> length (c_mat c) \<and> c_n c \<le> length (c_ids c) \<and>
     list_all (\<lambda>r. map_of (c_row_of c) (c_ids c ! r) = Some r) [0..<c_n c] \<and>
     list_all (\<lambda>(i, r). r < c_n c \<longrightarrow> c_ids c ! r = i) (c_row_of c)"

lemma corpus_okD:
  assumes "corpus_ok c"
  shows "c_n c \<le> length (c_mat c)" "c_n c \<le> length (c_ids c)"
    and "r < c_n c \<Longrightarrow> map_of (c_row_of c) (c_ids c ! r) = Some r"
    and "map_of (c_row_of c) i = Some r \<Longrightarrow> r < c_n c \<Longrightarrow> c_ids c ! r = i"
  using assms map_of_SomeD [of "c_row_of c" i r] by (auto simp: corpus_ok_def list_all_iff)

lemma rows_of_list_mset:
  "mset (rows_of_list c ws) =
     image_mset nat (filter_mset (\<lambda>r. 0 \<le> r \<and> r < int (c_n c)) (image_mset (row_get c) (mset ws)))"
  by (simp add: rows_of_list_def mset_filter)

lemma rows_for_any_order:
  assumes "distinct ws"
  shows "rows_of_list c ws = rows_for c (set ws)"
proof -
  have "mset ws = mset (sorted_list_of_set (set ws))"
    using assms by (metis List.finite_set distinct_sorted_list_of_set mset_set_set
        set_sorted_list_of_set)
  then have "mset (rows_of_list c ws) = mset (rows_for c (set ws))"
    by (simp only: rows_for_def rows_of_list_mset)
  moreover have "sorted (rows_of_list c ws)" "sorted (rows_for c (set ws))"
    by (simp_all add: rows_for_def rows_of_list_def)
  ultimately show ?thesis by (metis properties_for_sort)
qed

lemma row_get_iff:
  assumes "corpus_ok c"
  shows "row_get c i = int r \<and> r < c_n c \<longleftrightarrow> r < c_n c \<and> c_ids c ! r = i"
  using corpus_okD(3,4) [OF assms] by (auto simp: row_get_def split: option.splits)

lemma rows_for_facts:
  assumes "corpus_ok c" and "finite W"
  shows "set (rows_for c W) = {r. r < c_n c \<and> c_ids c ! r \<in> W}"
    and "distinct (rows_for c W)" and "sorted (rows_for c W)"
proof -
  let ?P = "\<lambda>i. 0 \<le> row_get c i \<and> row_get c i < int (c_n c)"
  have img: "r \<in> (\<lambda>i. nat (row_get c i)) ` {i \<in> W. ?P i} \<longleftrightarrow>
      (\<exists>i \<in> W. row_get c i = int r \<and> r < c_n c)" for r
    by (auto simp: image_iff)
  have "set (rows_for c W) = (\<lambda>i. nat (row_get c i)) ` {i \<in> W. ?P i}"
    using assms(2) by (auto simp: rows_for_def rows_of_list_def)
  then show "set (rows_for c W) = {r. r < c_n c \<and> c_ids c ! r \<in> W}"
    by (simp only: set_eq_iff img row_get_iff [OF assms(1)]) blast
  have "inj_on (\<lambda>i. nat (row_get c i)) {i \<in> W. ?P i}"
  proof (rule inj_onI)
    fix i j assume ij: "i \<in> {i \<in> W. ?P i}" "j \<in> {i \<in> W. ?P i}"
      "nat (row_get c i) = nat (row_get c j)"
    then have "row_get c i = int (nat (row_get c i))" "row_get c j = int (nat (row_get c i))"
      "nat (row_get c i) < c_n c" by auto
    then show "i = j" using row_get_iff [OF assms(1)] by metis
  qed
  then show "distinct (rows_for c W)"
    by (simp add: rows_for_def rows_of_list_def filter_map distinct_map assms(2) comp_def)
  show "sorted (rows_for c W)"
    by (simp add: rows_for_def rows_of_list_def)
qed

section \<open>Exact search is exact\<close>

lemma perm_nth_map:
  assumes "mset order = mset [0..<length part]"
  shows "mset (map ((!) part) order) = mset part"
proof -
  have "mset (map ((!) part) order) = mset (map ((!) part) [0..<length part])"
    using assms by (metis mset_map)
  then show ?thesis by (simp add: map_nth)
qed

text \<open>\<open>sq_dist\<close> is the specification the expanded form is compared with.\<close>

definition sq_dist :: "vec \<Rightarrow> vec \<Rightarrow> real" where
  "sq_dist q v = sum_list (map2 (\<lambda>x y. (x - y)\<^sup>2) q v)"

lemma sq_dist_expand: "length q = length v \<Longrightarrow> dot v v - 2 * dot q v = sq_dist q v - dot q q"
  by (induction q v rule: list_induct2)
     (auto simp: dot_def sq_dist_def power2_eq_square algebra_simps)

text \<open>What an exact nearest-first top-\<open>k\<close> answer over scores \<open>d\<close> is.\<close>

definition is_topk :: "real list \<Rightarrow> nat \<Rightarrow> nat list \<Rightarrow> bool" where
  "is_topk d k rs \<longleftrightarrow>
     length rs = k \<and> distinct rs \<and> set rs \<subseteq> {0..<length d} \<and> sorted (map ((!) d) rs) \<and>
     (\<forall>i \<in> set rs. \<forall>j < length d. j \<notin> set rs \<longrightarrow> d ! i \<le> d ! j)"

lemma topk_row_is_topk:
  assumes np: "numpy_api np" and k: "k \<le> length d"
  shows "is_topk d k (topk_row np d k)"
proof (cases "k = 0")
  case True
  have "np_argsort np [] = []"
    using numpy_api.argsort [OF np, of "[]"] by simp
  with True show ?thesis by (simp add: topk_row_def is_topk_def Let_def)
next
  case False
  let ?p = "np_argpartition np d (k - 1)"
  let ?part = "take k ?p"
  let ?order = "np_argsort np (map ((!) d) ?part)"
  let ?rs = "map ((!) ?part) ?order"
  have rs: "topk_row np d k = ?rs" using False by (simp add: topk_row_def Let_def)
  have part: "is_partition_at d (k - 1) ?p"
    using numpy_api.argpartition [OF np, of "k - 1" d] False k by simp
  note perm = perm_upt_facts [OF is_partition_at_perm [OF part]]
  have len: "length ?part = k" using perm k by simp
  have order: "mset ?order = mset [0..<k]" "sorted (map ((!) (map ((!) d) ?part)) ?order)"
    using numpy_api.argsort [OF np, of "map ((!) d) ?part"] len by auto
  have ms: "mset ?rs = mset ?part"
    using perm_nth_map [of ?order ?part] order(1) len by simp
  have "map ((!) (map ((!) d) ?part)) ?order = map ((!) d) ?rs"
    using perm_upt_facts(2) [OF order(1)] len by auto
  with order(2) have "sorted (map ((!) d) ?rs)" by (simp only:)
  moreover have "length ?rs = k"
    using mset_eq_length [OF ms] len by simp
  moreover have "distinct ?rs"
    using mset_eq_imp_distinct_iff [OF ms] perm(3) by (simp only: distinct_take)
  moreover have "set ?rs = set ?part"
    by (rule mset_eq_setD [OF ms])
  moreover have "set ?part \<subseteq> {0..<length d}"
    using perm(2) set_take_subset [of k ?p] by auto
  moreover have "d ! i \<le> d ! j" if "i \<in> set ?part" "j < length d" "j \<notin> set ?part" for i j
    using partition_prefix_smallest [OF part _ k that] False by simp
  ultimately show ?thesis unfolding rs is_topk_def by (simp only:) blast
qed

lemma is_topk_shift:
  assumes "length d' = length d" and "\<And>i. i < length d \<Longrightarrow> d' ! i = d ! i - c"
  shows "is_topk d' k rs \<longleftrightarrow> is_topk d k rs"
proof -
  have "sorted (map ((!) d') rs) \<longleftrightarrow> sorted (map ((!) d) rs)" if "set rs \<subseteq> {0..<length d}"
  proof -
    have "sorted (map ((!) d') rs) \<longleftrightarrow> sorted (map (\<lambda>i. d ! i - c) rs)"
      using that assms(2) by (intro arg_cong [where f = sorted]) auto
    then show ?thesis by (simp add: sorted_map)
  qed
  then show ?thesis
    using assms by (auto simp: is_topk_def subset_eq)
qed

lemma exact_topk_rows_Inr:
  assumes "numpy_api np" and "vectors \<noteq> []" and "matmul_ok queries vectors" and "metric \<in> {''l2'', ''ip''}"
  shows "\<exists>best. exact_topk_rows np queries vectors k metric = Inr best \<and> length best = length queries \<and>
    (\<forall>t \<in> set best. length t = min k (length vectors) \<and> distinct t \<and> set t \<subseteq> {0..<length vectors})"
proof -
  obtain sc where sc: "\<And>q. length (sc q) = length vectors"
    and eq: "exact_topk_rows np queries vectors k metric =
      Inr (map (\<lambda>q. topk_row np (sc q) (min k (length vectors))) queries)"
  proof (cases "metric = ''l2''")
    case True
    then show ?thesis
      using assms(2,3) that [of "l2_scores vectors"] by (simp add: exact_topk_rows_def l2_scores_def)
  next
    case False
    then show ?thesis
      using assms(2-4) that [of "ip_scores vectors"] by (simp add: exact_topk_rows_def ip_scores_def)
  qed
  have "is_topk (sc q) (min k (length vectors)) (topk_row np (sc q) (min k (length vectors)))" for q
    by (rule topk_row_is_topk [OF assms(1)]) (simp add: sc)
  then show ?thesis unfolding eq by (simp add: is_topk_def sc)
qed

lemma exact_topk_rows_l2:
  assumes np: "numpy_api np" and "vectors \<noteq> []" and ok: "matmul_ok queries vectors"
    and best: "exact_topk_rows np queries vectors k ''l2'' = Inr best" and i: "i < length queries"
  shows "is_topk (map (sq_dist (queries ! i)) vectors) (min k (length vectors)) (best ! i)"
proof -
  let ?q = "queries ! i"
  have "best ! i = topk_row np (l2_scores vectors ?q) (min k (length vectors))"
    using assms by (auto simp: exact_topk_rows_def Let_def)
  then have "is_topk (l2_scores vectors ?q) (min k (length vectors)) (best ! i)"
    using topk_row_is_topk [OF np, of "min k (length vectors)" "l2_scores vectors ?q"]
    by (simp add: l2_scores_def)
  moreover have "length ?q = length v" if "v \<in> set vectors" for v
    using ok i that by (auto simp: matmul_ok_def list_all_iff)
  ultimately show ?thesis
    by (subst (asm) is_topk_shift [where d = "map (sq_dist ?q) vectors" and c = "dot ?q ?q"])
       (auto simp: l2_scores_def sq_dist_expand)
qed

text \<open>
  C1. Exact search: for every metric-\<^verbatim>\<open>l2\<close> request whose dimensions agree, \<^verbatim>\<open>exact_topk_rows\<close>
  returns one row per query, and each row lists \<open>min k n\<close> distinct rows of the corpus,
  nearest first in true squared euclidean distance, such that no row left out is closer than a
  row returned. The code ranks by the expanded form without \<^verbatim>\<open>||q||^2\<close>; the result is that of
  the full distance, whatever order numpy gives to ties.
\<close>

theorem exact_topk_rows_exact:
  assumes "numpy_api np" and "vectors \<noteq> []" and "matmul_ok queries vectors"
  shows "\<exists>best. exact_topk_rows np queries vectors k ''l2'' = Inr best \<and> length best = length queries \<and>
    (\<forall>i < length queries. is_topk (map (sq_dist (queries ! i)) vectors) (min k (length vectors)) (best ! i))"
  using exact_topk_rows_Inr [OF assms, of "''l2''" k] exact_topk_rows_l2 [OF assms] by auto

theorem exact_topk_rows_exact_witness:
  "numpy_api numpy_ref \<and> matmul_ok [[0, 0]] [[3, 0], [1, 0], [2, 2]] \<and>
   (\<exists>best. exact_topk_rows numpy_ref [[0, 0]] [[3, 0], [1, 0], [2, 2]] 2 ''l2'' = Inr best \<and> length best = 1 \<and>
     is_topk (map (sq_dist [0, 0]) [[3, 0], [1, 0], [2, 2]]) 2 (best ! 0))"
proof -
  have ok: "matmul_ok [[0, 0]] [[3, 0], [1, 0], [2, 2 :: real]]" by (simp add: matmul_ok_def)
  show ?thesis
    using exact_topk_rows_exact [OF npr.numpy_api_axioms _ ok, of 2] ok npr.numpy_api_axioms
    by (simp add: numeral_2_eq_2)
qed

section \<open>Recall and completeness\<close>

lemma recall_at_k_value:
  assumes "0 < k" and "truth \<noteq> []"
  shows "recall_at_k observed truth k =
     Inr (Fl (real (card (set (take k observed) \<inter> set (take k truth))) / real (card (set (take k truth)))))"
  using assms by (simp add: recall_at_k_def Let_def)

lemma card_ratio_bounds:
  assumes "finite T" "T \<noteq> {}"
  shows "0 \<le> real (card (S \<inter> T)) / real (card T)" "real (card (S \<inter> T)) / real (card T) \<le> 1"
    and "real (card (S \<inter> T)) / real (card T) = 1 \<longleftrightarrow> T \<subseteq> S"
    and "real (card (S \<inter> T)) / real (card T) = 0 \<longleftrightarrow> S \<inter> T = {}"
proof -
  have pos: "0 < card T" using assms by (simp add: card_gt_0_iff)
  have le: "card (S \<inter> T) \<le> card T" using assms by (simp add: card_mono)
  show "0 \<le> real (card (S \<inter> T)) / real (card T)" by simp
  show "real (card (S \<inter> T)) / real (card T) \<le> 1" using pos le by simp
  have "real (card (S \<inter> T)) / real (card T) = 1 \<longleftrightarrow> card (S \<inter> T) = card T"
    using pos by auto
  also have "\<dots> \<longleftrightarrow> T \<subseteq> S"
    using assms by (metis Int_absorb1 Int_lower2 card_subset_eq inf.absorb_iff2)
  finally show "real (card (S \<inter> T)) / real (card T) = 1 \<longleftrightarrow> T \<subseteq> S" .
  show "real (card (S \<inter> T)) / real (card T) = 0 \<longleftrightarrow> S \<inter> T = {}"
    using assms pos by auto
qed

text \<open>
  Recall: on a non-empty truth list and \<open>k > 0\<close> the value is a number in \<open>[0, 1]\<close>, it is 1
  exactly when every one of the exact top-\<open>k\<close> ids is among the first \<open>k\<close> observed, and 0
  exactly when none is.
\<close>

theorem recall_at_k_spec:
  assumes "0 < k" and "truth \<noteq> []"
  shows "\<exists>r. recall_at_k observed truth k = Inr (Fl r) \<and> 0 \<le> r \<and> r \<le> 1 \<and>
    (r = 1 \<longleftrightarrow> set (take k truth) \<subseteq> set (take k observed)) \<and>
    (r = 0 \<longleftrightarrow> set (take k observed) \<inter> set (take k truth) = {})"
  using assms card_ratio_bounds [of "set (take k truth)" "set (take k observed)"]
  by (simp add: recall_at_k_value)

theorem recall_at_k_spec_witness:
  "(0 :: nat) < 2 \<and> [''a'', ''b''] \<noteq> [] \<and>
   (\<exists>r. recall_at_k [''b'', ''c'', ''a''] [''a'', ''b''] 2 = Inr (Fl r) \<and> 0 \<le> r \<and> r \<le> 1 \<and> r \<noteq> 1 \<and> r \<noteq> 0)"
  using recall_at_k_spec [of 2 "[''a'', ''b'']" "[''b'', ''c'', ''a'']"] by auto

lemma completeness_bounds:
  assumes "finite I" "I \<noteq> {}"
  shows "\<exists>r. set_completeness L I = Fl r \<and> 0 \<le> r \<and> r \<le> 1 \<and> (r = 1 \<longleftrightarrow> I \<subseteq> L)"
  using assms card_ratio_bounds [of I L] by (simp add: set_completeness_def)

section \<open>The score of a replica\<close>

definition recall_val :: "nat \<Rightarrow> ident list \<Rightarrow> ident list \<Rightarrow> real" where
  "recall_val k obs truth =
     real (card (set (take k obs) \<inter> set (take k truth))) / real (card (set (take k truth)))"

definition restricted :: "ident set option \<Rightarrow> ident list \<Rightarrow> ident list" where
  "restricted r obs = (case r of None \<Rightarrow> obs | Some s \<Rightarrow> filter (\<lambda>i. i \<in> s) obs)"

text \<open>
  When a measurement is well posed: a sound corpus, rows inside it, \<open>k > 0\<close>, a known metric,
  and queries of the corpus' dimension.
\<close>

definition well_posed :: "corpus \<Rightarrow> vec list \<Rightarrow> nat \<Rightarrow> string \<Rightarrow> bool" where
  "well_posed c queries k metric \<longleftrightarrow>
     corpus_ok c \<and> 0 < k \<and> metric \<in> {''l2'', ''ip''} \<and> matmul_ok queries (take (c_n c) (c_mat c))"

lemma matmul_ok_gather:
  assumes "matmul_ok queries (take n mat)" and "set rows \<subseteq> {0..<n}" and "n \<le> length mat"
  shows "matmul_ok queries (map ((!) mat) rows)"
proof -
  have "mat ! r \<in> set (take n mat)" if "r \<in> set rows" for r
    using assms(2,3) that by (metis (no_types, lifting) atLeastLessThan_iff in_set_conv_nth
        length_take min.absorb2 nth_take subsetD)
  then show ?thesis using assms(1) by (auto simp: matmul_ok_def list_all_iff)
qed

lemma traverseE_nth:
  "set is \<subseteq> {0..<length xs} \<Longrightarrow> traverseE (nth_or_raise xs) is = Inr (map ((!) xs) is)"
  by (rule traverseE_map_Inr) (auto simp: nth_or_raise_def)

lemma recall_step:
  assumes "corpus_ok c" and "set rows \<subseteq> {0..<c_n c}" and "0 < k"
    and "set trow \<subseteq> {0..<length rows}" and "trow \<noteq> []"
  shows "bindE (traverseE (\<lambda>j. bindE (nth_or_raise rows j) (nth_or_raise (c_ids c))) trow)
      (\<lambda>t. let o'' = (case r of None \<Rightarrow> obs | Some s \<Rightarrow> filter (\<lambda>i. i \<in> s) obs) in recall_at_k (take k o'') t k) =
    Inr (Fl (recall_val k (restricted r obs) (map (\<lambda>j. c_ids c ! (rows ! j)) trow)))"
proof -
  have ids: "c_n c \<le> length (c_ids c)" using corpus_okD [OF assms(1)] by simp
  have hit: "rows ! j < length (c_ids c)" if "j \<in> set trow" for j
  proof -
    have "rows ! j \<in> set rows" using that assms(4) by auto
    then show ?thesis using assms(2) ids by auto
  qed
  have "traverseE (\<lambda>j. bindE (nth_or_raise rows j) (nth_or_raise (c_ids c))) trow =
      Inr (map (\<lambda>j. c_ids c ! (rows ! j)) trow)"
    using assms(4) hit by (intro traverseE_map_Inr) (auto simp: nth_or_raise_def)
  with assms(3,5) show ?thesis
    by (cases r) (simp_all add: recall_at_k_value recall_val_def restricted_def Let_def)
qed

lemma mean_recall_eq:
  assumes np: "numpy_api np" and wp: "well_posed c queries k metric"
    and rows: "rows \<noteq> []" "set rows \<subseteq> {0..<c_n c}"
  shows "\<exists>best. exact_topk_rows np queries (map ((!) (c_mat c)) rows) k metric = Inr best \<and>
    mean_recall np queries observed c k metric rows r =
      Inr (fmean (map (\<lambda>(obs, trow). Fl (recall_val k (restricted r obs)
                          (map (\<lambda>j. c_ids c ! (rows ! j)) trow))) (zip observed best)))
    \<and> length best = length queries \<and> (\<forall>t \<in> set best. t \<noteq> [] \<and> set t \<subseteq> {0..<length rows})"
proof -
  let ?sub = "map ((!) (c_mat c)) rows"
  have ok: "corpus_ok c" "0 < k" using wp by (auto simp: well_posed_def)
  have mat: "c_n c \<le> length (c_mat c)" using corpus_okD [OF ok(1)] by simp
  have sub: "traverseE (nth_or_raise (c_mat c)) rows = Inr ?sub"
    using rows(2) mat by (intro traverseE_nth) auto
  have mm: "matmul_ok queries ?sub"
    using wp rows(2) mat by (intro matmul_ok_gather) (auto simp: well_posed_def)
  obtain best where best: "exact_topk_rows np queries ?sub k metric = Inr best"
      "length best = length queries" "\<forall>t \<in> set best. length t = min k (length rows) \<and> set t \<subseteq> {0..<length rows}"
    using exact_topk_rows_Inr [OF np _ mm, of metric k] rows(1) wp by (auto simp: well_posed_def)
  have good: "t \<noteq> [] \<and> set t \<subseteq> {0..<length rows}" if "t \<in> set best" for t
    using bspec [OF best(3) that] ok(2) rows(1) by (cases t) (auto simp: min_def split: if_splits)
  let ?step = "\<lambda>(obs, trow). Fl (recall_val k (restricted r obs) (map (\<lambda>j. c_ids c ! (rows ! j)) trow))"
  have "mean_recall np queries observed c k metric rows r =
      Inr (if map ?step (zip observed best) = [] then NaN
           else np_mean np (map ?step (zip observed best)))"
  proof -
    have "traverseE (\<lambda>(o', trow).
            bindE (traverseE (\<lambda>j. bindE (nth_or_raise rows j) (nth_or_raise (c_ids c))) trow)
             (\<lambda>t. let o'' = (case r of None \<Rightarrow> o' | Some s \<Rightarrow> filter (\<lambda>i. i \<in> s) o') in recall_at_k (take k o'') t k))
          (zip observed best) = Inr (map ?step (zip observed best))"
      using recall_step [OF ok(1) rows(2) ok(2)] good
      by (intro traverseE_map_Inr) (auto dest: set_zip_rightD)
    moreover have "drop_nan (map ?step (zip observed best)) = map ?step (zip observed best)"
      by (auto simp: drop_nan_def filter_id_conv)
    ultimately show ?thesis
      using rows(1) by (simp add: mean_recall_def sub best(1) Let_def)
  qed
  then show ?thesis
    using best good by (auto simp: numpy_api.mean [OF np])
qed

lemma recall_val_bounds:
  assumes "0 < k" "truth \<noteq> []"
  shows "0 \<le> recall_val k obs truth" "recall_val k obs truth \<le> 1"
    and "recall_val k obs truth = 1 \<longleftrightarrow> set (take k truth) \<subseteq> set (take k obs)"
  using assms card_ratio_bounds [of "set (take k truth)" "set (take k obs)"]
  by (simp_all add: recall_val_def)

definition in_unit :: "flt \<Rightarrow> bool" where
  "in_unit x \<longleftrightarrow> (\<exists>v. x = Fl v \<and> 0 \<le> v \<and> v \<le> 1)"

lemma fmean_Fl_list:
  "fmean (map (\<lambda>x. Fl (f x)) xs) = (if xs = [] then NaN else Fl (mean (map f xs)))"
  using fmean_map_Fl [of "map f xs"] by (simp add: comp_def)

lemma mean_recall_unit:
  assumes np: "numpy_api np" and wp: "well_posed c queries k metric"
    and rows: "set rows \<subseteq> {0..<c_n c}"
  shows "\<exists>x. mean_recall np queries observed c k metric rows r = Inr x \<and>
    (if rows = [] \<or> queries = [] \<or> observed = [] then x = NaN else in_unit x)"
proof (cases "rows = []")
  case True
  then show ?thesis by (simp add: mean_recall_def)
next
  case False
  obtain best where best: "mean_recall np queries observed c k metric rows r =
      Inr (fmean (map (\<lambda>(obs, trow). Fl (recall_val k (restricted r obs)
            (map (\<lambda>j. c_ids c ! (rows ! j)) trow))) (zip observed best)))"
      "length best = length queries" "\<forall>t \<in> set best. t \<noteq> []"
    using mean_recall_eq [OF np wp False rows] by blast
  let ?f = "\<lambda>(obs, trow). recall_val k (restricted r obs) (map (\<lambda>j. c_ids c ! (rows ! j)) trow)"
  have val: "mean_recall np queries observed c k metric rows r =
      Inr (if zip observed best = [] then NaN else Fl (mean (map ?f (zip observed best))))"
    unfolding best(1) fmean_Fl_list [of ?f, symmetric] by (simp add: case_prod_unfold)
  have empty: "zip observed best = [] \<longleftrightarrow> queries = [] \<or> observed = []"
    using best(2) by (cases observed; cases best) auto
  have k: "0 < k" using wp by (simp add: well_posed_def)
  have bnd: "0 \<le> x \<and> x \<le> 1" if "x \<in> set (map ?f (zip observed best))" for x
    using that best(3) recall_val_bounds [OF k] by (fastforce dest: set_zip_rightD)
  have "in_unit (Fl (mean (map ?f (zip observed best))))" if "zip observed best \<noteq> []"
    using mean_bounds [of "map ?f (zip observed best)" 0 1] bnd that by (auto simp: in_unit_def)
  with val empty False show ?thesis by auto
qed

lemma score_replica_cases:
  assumes "numpy_api np" and wp: "well_posed c queries k metric"
    and fin: "finite local_ids" "finite intended_ids"
  shows "\<exists>s. score_replica np queries observed local_ids intended_ids c k metric None = Inr s \<and>
    (if rows_for c local_ids = [] \<or> queries = [] \<or> observed = [] then index_recall s = NaN
     else in_unit (index_recall s)) \<and>
    (if rows_for c intended_ids = [] \<or> queries = [] \<or> observed = [] then e2e_recall s = NaN
     else in_unit (e2e_recall s)) \<and>
    completeness s = set_completeness local_ids intended_ids"
proof -
  have ok: "corpus_ok c" using wp by (simp add: well_posed_def)
  have "set (rows_for c local_ids) \<subseteq> {0..<c_n c}" "set (rows_for c intended_ids) \<subseteq> {0..<c_n c}"
    using rows_for_facts(1) [OF ok] fin by auto
  from mean_recall_unit [OF assms(1) wp this(1), of observed None]
       mean_recall_unit [OF assms(1) wp this(2), of observed "Some intended_ids"]
  show ?thesis by (auto simp: score_replica_def Let_def)
qed

text \<open>
  C9. Scoring is total and well-defined: on a well-posed measurement \<^verbatim>\<open>score_replica\<close> never
  raises; each recall is NaN exactly when its truth set, the query set or the answer list is
  empty and a number in \<open>[0, 1]\<close> otherwise; completeness is NaN exactly when nothing is
  intended, lies in \<open>[0, 1]\<close>, and is 1 exactly when the replica holds every intended id.
\<close>

theorem score_replica_sound:
  assumes "numpy_api np" and "well_posed c queries k metric"
    and "finite local_ids" and "finite intended_ids"
  shows "\<exists>s. score_replica np queries observed local_ids intended_ids c k metric None = Inr s \<and>
    (if rows_for c local_ids = [] \<or> queries = [] \<or> observed = [] then index_recall s = NaN
     else in_unit (index_recall s)) \<and>
    (if rows_for c intended_ids = [] \<or> queries = [] \<or> observed = [] then e2e_recall s = NaN
     else in_unit (e2e_recall s)) \<and>
    (if intended_ids = {} then completeness s = NaN
     else in_unit (completeness s) \<and> (completeness s = Fl 1 \<longleftrightarrow> intended_ids \<subseteq> local_ids))"
proof -
  have "if intended_ids = {} then set_completeness local_ids intended_ids = NaN
     else in_unit (set_completeness local_ids intended_ids) \<and>
       (set_completeness local_ids intended_ids = Fl 1 \<longleftrightarrow> intended_ids \<subseteq> local_ids)"
    using completeness_bounds [OF assms(4), of local_ids]
    by (auto simp: in_unit_def set_completeness_def)
  then show ?thesis
    using score_replica_cases [OF assms, of observed] by force
qed

definition demo_corpus :: corpus where
  "demo_corpus = \<lparr>c_ids = [''a'', ''b''], c_mat = [[0], [5]],
                  c_row_of = [(''a'', 0), (''b'', 1)], c_n = 2\<rparr>"

lemma demo_well_posed: "well_posed demo_corpus [[0]] 1 ''l2''"
  by code_simp

lemma demo_rows: "rows_for demo_corpus {''a'', ''b''} = [0, 1]" "rows_for demo_corpus {''a''} = [0]"
  by code_simp+

theorem score_replica_sound_witness:
  "well_posed demo_corpus [[0]] 1 ''l2'' \<and>
   (\<exists>s. score_replica numpy_ref [[0]] [[''a'']] {''a''} {''a'', ''b''} demo_corpus 1 ''l2'' None = Inr s \<and>
      in_unit (index_recall s) \<and> in_unit (e2e_recall s) \<and> in_unit (completeness s) \<and>
      completeness s \<noteq> Fl 1)"
  using score_replica_sound [OF npr.numpy_api_axioms demo_well_posed,
      of "{''a''}" "{''a'', ''b''}" "[[''a'']]"] demo_well_posed
  by (auto simp: demo_rows)

text \<open>
  The two ground truths coincide when they should: if the replica's rows are the intended
  rows and it answers with intended ids only, then \<^verbatim>\<open>index_recall\<close> and \<^verbatim>\<open>e2e_recall\<close> are the same
  number; so a gap between them is evidence that the data content differs.
\<close>

theorem recalls_coincide_on_full_replica:
  assumes "rows_for c local_ids = rows_for c intended_ids"
    and "\<forall>obs \<in> set observed. set obs \<subseteq> intended_ids"
    and "score_replica np queries observed local_ids intended_ids c k metric None = Inr s"
  shows "index_recall s = e2e_recall s"
proof -
  have same: "traverseE (\<lambda>(o', trow). bindE (T trow) (\<lambda>t. recall_at_k (take k (filter (\<lambda>i. i \<in> intended_ids) o')) t k)) (zip observed best) =
      traverseE (\<lambda>(o', trow). bindE (T trow) (\<lambda>t. recall_at_k (take k o') t k)) (zip observed best)"
    for T :: "nat list \<Rightarrow> ident list res" and best
  proof (rule traverseE_cong [OF refl])
    fix x assume x: "x \<in> set (zip observed best)"
    have "filter (\<lambda>i. i \<in> intended_ids) (fst x) = fst x"
      using assms(2) set_zip_leftD [of "fst x" "snd x" observed best] x by (auto simp: filter_id_conv)
    then show "(case x of (o', trow) \<Rightarrow> bindE (T trow) (\<lambda>t. recall_at_k (take k (filter (\<lambda>i. i \<in> intended_ids) o')) t k)) =
        (case x of (o', trow) \<Rightarrow> bindE (T trow) (\<lambda>t. recall_at_k (take k o') t k))"
      by (simp add: case_prod_unfold)
  qed
  have "mean_recall np queries observed c k metric rows (Some intended_ids) =
        mean_recall np queries observed c k metric rows None" for rows
    by (simp add: mean_recall_def Let_def same)
  with assms(1,3) show ?thesis
    by (auto simp: score_replica_def Let_def err_simps)
qed


theorem recalls_coincide_on_full_replica_witness:
  "score_replica numpy_ref [[0]] [[''a'']] {''a'', ''b''} {''a'', ''b''} demo_corpus 1 ''l2'' None =
     Inr \<lparr>index_recall = Fl 1, e2e_recall = Fl 1, completeness = Fl 1, n_local = Fl 2, n_intended = Fl 2\<rparr> \<and>
   index_recall \<lparr>index_recall = Fl 1, e2e_recall = Fl 1, completeness = Fl 1, n_local = Fl 2, n_intended = Fl 2\<rparr> =
   e2e_recall \<lparr>index_recall = Fl 1, e2e_recall = Fl 1, completeness = Fl 1, n_local = Fl 2, n_intended = Fl 2\<rparr>"
proof -
  have run: "score_replica numpy_ref [[0]] [[''a'']] {''a'', ''b''} {''a'', ''b''} demo_corpus 1 ''l2'' None =
     Inr \<lparr>index_recall = Fl 1, e2e_recall = Fl 1, completeness = Fl 1, n_local = Fl 2, n_intended = Fl 2\<rparr>"
    by code_simp
  show ?thesis
    using run recalls_coincide_on_full_replica [OF refl _ run] by simp
qed

end
