(* ===== verification/Over_Fetch.thy ===== *)
theory Over_Fetch
  imports Recall_Metrics
begin

text \<open>
  Why the sampler asks a replica for \<^verbatim>\<open>OVERFETCH * k\<close> results: the end-to-end score drops the ids
  that are not settled yet before truncating to \<open>k\<close>. Here it is shown that this restriction
  never costs a healthy replica anything, as long as the unsettled ids fit in the surplus.
\<close>

section \<open>The nearest elements of a set\<close>

definition nearest :: "('a \<Rightarrow> real) \<Rightarrow> nat \<Rightarrow> 'a set \<Rightarrow> 'a list \<Rightarrow> bool" where
  "nearest f m A rs \<longleftrightarrow>
     distinct rs \<and> set rs \<subseteq> A \<and> length rs = min m (card A) \<and> sorted (map f rs) \<and>
     (\<forall>i \<in> set rs. \<forall>j \<in> A - set rs. f i \<le> f j)"

lemma nearest_unique:
  assumes "finite A" "inj_on f A" and rs: "nearest f m A rs" and rs': "nearest f m A rs'"
  shows "set rs = set rs'"
proof (rule ccontr)
  assume ne: "set rs \<noteq> set rs'"
  have card: "card (set rs) = card (set rs')"
    using rs rs' by (simp add: nearest_def distinct_card)
  have "\<not> set rs \<subseteq> set rs'" using card ne card_subset_eq [of "set rs'" "set rs"] by auto
  then obtain i where i: "i \<in> set rs" "i \<notin> set rs'" by blast
  have "\<not> set rs' \<subseteq> set rs" using card ne card_subset_eq [of "set rs" "set rs'"] by auto
  then obtain j where j: "j \<in> set rs'" "j \<notin> set rs" by blast
  have mem: "i \<in> A" "j \<in> A" using i j rs rs' by (auto simp: nearest_def)
  have "f i \<le> f j" using i(1) j(2) mem(2) rs by (auto simp: nearest_def)
  moreover have "f j \<le> f i" using j(1) i(2) mem(1) rs' by (auto simp: nearest_def)
  ultimately have "i = j" using assms(2) mem by (auto dest: inj_onD)
  with i j show False by simp
qed

text \<open>Elements of a sorted list that survive \<^verbatim>\<open>take\<close> come before those that do not.\<close>

lemma sorted_take_le:
  assumes "sorted (map f xs)" "x \<in> set (take k xs)" "y \<in> set xs" "y \<notin> set (take k xs)"
  shows "f x \<le> f y"
proof -
  have "y \<in> set (drop k xs)" using assms(3,4) by (metis Un_iff append_take_drop_id set_append)
  moreover have "sorted (map f (take k xs) @ map f (drop k xs))"
    using assms(1) by (metis append_take_drop_id map_append)
  ultimately show ?thesis using assms(2) by (auto simp: sorted_append)
qed

text \<open>
  Restricting the \<open>F\<close> nearest of \<open>A\<close> to \<open>B\<close> and keeping \<open>k\<close> gives the \<open>k\<close> nearest of \<open>B\<close>,
  when at most \<open>F - k\<close> of them were outside \<open>B\<close>.
\<close>

lemma nearest_restrict:
  assumes "finite A" and "B \<subseteq> A" and near: "nearest f F A rs"
    and few: "length (filter (\<lambda>r. r \<notin> B) rs) + k \<le> F"
  shows "nearest f k B (take k (filter (\<lambda>r. r \<in> B) rs))"
proof -
  let ?in = "filter (\<lambda>r. r \<in> B) rs"
  have d: "distinct rs" "set rs \<subseteq> A" "length rs = min F (card A)" "sorted (map f rs)"
    using near by (auto simp: nearest_def)
  have finB: "finite B" using assms(1,2) by (rule finite_subset [rotated])
  have split: "length ?in + length (filter (\<lambda>r. r \<notin> B) rs) = length rs"
    by (rule sum_length_filter_compl)
  have len: "min (length ?in) k = min k (card B)"
  proof (cases "F \<le> card A")
    case True
    then have "k \<le> length ?in" using few split d(3) by simp
    moreover have "length ?in \<le> card B"
      using d(1) finB by (metis Collect_mem_eq card_mono distinct_card distinct_filter mem_Collect_eq set_filter subsetI)
    ultimately show ?thesis by simp
  next
    case False
    then have "card (set rs) = card A" using d by (simp add: distinct_card)
    then have "set rs = A" using d(2) assms(1) by (simp add: card_subset_eq)
    then have "set ?in = B" using assms(2) by auto
    then have "length ?in = card B" using d(1) by (metis distinct_card distinct_filter)
    then show ?thesis by simp
  qed
  have srt: "sorted (map f ?in)" using d(4) by (rule sorted_filter)
  have "f i \<le> f j" if i: "i \<in> set (take k ?in)" and j: "j \<in> B" "j \<notin> set (take k ?in)" for i j
  proof (cases "j \<in> set rs")
    case True
    then show ?thesis using sorted_take_le [OF srt i _ j(2)] j(1) by simp
  next
    case False
    have "i \<in> set rs" using set_take_subset [of k ?in] i by auto
    then show ?thesis using near False j(1) assms(2) by (auto simp: nearest_def)
  qed
  moreover have "sorted (map f (take k ?in))"
    using srt by (metis sorted_wrt_take take_map)
  moreover have "set (take k ?in) \<subseteq> B" using set_take_subset [of k ?in] by auto
  ultimately show ?thesis
    using d(1) len by (simp add: nearest_def distinct_take)
qed

lemma is_topk_nearest:
  assumes top: "is_topk (map g (map ((!) mat) rows)) (min k (length rows)) t" and "distinct rows"
  shows "nearest (\<lambda>r. g (mat ! r)) k (set rows) (map ((!) rows) t)"
proof -
  have t: "length t = min k (length rows)" "distinct t" "set t \<subseteq> {0..<length rows}"
    "sorted (map ((!) (map g (map ((!) mat) rows))) t)"
    using top by (auto simp: is_topk_def)
  have "map ((!) (map g (map ((!) mat) rows))) t = map (\<lambda>r. g (mat ! r)) (map ((!) rows) t)"
    using t(3) by auto
  with t(4) have srt: "sorted (map (\<lambda>r. g (mat ! r)) (map ((!) rows) t))" by (simp only:)
  have inj: "distinct (map ((!) rows) t)"
    using t(2,3) assms(2) by (auto simp: distinct_map inj_on_def nth_eq_iff_index_eq subset_eq)
  have "g (mat ! i) \<le> g (mat ! j)"
    if i: "i \<in> set (map ((!) rows) t)" and j: "j \<in> set rows - set (map ((!) rows) t)" for i j
  proof -
    obtain a where a: "a \<in> set t" "i = rows ! a" using i by auto
    obtain b where b: "b < length rows" "j = rows ! b" using j by (auto simp: in_set_conv_nth)
    have "b \<notin> set t" using b j by auto
    then show ?thesis using top a b t(3) by (force simp: is_topk_def)
  qed
  then show ?thesis
    using t inj srt assms(2) by (auto simp: nearest_def distinct_card)
qed

section \<open>A replica that searches exactly scores 1\<close>

abbreviation row_dist :: "corpus \<Rightarrow> vec \<Rightarrow> nat \<Rightarrow> real" where
  "row_dist c q \<equiv> \<lambda>r. sq_dist q (c_mat c ! r)"

lemma mean_recall_one:
  assumes np: "numpy_api np" and wp: "well_posed c queries k ''l2''"
    and rows: "rows \<noteq> []" "set rows \<subseteq> {0..<c_n c}" "distinct rows"
    and q: "queries \<noteq> []" "length observed = length queries"
    and inj: "\<And>i. i < length queries \<Longrightarrow> inj_on (row_dist c (queries ! i)) (set rows)"
    and near: "\<And>i. i < length queries \<Longrightarrow> \<exists>rs. nearest (row_dist c (queries ! i)) k (set rows) rs \<and>
        take k (restricted r (observed ! i)) = map ((!) (c_ids c)) rs"
  shows "mean_recall np queries observed c k ''l2'' rows r = Inr (Fl 1)"
proof -
  let ?sub = "map ((!) (c_mat c)) rows"
  let ?v = "\<lambda>(obs, trow). recall_val k (restricted r obs) (map (\<lambda>j. c_ids c ! (rows ! j)) trow)"
  have k: "0 < k" using wp by (simp add: well_posed_def)
  have mm: "matmul_ok queries ?sub"
    using wp rows(2) corpus_okD(1) by (intro matmul_ok_gather) (auto simp: well_posed_def)
  obtain best where best: "exact_topk_rows np queries ?sub k ''l2'' = Inr best"
      "mean_recall np queries observed c k ''l2'' rows r = Inr (fmean (map (\<lambda>(obs, trow). Fl (recall_val k (restricted r obs)
                          (map (\<lambda>j. c_ids c ! (rows ! j)) trow))) (zip observed best)))"
      "length best = length queries" "\<forall>t \<in> set best. t \<noteq> []"
    using mean_recall_eq [OF np wp rows(1,2)] by blast
  have one: "?v (observed ! i, best ! i) = 1" if i: "i < length queries" for i
  proof -
    let ?f = "row_dist c (queries ! i)"
    have "nearest ?f k (set rows) (map ((!) rows) (best ! i))"
      using exact_topk_rows_l2 [OF np _ mm best(1) i] rows(1) by (intro is_topk_nearest [OF _ rows(3)]) simp
    moreover obtain rs where rs: "nearest ?f k (set rows) rs"
        "take k (restricted r (observed ! i)) = map ((!) (c_ids c)) rs"
      using near [OF i] by blast
    ultimately have same: "set (map ((!) rows) (best ! i)) = set rs"
      using inj [OF i] by (intro nearest_unique) auto
    have "best ! i \<noteq> []" using best(3,4) i by simp
    moreover have "set (take k (map (\<lambda>j. c_ids c ! (rows ! j)) (best ! i))) \<subseteq> (!) (c_ids c) ` set (map ((!) rows) (best ! i))"
      by (auto simp: take_map dest: in_set_takeD)
    ultimately show ?thesis
      using recall_val_bounds(3) [OF k] rs(2) unfolding same by simp
  qed
  have "map ?v (zip observed best) = map (\<lambda>_. 1) (zip observed best)"
    using one q(2) best(3) by (auto simp: set_zip)
  moreover have "zip observed best \<noteq> []" using q best(3) by (cases observed; cases best) auto
  moreover have "mean_recall np queries observed c k ''l2'' rows r =
      Inr (if zip observed best = [] then NaN else Fl (mean (map ?v (zip observed best))))"
    unfolding best(2) fmean_Fl_list [of ?v, symmetric] by (simp add: case_prod_unfold)
  ultimately show ?thesis by (simp only: mean_map_const simp_thms if_False)
qed

text \<open>
  The setting: the replica holds every intended id, no two of its vectors are equally far from
  a query, and its answer to query \<open>i\<close> is the \<open>F\<close> nearest of what it holds, \<open>ans ! i\<close>, of which
  at most \<open>F - k\<close> are not intended.
\<close>

definition healthy_answers ::
  "corpus \<Rightarrow> vec list \<Rightarrow> ident list list \<Rightarrow> nat list list \<Rightarrow> ident set \<Rightarrow> ident set \<Rightarrow> nat \<Rightarrow> nat \<Rightarrow> bool" where
  "healthy_answers c queries observed ans local_ids intended_ids F k \<longleftrightarrow>
     length observed = length queries \<and> length ans = length queries \<and>
     (\<forall>i < length queries.
        inj_on (row_dist c (queries ! i)) (set (rows_for c local_ids)) \<and>
        nearest (row_dist c (queries ! i)) F (set (rows_for c local_ids)) (ans ! i) \<and>
        observed ! i = map ((!) (c_ids c)) (ans ! i) \<and>
        length (filter (\<lambda>x. x \<notin> intended_ids) (observed ! i)) + k \<le> F)"

lemma healthy_restricted:
  assumes h: "healthy_answers c queries observed ans L I F k" and i: "i < length queries"
    and ok: "corpus_ok c" and fin: "finite L" and sub: "I \<subseteq> L"
  shows "nearest (row_dist c (queries ! i)) k (set (rows_for c I)) (take k (filter (\<lambda>r. r \<in> set (rows_for c I)) (ans ! i)))"
    and "take k (filter (\<lambda>x. x \<in> I) (observed ! i)) =
      map ((!) (c_ids c)) (take k (filter (\<lambda>r. r \<in> set (rows_for c I)) (ans ! i)))"
proof -
  have near: "nearest (row_dist c (queries ! i)) F (set (rows_for c L)) (ans ! i)"
    and obs: "observed ! i = map ((!) (c_ids c)) (ans ! i)"
    and few: "length (filter (\<lambda>x. x \<notin> I) (observed ! i)) + k \<le> F"
    using h i by (auto simp: healthy_answers_def)
  have rows: "set (rows_for c L) = {r. r < c_n c \<and> c_ids c ! r \<in> L}"
    "set (rows_for c I) = {r. r < c_n c \<and> c_ids c ! r \<in> I}"
    using rows_for_facts(1) [OF ok] fin sub finite_subset by blast+
  have mem: "r \<in> set (rows_for c I) \<longleftrightarrow> c_ids c ! r \<in> I" if "r \<in> set (ans ! i)" for r
    using near that rows by (auto simp: nearest_def)
  have "length (filter (\<lambda>r. r \<notin> set (rows_for c I)) (ans ! i)) = length (filter (\<lambda>x. x \<notin> I) (observed ! i))"
    unfolding obs filter_map length_map comp_def using mem by (metis (no_types, lifting) filter_cong)
  then show "nearest (row_dist c (queries ! i)) k (set (rows_for c I)) (take k (filter (\<lambda>r. r \<in> set (rows_for c I)) (ans ! i)))"
    using few rows sub by (intro nearest_restrict [OF _ _ near]) auto
  have "filter (\<lambda>r. r \<in> set (rows_for c I)) (ans ! i) = filter (\<lambda>r. c_ids c ! r \<in> I) (ans ! i)"
    using mem by (rule filter_cong [OF refl])
  then show "take k (filter (\<lambda>x. x \<in> I) (observed ! i)) =
      map ((!) (c_ids c)) (take k (filter (\<lambda>r. r \<in> set (rows_for c I)) (ans ! i)))"
    unfolding obs by (simp only: filter_map comp_def take_map)
qed


text \<open>Two settled vectors and a fresh one that is nearest to the query; \<open>k = 1\<close>, \<open>F = 3\<close>.\<close>

definition fresh_corpus :: corpus where
  "fresh_corpus = \<lparr>c_ids = [''a'', ''b'', ''f''], c_mat = [[2], [5], [1]],
                   c_row_of = [(''a'', 0), (''b'', 1), (''f'', 2)], c_n = 3\<rparr>"


end
