(* ===== verification/Py_Text.thy ===== *)
theory Py_Text
  imports Nano_Prelude
begin

text \<open>
  The Python string operations the code uses: decimal rendering of a natural number (f-strings
  such as \<^verbatim>\<open>f"rr-{idx}"\<close>), prefix and substring tests, \<^verbatim>\<open>split\<close> and \<^verbatim>\<open>strip\<close>.
\<close>

section \<open>Decimal numerals\<close>

definition digit :: "nat \<Rightarrow> char" where
  "digit d = char_of (48 + d)"

fun dec :: "nat \<Rightarrow> string" where
  "dec n = (if n < 10 then [digit n] else dec (n div 10) @ [digit (n mod 10)])"

declare dec.simps [simp del]

definition digit_value :: "char \<Rightarrow> nat" where
  "digit_value c = of_char c - 48"

definition undec :: "string \<Rightarrow> nat" where
  "undec s = foldl (\<lambda>acc c. acc * 10 + digit_value c) 0 s"

lemma digit_value_digit [simp]: "d < 10 \<Longrightarrow> digit_value (digit d) = d"
  by (simp add: digit_value_def digit_def)

lemma undec_dec [simp]: "undec (dec n) = n"
proof (induction n rule: dec.induct)
  case (1 n)
  then show ?case by (cases "n < 10") (simp_all add: dec.simps [of n] undec_def)
qed

lemma dec_inj [simp]: "dec m = dec n \<longleftrightarrow> m = n"
  by (metis undec_dec)

text \<open>\<^verbatim>\<open>str\<close> of an int.\<close>

definition str_int :: "int \<Rightarrow> string" where
  "str_int i = (if i < 0 then CHR ''-'' # dec (nat (- i)) else dec (nat i))"

section \<open>Tests and slices\<close>

definition starts_with :: "string \<Rightarrow> string \<Rightarrow> bool" where
  "starts_with p s \<longleftrightarrow> take (length p) s = p"

definition ends_with :: "string \<Rightarrow> string \<Rightarrow> bool" where
  "ends_with p s \<longleftrightarrow> length p \<le> length s \<and> drop (length s - length p) s = p"

text \<open>\<^verbatim>\<open>p in s\<close>.\<close>

fun is_substring :: "string \<Rightarrow> string \<Rightarrow> bool" where
  "is_substring p [] \<longleftrightarrow> p = []"
| "is_substring p (c # s) \<longleftrightarrow> starts_with p (c # s) \<or> is_substring p s"

lemma starts_with_append [simp]: "starts_with p (p @ s)"
  by (simp add: starts_with_def)

lemma starts_with_iff: "starts_with p s \<longleftrightarrow> (\<exists>t. s = p @ t)"
  unfolding starts_with_def by (metis append_eq_conv_conj append_take_drop_id)

lemma is_substring_iff: "is_substring p s \<longleftrightarrow> (\<exists>a b. s = a @ p @ b)"
proof (induction s)
  case (Cons c s)
  have "(\<exists>a b. c # s = a @ p @ b) \<longleftrightarrow> starts_with p (c # s) \<or> (\<exists>a b. s = a @ p @ b)"
    unfolding starts_with_iff by (metis append_Cons append_Nil neq_Nil_conv list.inject)
  then show ?case using Cons by simp
qed simp

text \<open>\<^verbatim>\<open>s.split(sep)\<close> for a one-character separator.\<close>

fun split_on :: "char \<Rightarrow> string \<Rightarrow> string list" where
  "split_on c [] = [[]]"
| "split_on c (x # xs) =
     (if x = c then [] # split_on c xs
      else case split_on c xs of [] \<Rightarrow> [[x]] | w # ws \<Rightarrow> (x # w) # ws)"

text \<open>\<^verbatim>\<open>s.strip(chars)\<close>.\<close>

definition strip_chars :: "char set \<Rightarrow> string \<Rightarrow> string" where
  "strip_chars cs s = rev (dropWhile (\<lambda>c. c \<in> cs) (rev (dropWhile (\<lambda>c. c \<in> cs) s)))"

definition is_space :: "char \<Rightarrow> bool" where
  "is_space c \<longleftrightarrow> c \<in> {CHR '' '', CHR 0x09, CHR 0x0A, CHR 0x0B, CHR 0x0C, CHR 0x0D}"

definition strip :: "string \<Rightarrow> string" where
  "strip s = strip_chars (Collect is_space) s"

lemma split_on_nonempty [simp]: "split_on c s \<noteq> []"
  by (induction s) (auto split: list.splits)

lemma split_on_no_sep: "w \<in> set (split_on c s) \<Longrightarrow> c \<notin> set w"
  by (induction s arbitrary: w) (auto split: list.splits if_splits)

text \<open>\<^verbatim>\<open>sep.join(xs)\<close>, and that splitting undoes joining lines.\<close>

fun join :: "string \<Rightarrow> string list \<Rightarrow> string" where
  "join sep [] = []"
| "join sep [x] = x"
| "join sep (x # y # xs) = x @ sep @ join sep (y # xs)"

lemma split_on_append: "c \<notin> set x \<Longrightarrow> split_on c (x @ c # s) = x # split_on c s"
  by (induction x) auto

lemma split_on_plain: "c \<notin> set x \<Longrightarrow> split_on c x = [x]"
  by (induction x) auto

lemma split_on_join: "xs \<noteq> [] \<Longrightarrow> list_all (\<lambda>x. c \<notin> set x) xs \<Longrightarrow> split_on c (join [c] xs) = xs"
  by (induction "[c]" xs rule: join.induct) (simp_all add: split_on_append split_on_plain)

section \<open>Numbers as text\<close>

definition is_digit :: "char \<Rightarrow> bool" where
  "is_digit c \<longleftrightarrow> 48 \<le> (of_char c :: nat) \<and> (of_char c :: nat) \<le> 57"

definition lower_char :: "char \<Rightarrow> char" where
  "lower_char c = (if 65 \<le> (of_char c :: nat) \<and> (of_char c :: nat) \<le> 90 then char_of (of_char c + 32 :: nat) else c)"

definition lower :: "string \<Rightarrow> string" where
  "lower s = map lower_char s"

text \<open>An optional sign: its value and the rest.\<close>

fun sign_of :: "string \<Rightarrow> real \<times> string" where
  "sign_of (c # s) = (if c = CHR ''-'' then (-1, s) else if c = CHR ''+'' then (1, s) else (1, c # s))"
| "sign_of [] = (1, [])"

text \<open>The exponent part of a float literal, as a power of ten.\<close>

definition exponent_of :: "string \<Rightarrow> real option" where
  "exponent_of s =
     (case s of
        [] \<Rightarrow> Some 1
      | c # r \<Rightarrow>
          (let (sg, ds) = sign_of r
           in if lower_char c = CHR ''e'' \<and> ds \<noteq> [] \<and> list_all is_digit ds
              then Some (if sg < 0 then 1 / 10 ^ undec ds else 10 ^ undec ds) else None))"

text \<open>
  \<^verbatim>\<open>float(s)\<close>: decimal literals and \<^verbatim>\<open>nan\<close>; \<open>None\<close> is \<^verbatim>\<open>ValueError\<close>. Infinities and digit groups
  with underscores, which no producer in the repository writes, are not accepted.
\<close>

definition py_float :: "string \<Rightarrow> flt option" where
  "py_float s =
     (let (sg, u) = sign_of (strip s)
      in if lower u = ''nan'' then Some NaN
         else let ip = takeWhile is_digit u; r1 = dropWhile is_digit u;
                  (fp, r2) = (case r1 of
                      [] \<Rightarrow> ([], [])
                    | c # r \<Rightarrow> if c = CHR ''.'' then (takeWhile is_digit r, dropWhile is_digit r) else ([], r1))
              in if ip = [] \<and> fp = [] then None
                 else map_option (\<lambda>e. Fl (sg * (real (undec ip) + real (undec fp) / 10 ^ length fp) * e)) (exponent_of r2))"

text \<open>\<^verbatim>\<open>f"{x:.<nd>f}"\<close> for a non-negative number.\<close>

fun dec_pad :: "nat \<Rightarrow> nat \<Rightarrow> string" where
  "dec_pad 0 n = []"
| "dec_pad (Suc w) n = dec_pad w (n div 10) @ [digit (n mod 10)]"

definition show_fixed :: "nat \<Rightarrow> real \<Rightarrow> string" where
  "show_fixed nd x =
     (let m = nat (half_even (x * 10 ^ nd))
      in dec (m div 10 ^ nd) @ ''.'' @ dec_pad nd m)"

lemma of_char_digit [simp]: "d < 10 \<Longrightarrow> of_char (digit d) = (48 + d :: nat)"
  by (simp add: digit_def)

lemma is_digit_digit [simp]: "d < 10 \<Longrightarrow> is_digit (digit d)"
  by (simp add: is_digit_def)

lemma dec_digits: "list_all is_digit (dec n)"
proof (induction n rule: dec.induct)
  case (1 n)
  then show ?case by (cases "n < 10") (simp_all add: dec.simps [of n])
qed

lemma dec_nonempty [simp]: "dec n \<noteq> []"
  by (subst dec.simps) simp

lemma length_dec_pad [simp]: "length (dec_pad w n) = w"
  by (induction w n rule: dec_pad.induct) auto

lemma dec_pad_digits: "list_all is_digit (dec_pad w n)"
  by (induction w n rule: dec_pad.induct) auto

lemma undec_snoc: "undec (s @ [c]) = undec s * 10 + digit_value c"
  by (simp add: undec_def)

lemma undec_dec_pad: "undec (dec_pad w n) = n mod 10 ^ w"
proof (induction w n rule: dec_pad.induct)
  case (2 w n)
  have "n mod 10 ^ Suc w = n div 10 mod 10 ^ w * 10 + n mod 10"
    using mod_mult2_eq [of n 10 "10 ^ w"] by simp
  moreover have "undec (dec_pad (Suc w) n) = n div 10 mod 10 ^ w * 10 + n mod 10"
    unfolding dec_pad.simps undec_snoc 2 by simp
  ultimately show ?case by (simp only:)
qed (simp add: undec_def)

lemma not_digit [simp]:
  "\<not> is_digit CHR ''-''" "\<not> is_digit CHR ''+''" "\<not> is_digit CHR ''.''" "\<not> is_digit CHR ''n''" "\<not> is_digit CHR ''N''"
  by (simp_all add: is_digit_def)

lemma digit_not_space: "is_digit c \<Longrightarrow> \<not> is_space c"
  by (auto simp: is_digit_def is_space_def)

lemma strip_ends:
  assumes "s \<noteq> []" "\<not> is_space (hd s)" "\<not> is_space (last s)"
  shows "strip s = s"
proof -
  have "dropWhile is_space s = s" using assms(1,2) by (cases s) auto
  moreover have "dropWhile is_space (rev s) = rev s"
    using assms(1,3) by (cases s rule: rev_cases) auto
  ultimately show ?thesis by (simp add: strip_def strip_chars_def)
qed

text \<open>What is printed with \<open>nd\<close> decimals reads back as the rounded number.\<close>

lemma py_float_show_fixed:
  assumes "0 \<le> x" and nd: "0 < nd"
  shows "py_float (show_fixed nd x) = Some (Fl (py_round nd x))"
proof -
  define m where "m = nat (half_even (x * 10 ^ nd))"
  let ?a = "dec (m div 10 ^ nd)" and ?b = "dec_pad nd m"
  have s: "show_fixed nd x = ?a @ CHR ''.'' # ?b" by (simp add: show_fixed_def m_def Let_def)
  have da: "\<And>c. c \<in> set ?a \<Longrightarrow> is_digit c" and db: "\<And>c. c \<in> set ?b \<Longrightarrow> is_digit c"
    using dec_digits dec_pad_digits by (auto simp: list_all_iff)
  have b: "?b \<noteq> []" using nd by (cases nd) simp_all
  have ends: "is_digit (hd (?a @ CHR ''.'' # ?b))" "is_digit (last (?a @ CHR ''.'' # ?b))"
    using da [OF hd_in_set [OF dec_nonempty]] db [OF last_in_set [OF b]] b by (simp_all add: hd_append)
  have strip: "strip (?a @ CHR ''.'' # ?b) = ?a @ CHR ''.'' # ?b"
    using ends digit_not_space by (intro strip_ends) auto
  have hd: "\<exists>c r. ?a = c # r \<and> is_digit c" using da by (cases ?a) auto
  then have sg: "sign_of (?a @ CHR ''.'' # ?b) = (1, ?a @ CHR ''.'' # ?b)" by auto
  have nan: "lower (?a @ CHR ''.'' # ?b) \<noteq> ''nan''"
    using hd by (auto simp: lower_def lower_char_def is_digit_def split: if_splits)
  have ip: "takeWhile is_digit (?a @ CHR ''.'' # ?b) = ?a" "dropWhile is_digit (?a @ CHR ''.'' # ?b) = CHR ''.'' # ?b"
    using da by (auto simp: takeWhile_append2 dropWhile_append2)
  have fp: "takeWhile is_digit ?b = ?b" "dropWhile is_digit ?b = []" using db by (auto simp: takeWhile_eq_all_conv)
  have val: "real (m div 10 ^ nd) + real (m mod 10 ^ nd) / 10 ^ nd = real m / 10 ^ nd"
  proof -
    obtain d r where dr: "m div 10 ^ nd = d" "m mod 10 ^ nd = r" by blast
    have "10 ^ nd * d + r = m" using mult_div_mod_eq [of "10 ^ nd" m] unfolding dr .
    then have "real m = 10 ^ nd * real d + real r" by (auto simp flip: \<open>10 ^ nd * d + r = m\<close>)
    then show ?thesis unfolding dr by (simp add: add_divide_distrib)
  qed
  have "0 \<le> half_even (x * 10 ^ nd)" using half_even_mono [of 0 "x * 10 ^ nd"] half_even_of_int [of 0] assms(1) by simp
  then have "real m = of_int (half_even (x * 10 ^ nd))" by (simp add: m_def)
  then show ?thesis
    unfolding s py_float_def strip sg
    using nan by (simp add: ip fp exponent_of_def undec_dec_pad val py_round_def)
qed

end
