(* ===== verification/Analyze.thy ===== *)
theory Analyze
  imports Numpy_Api Py_Text
begin

text \<open>
  The analysis of one run, \<^verbatim>\<open>research/replica_recall/analyze.py\<close>. A row of the sample file is the
  dictionary of strings \<^verbatim>\<open>csv.DictReader\<close> yields; the run's metadata is a record of the fields the
  analysis reads. Reports that the code prints are returned as values.
\<close>

section \<open>Reading rows\<close>

type_synonym csv_row = "(string, string) dict"

text \<open>\<^verbatim>\<open>row.get(key, "")\<close>.\<close>

definition cell :: "csv_row \<Rightarrow> string \<Rightarrow> string" where
  "cell row key = dict_get row key []"

definition f_cell :: "csv_row \<Rightarrow> string \<Rightarrow> flt" where
  "f_cell row key =
     (let v = cell row key
      in if v = [] then NaN else case py_float v of None \<Rightarrow> NaN | Some x \<Rightarrow> x)"

definition reachable :: "csv_row \<Rightarrow> bool" where
  "reachable r \<longleftrightarrow> cell r ''reachable'' = ''1''"

definition nanmean :: "numpy \<Rightarrow> flt list \<Rightarrow> flt" where
  "nanmean np xs = (let ys = drop_nan xs in if ys \<noteq> [] then np_mean np ys else NaN)"

section \<open>Recall by index size\<close>

definition SIZE_BIN :: real where
  "SIZE_BIN = 2500"

type_synonym size_table = "(int, flt \<times> flt \<times> nat) dict"

definition recall_by_size :: "numpy \<Rightarrow> csv_row list \<Rightarrow> size_table" where
  "recall_by_size np rows =
     (let kept = filter (\<lambda>r. reachable r \<and> \<not> (isnan (f_cell r ''n_local'') \<or> isnan (f_cell r ''e2e_recall''))) rows;
          buckets = group_by (\<lambda>r. \<lfloor>fval (f_cell r ''n_local'') / SIZE_BIN\<rfloor>)
                      (\<lambda>r. (f_cell r ''e2e_recall'', f_cell r ''index_recall'')) kept
      in map (\<lambda>(b, vals). (b,
           let es = map fst vals; idx = filter (\<lambda>x. \<not> isnan x) (map snd vals)
           in (np_mean np es, if idx \<noteq> [] then np_mean np idx else NaN, length vals))) buckets)"

text \<open>
  \<^verbatim>\<open>qsize_recall_vs_index_size\<close>: nothing scored, one table, or the comparison of two tables with
  the mean difference over the bins both runs reached.
\<close>

datatype qsize_report =
    QS_None
  | QS_Single "(int \<times> flt \<times> flt \<times> nat) list"
  | QS_Compare "(int \<times> flt \<times> flt \<times> flt) list" "(nat \<times> flt) option"

definition qsize_recall_vs_index_size :: "numpy \<Rightarrow> csv_row list \<Rightarrow> csv_row list option \<Rightarrow> qsize_report" where
  "qsize_recall_vs_index_size np rows compare_rows =
     (let a = recall_by_size np rows
      in if a = [] then QS_None
         else case compare_rows of
           None \<Rightarrow> QS_Single (map (\<lambda>kbin. (kbin, the (map_of a kbin))) (sort (map fst a)))
         | Some crows \<Rightarrow>
             let b = recall_by_size np crows;
                 keys = sorted_list_of_set (set (map fst a) \<union> set (map fst b));
                 lines = map (\<lambda>kbin. (let ea = fst (dict_get a kbin (NaN, NaN, 0));
                                          eb = fst (dict_get b kbin (NaN, NaN, 0));
                                          d = (if \<not> (isnan ea \<or> isnan eb) then fsub ea eb else NaN)
                                      in (kbin, ea, eb, d))) keys;
                 overlap = filter (\<lambda>d. \<not> isnan d) (map (\<lambda>(_, _, _, d). d) lines)
             in QS_Compare lines (if overlap \<noteq> [] then Some (length overlap, np_mean np overlap) else None))"

section \<open>Spread within a shard\<close>

definition instants :: "csv_row list \<Rightarrow> ((string \<times> string), real list) dict" where
  "instants rows =
     group_by (\<lambda>r. (cell r ''t_rel'', cell r ''shard'')) (\<lambda>r. fval (f_cell r ''e2e_recall''))
       (filter (\<lambda>r. reachable r \<and> \<not> isnan (f_cell r ''e2e_recall'')) rows)"

definition intra_shard_spreads :: "csv_row list \<Rightarrow> real list \<times> real list \<times> real list" where
  "intra_shard_spreads rows =
     (let vs = filter (\<lambda>vals. \<not> length vals < 2) (map snd (instants rows))
      in (map (\<lambda>vals. Max (set vals) - Min (set vals)) vs,
          map (\<lambda>vals. Min (set vals)) vs, map (\<lambda>vals. Max (set vals)) vs))"

section \<open>Detection\<close>

record run_meta =
  m_k :: "int option"
  m_queries :: "int option"
  m_quiesce :: bool
  m_chaos_start_rel :: "real option"
  m_chaos_stop_rel :: "real option"

definition empty_meta :: run_meta where
  "empty_meta = \<lparr>m_k = None, m_queries = None, m_quiesce = False, m_chaos_start_rel = None, m_chaos_stop_rel = None\<rparr>"

text \<open>\<^verbatim>\<open>meta.get(key) or default\<close>: an absent or zero value gives the default.\<close>

definition get_or :: "int option \<Rightarrow> int \<Rightarrow> int" where
  "get_or x d = (case x of None \<Rightarrow> d | Some v \<Rightarrow> if v = 0 then d else v)"

definition resolution_eps :: "run_meta \<Rightarrow> real" where
  "resolution_eps meta =
     (let k = get_or (m_k meta) 10; nq = get_or (m_queries meta) 100 in 0.5 / real_of_int (k * nq))"

type_synonym scored_replica = "string \<times> real \<times> real"

definition detection_groups :: "csv_row list \<Rightarrow> scored_replica list list" where
  "detection_groups rows =
     map snd (group_by (\<lambda>r. (cell r ''t_rel'', cell r ''shard''))
       (\<lambda>r. (cell r ''name'', fval (f_cell r ''loo_agreement''), fval (f_cell r ''e2e_recall'')))
       (filter (\<lambda>r. reachable r \<and> \<not> (isnan (f_cell r ''loo_agreement'') \<or> isnan (f_cell r ''e2e_recall''))) rows))"

definition margin_of :: "scored_replica list \<Rightarrow> real" where
  "margin_of g = (let srt = sort (map (\<lambda>x. snd (snd x)) g) in srt ! 1 - srt ! 0)"

definition hit :: "scored_replica list \<Rightarrow> bool" where
  "hit g \<longleftrightarrow> fst (arg_min_list (\<lambda>x. fst (snd x)) g) = fst (arg_min_list (\<lambda>x. snd (snd x)) g)"

definition spearman :: "numpy \<Rightarrow> scored_replica list \<Rightarrow> real option" where
  "spearman np g =
     (let loo_v = map (\<lambda>x. fst (snd x)) g; e2e_v = map (\<lambda>x. snd (snd x)) g;
          rank = (\<lambda>v. map real (np_argsort np (map real (np_argsort np v))))
      in if np_std np 0 loo_v > 1 / 10 ^ 9 \<and> np_std np 0 e2e_v > 1 / 10 ^ 9
         then Some (np_corrcoef np (rank loo_v) (rank e2e_v)) else None)"

record detection =
  det_groups :: nat
  det_tied_excluded :: nat
  det_candidates :: nat
  det_n_replicas :: flt
  det_hit_rate :: flt
  det_chance :: flt
  det_rank_corr :: flt
  det_margin :: flt

definition detection_stats :: "numpy \<Rightarrow> csv_row list \<Rightarrow> real \<Rightarrow> detection option" where
  "detection_stats np rows tie_eps =
     (let candidates = filter (\<lambda>g. 3 \<le> length g) (detection_groups rows);
          scored = filter (\<lambda>g. \<not> margin_of g \<le> tie_eps) candidates;
          tied = length (filter (\<lambda>g. margin_of g \<le> tie_eps) candidates)
      in if length scored < 5
         then if candidates \<noteq> []
              then Some \<lparr>det_groups = length scored, det_tied_excluded = tied, det_candidates = length candidates,
                         det_n_replicas = NaN, det_hit_rate = NaN, det_chance = NaN, det_rank_corr = NaN, det_margin = NaN\<rparr>
              else None
         else let hits = length (filter hit scored);
                  spearmans = List.map_filter (spearman np) scored;
                  n_rep = np_mean np (map (\<lambda>g. Fl (real (length g))) scored)
              in Some \<lparr>det_groups = length scored, det_tied_excluded = tied, det_candidates = length candidates,
                       det_n_replicas = n_rep, det_hit_rate = Fl (real hits / real (length scored)),
                       det_chance = flift2 (/) (Fl 1) n_rep,
                       det_rank_corr = (if spearmans \<noteq> [] then np_mean np (map Fl spearmans) else NaN),
                       det_margin = np_mean np (map (\<lambda>g. Fl (margin_of g)) scored)\<rparr>)"

section \<open>One run in numbers\<close>

record run_summary =
  rs_spread_mean :: flt
  rs_spread_p95 :: flt
  rs_index_recall :: flt
  rs_completeness :: flt
  rs_e2e_recall :: flt
  rs_hit_rate :: flt
  rs_rank_corr :: flt
  rs_margin :: flt
  rs_chance :: flt
  rs_tied_excluded :: nat
  rs_detector_groups :: nat
  rs_unreachable_frac :: flt
  rs_by_size :: size_table

definition summarize_run :: "numpy \<Rightarrow> csv_row list \<Rightarrow> run_meta option \<Rightarrow> run_summary" where
  "summarize_run np rows meta =
     (let spreads = fst (intra_shard_spreads rows);
          det = detection_stats np rows (resolution_eps (case meta of None \<Rightarrow> empty_meta | Some m \<Rightarrow> m));
          get = (\<lambda>f. case det of None \<Rightarrow> NaN | Some d \<Rightarrow> f d);
          col = (\<lambda>key. filter (\<lambda>x. \<not> isnan x) (map (\<lambda>r. f_cell r key) (filter reachable rows)));
          total = length rows;
          unreach = length (filter (\<lambda>r. \<not> reachable r) rows)
      in \<lparr>rs_spread_mean = (if spreads \<noteq> [] then np_mean np (map Fl spreads) else NaN),
          rs_spread_p95 = (if spreads \<noteq> [] then Fl (np_percentile np spreads 95) else NaN),
          rs_index_recall = nanmean np (col ''index_recall''),
          rs_completeness = nanmean np (col ''completeness''),
          rs_e2e_recall = nanmean np (col ''e2e_recall''),
          rs_hit_rate = get det_hit_rate, rs_rank_corr = get det_rank_corr,
          rs_margin = get det_margin, rs_chance = get det_chance,
          rs_tied_excluded = (case det of None \<Rightarrow> 0 | Some d \<Rightarrow> det_tied_excluded d),
          rs_detector_groups = (case det of None \<Rightarrow> 0 | Some d \<Rightarrow> det_groups d),
          rs_unreachable_frac = (if total \<noteq> 0 then Fl (real unreach / real total) else NaN),
          rs_by_size = recall_by_size np rows\<rparr>)"

section \<open>Reports\<close>

text \<open>Q1: instants compared; mean, p95 and maximum spread; mean of the worst and of the best replica.\<close>

definition q1_intra_shard_spread :: "numpy \<Rightarrow> csv_row list \<Rightarrow> (nat \<times> flt \<times> real \<times> real \<times> flt \<times> flt) option" where
  "q1_intra_shard_spread np rows =
     (let (spreads, mins, maxes) = intra_shard_spreads rows
      in if spreads = [] then None
         else Some (length spreads, np_mean np (map Fl spreads), np_percentile np spreads 95, Max (set spreads),
                    nanmean np (map Fl mins), nanmean np (map Fl maxes)))"

text \<open>Q2: the windows after the latest kill of the replica, in the order of the code.\<close>

definition failover_buckets :: "(real \<times> real \<times> string) list" where
  "failover_buckets =
     [(- (10 ^ 9), 0, ''before any kill''), (0, 5, ''0-5s after kill''), (5, 15, ''5-15s after''),
      (15, 30, ''15-30s after''), (30, 10 ^ 9, ''>30s after'')]"

text \<open>A kill event: target name and time.\<close>

type_synonym kill_event = "string \<times> real"

definition since_kill :: "kill_event list \<Rightarrow> csv_row \<Rightarrow> flt" where
  "since_kill events r =
     (let t = f_cell r ''t_rel'';
          ks = dict_get (group_by fst snd events) (cell r ''name'') [];
          prior = filter (\<lambda>k. flt_le (Fl k) t) ks
      in if prior \<noteq> [] then fsub t (Fl (Max (set prior))) else Fl (- (10 ^ 9)))"

definition bucket_of :: "flt \<Rightarrow> string option" where
  "bucket_of dt =
     map_option (\<lambda>(_, _, label). label)
       (find (\<lambda>(lo, hi, label). flt_le (Fl lo) dt \<and> flt_lt dt (Fl hi)) failover_buckets)"

definition q2_recall_around_failover ::
  "numpy \<Rightarrow> csv_row list \<Rightarrow> kill_event list \<Rightarrow> (string \<times> nat \<times> flt \<times> flt \<times> flt) list option" where
  "q2_recall_around_failover np rows events =
     (if events = [] then None
      else let members = (\<lambda>label. filter (\<lambda>r. reachable r \<and> bucket_of (since_kill events r) = Some label) rows);
               col = (\<lambda>label key. map (\<lambda>r. f_cell r key) (members label))
           in Some (List.map_filter (\<lambda>(_, _, label).
                let n = length (drop_nan (col label ''e2e_recall''))
                in if n = 0 then None
                   else Some (label, n, nanmean np (col label ''e2e_recall''), nanmean np (col label ''index_recall''),
                              nanmean np (col label ''completeness''))) failover_buckets))"

text \<open>Q3: the verdict on one sample, from its index recall and its completeness.\<close>

definition q3_verdict :: "flt \<Rightarrow> flt \<Rightarrow> string" where
  "q3_verdict i c =
     (if \<not> isnan i \<and> flt_lt i (fsub c (Fl 0.05)) then ''graph degraded''
      else if \<not> isnan c \<and> flt_lt c (fsub i (Fl 0.05)) then ''data missing''
      else ''both / neither'')"

text \<open>\<^verbatim>\<open>sorted(..., key=lambda x: (isnan(x[0]), x[0]))\<close>: numbers ascending, then the NaNs in order.\<close>

definition nan_last :: "(flt \<times> 'a) list \<Rightarrow> (flt \<times> 'a) list" where
  "nan_last xs = sort_key (\<lambda>x. fval (fst x)) (filter (\<lambda>x. \<not> isnan (fst x)) xs) @ filter (\<lambda>x. isnan (fst x)) xs"

definition q3_graph_vs_data ::
  "numpy \<Rightarrow> csv_row list \<Rightarrow> (nat \<times> flt \<times> flt \<times> flt \<times> (flt \<times> flt \<times> flt \<times> string) list) option" where
  "q3_graph_vs_data np rows =
     (let kept = filter (\<lambda>r. reachable r \<and> \<not> (isnan (f_cell r ''index_recall'') \<or> isnan (f_cell r ''completeness''))) rows;
          idx = map (\<lambda>r. f_cell r ''index_recall'') kept;
          comp = map (\<lambda>r. f_cell r ''completeness'') kept;
          e2e = map (\<lambda>r. f_cell r ''e2e_recall'') kept
      in if idx = [] then None
         else Some (length idx, nanmean np idx, nanmean np comp, nanmean np e2e,
                map (\<lambda>(e, i, c). (e, i, c, q3_verdict i c)) (take 5 (nan_last (zip e2e (zip idx comp))))))"

section \<open>Healing\<close>

datatype phase = Pre | During | Post0_30 | Post30_60 | Post60p

record phase_stats =
  ph_completeness :: flt
  ph_e2e_recall :: flt
  ph_missing :: flt
  ph_n :: nat

definition phase_of :: "real \<Rightarrow> real \<Rightarrow> real \<Rightarrow> phase" where
  "phase_of t0 t1 t =
     (if t < t0 then Pre else if t < t1 then During
      else let dt = t - t1 in if dt < 30 then Post0_30 else if dt < 60 then Post30_60 else Post60p)"

text \<open>The absolute number of intended ids a replica is missing.\<close>

definition missing_of :: "csv_row \<Rightarrow> flt" where
  "missing_of r =
     (let c = f_cell r ''completeness''; ni = f_cell r ''n_intended''
      in if \<not> isnan ni then fmul (fsub (Fl 1) c) ni else NaN)"

definition heal_rows :: "csv_row list \<Rightarrow> csv_row list" where
  "heal_rows rows =
     filter (\<lambda>r. reachable r \<and> \<not> (isnan (f_cell r ''t_rel'') \<or> isnan (f_cell r ''completeness''))) rows"

definition phase_summary :: "numpy \<Rightarrow> csv_row list \<Rightarrow> real \<Rightarrow> real \<Rightarrow> phase \<Rightarrow> phase_stats" where
  "phase_summary np rows t0 t1 ph =
     (let vals = filter (\<lambda>r. phase_of t0 t1 (fval (f_cell r ''t_rel'')) = ph) (heal_rows rows)
      in \<lparr>ph_completeness = nanmean np (map (\<lambda>r. f_cell r ''completeness'') vals),
          ph_e2e_recall = nanmean np (map (\<lambda>r. f_cell r ''e2e_recall'') vals),
          ph_missing = nanmean np (map missing_of vals), ph_n = length vals\<rparr>)"

record heal_report =
  h_phases :: "phase \<Rightarrow> phase_stats"
  h_healed :: "bool option"
  h_recovered_frac :: flt
  h_residual_missing :: flt

definition heal_stats :: "numpy \<Rightarrow> csv_row list \<Rightarrow> run_meta option \<Rightarrow> heal_report option" where
  "heal_stats np rows meta =
     (case meta of
        None \<Rightarrow> None
      | Some m \<Rightarrow>
          if \<not> m_quiesce m then None
          else case (m_chaos_start_rel m, m_chaos_stop_rel m) of
            (Some t0, Some t1) \<Rightarrow>
              let out = phase_summary np rows t0 t1;
                  pre_m = ph_missing (out Pre);
                  last = find (\<lambda>p. 0 < ph_n p) [out Post60p, out Post30_60, out Post0_30];
                  at_stop = (if 0 < ph_n (out Post0_30) then Some (out Post0_30) else last)
              in (case (last, at_stop) of
                    (Some l, Some a) \<Rightarrow>
                      if isnan pre_m
                      then Some \<lparr>h_phases = out, h_healed = None, h_recovered_frac = NaN, h_residual_missing = NaN\<rparr>
                      else let damage = fsub (ph_missing a) pre_m;
                               residual = fsub (ph_missing l) pre_m;
                               rec = (if flt_lt (Fl (1 / 10 ^ 9)) damage
                                      then fsub (Fl 1) (flift2 (/) residual damage) else NaN)
                           in Some \<lparr>h_phases = out,
                                    h_healed = (if flt_le damage (Fl (1 / 10 ^ 9)) then None else Some (flt_le (Fl 0.9) rec)),
                                    h_recovered_frac = rec, h_residual_missing = residual\<rparr>
                  | _ \<Rightarrow> Some \<lparr>h_phases = out, h_healed = None, h_recovered_frac = NaN, h_residual_missing = NaN\<rparr>)
          | _ \<Rightarrow> None)"

datatype heal_verdict = Cannot_judge | Heals | Does_not_heal

definition qheal_recovery :: "numpy \<Rightarrow> csv_row list \<Rightarrow> run_meta option \<Rightarrow> heal_verdict option" where
  "qheal_recovery np rows meta =
     map_option (\<lambda>h. case h_healed h of None \<Rightarrow> Cannot_judge | Some True \<Rightarrow> Heals | Some False \<Rightarrow> Does_not_heal)
       (heal_stats np rows meta)"

section \<open>Drift and the detection verdict\<close>

record drift_report =
  dr_first :: flt
  dr_last :: flt
  dr_first_n :: flt
  dr_last_n :: flt
  dr_slope :: flt
  dr_stable :: bool

definition q0_drift :: "numpy \<Rightarrow> csv_row list \<Rightarrow> drift_report option" where
  "q0_drift np rows =
     (let kept = filter (\<lambda>r. reachable r \<and> \<not> (isnan (f_cell r ''t_rel'') \<or> isnan (f_cell r ''e2e_recall''))) rows;
          pts0 = map (\<lambda>r. (fval (f_cell r ''t_rel''), fval (f_cell r ''e2e_recall''), f_cell r ''n_local'')) kept
      in if length pts0 < 6 then None
         else let pts = sort_key fst pts0;
                  third = max 1 (length pts div 3);
                  first = take third pts; last = drop (length pts - third) pts;
                  t = map fst pts; v = map (\<lambda>p. fst (snd p)) pts;
                  mean_of = (\<lambda>ps. np_mean np (map (\<lambda>p. Fl (fst (snd p))) ps));
                  size_of = (\<lambda>ps. let ns = drop_nan (map (\<lambda>p. snd (snd p)) ps) in np_mean np (if ns \<noteq> [] then ns else [NaN]))
              in Some \<lparr>dr_first = mean_of first, dr_last = mean_of last, dr_first_n = size_of first, dr_last_n = size_of last,
                       dr_slope = (if np_std np 0 t > 1 / 10 ^ 9 then Fl (np_slope np t v) else NaN),
                       dr_stable = (case fsub (mean_of last) (mean_of first) of NaN \<Rightarrow> False | Fl d \<Rightarrow> \<bar>d\<bar> < 0.02)\<rparr>)"

datatype detect_verdict = No_groups | Too_few nat nat nat | Detects | Partial_signal | Does_not_detect

definition q4_can_we_spot_the_bad_replica :: "numpy \<Rightarrow> csv_row list \<Rightarrow> run_meta option \<Rightarrow> detect_verdict" where
  "q4_can_we_spot_the_bad_replica np rows meta =
     (case detection_stats np rows (resolution_eps (case meta of None \<Rightarrow> empty_meta | Some m \<Rightarrow> m)) of
        None \<Rightarrow> No_groups
      | Some det \<Rightarrow>
          if isnan (det_hit_rate det) then Too_few (det_candidates det) (det_tied_excluded det) (det_groups det)
          else let rate = det_hit_rate det; chance = det_chance det
               in if flt_le (fmul chance (Fl 1.8)) rate \<and> flt_le (Fl 0.55) rate then Detects
                  else if flt_le (fmul chance (Fl 1.3)) rate then Partial_signal
                  else Does_not_detect)"

section \<open>The detector is scored fairly\<close>

definition scored_groups :: "csv_row list \<Rightarrow> real \<Rightarrow> scored_replica list list" where
  "scored_groups rows tie_eps =
     filter (\<lambda>g. 3 \<le> length g \<and> tie_eps < margin_of g) (detection_groups rows)"

abbreviation e2e_of :: "scored_replica \<Rightarrow> real" where
  "e2e_of x \<equiv> snd (snd x)"

abbreviation loo_of :: "scored_replica \<Rightarrow> real" where
  "loo_of x \<equiv> fst (snd x)"

abbreviation worst :: "scored_replica list \<Rightarrow> scored_replica" where
  "worst g \<equiv> arg_min_list e2e_of g"

lemma worst_unique:
  assumes "2 \<le> length g" and "e < margin_of g" and "0 \<le> e"
  shows "worst g \<in> set g" and "\<And>x. x \<in> set g \<Longrightarrow> x \<noteq> worst g \<Longrightarrow> e2e_of (worst g) + e < e2e_of x"
proof -
  have ne: "g \<noteq> []" using assms(1) by auto
  show mem: "worst g \<in> set g" using ne by (rule arg_min_list_in)
  have le: "e2e_of (worst g) \<le> e2e_of x" if "x \<in> set g" for x
    using that f_arg_min_list_f [OF ne, of e2e_of] by (simp add: Min_le)
  let ?v = "e2e_of (worst g)" and ?rest = "remove1 (worst g) g"
  have "mset g = mset (worst g # ?rest)" using mem by simp
  then have perm: "mset (map e2e_of g) = mset (?v # map e2e_of ?rest)" 
    by (simp only: mset_map mset.simps image_mset_add_mset)
  have "sort (map e2e_of g) = ?v # sort (map e2e_of ?rest)"
  proof (rule properties_for_sort)
    show "mset (?v # sort (map e2e_of ?rest)) = mset (map e2e_of g)" using perm by simp
    show "sorted (?v # sort (map e2e_of ?rest))" using le set_remove1_subset [of "worst g" g] by auto
  qed
  then have margin: "margin_of g = sort (map e2e_of ?rest) ! 0 - ?v"
    by (simp add: margin_of_def Let_def)
  fix x assume x: "x \<in> set g" "x \<noteq> worst g"
  have "x \<in> set ?rest" using x by simp
  then have "e2e_of x \<in> set (sort (map e2e_of ?rest))" by simp
  then have "sort (map e2e_of ?rest) ! 0 \<le> e2e_of x"
    by (metis in_set_conv_nth le0 sorted_nth_mono sorted_sort)
  with margin assms(2) show "?v + e < e2e_of x" by simp
qed

lemma detection_stats_counts:
  assumes "detection_stats np rows e = Some d" and "\<not> isnan (det_hit_rate d)"
  shows "det_groups d = length (scored_groups rows e)" and "5 \<le> det_groups d"
    and "det_groups d + det_tied_excluded d = det_candidates d"
    and "det_hit_rate d = Fl (real (length (filter hit (scored_groups rows e))) / real (length (scored_groups rows e)))"
    and "det_chance d = flift2 (/) (Fl 1) (np_mean np (map (\<lambda>g. Fl (real (length g))) (scored_groups rows e)))"
proof -
  let ?c = "filter (\<lambda>g. 3 \<le> length g) (detection_groups rows)"
  have sc: "filter (\<lambda>g. \<not> margin_of g \<le> e) ?c = scored_groups rows e"
    by (simp add: scored_groups_def not_le conj_commute)
  have "length (filter (\<lambda>g. \<not> margin_of g \<le> e) ?c) + length (filter (\<lambda>g. margin_of g \<le> e) ?c) = length ?c"
    using sum_length_filter_compl [of "\<lambda>g. margin_of g \<le> e" ?c] by simp
  with assms show "det_groups d = length (scored_groups rows e)" and "5 \<le> det_groups d"
    and "det_groups d + det_tied_excluded d = det_candidates d"
    and "det_hit_rate d = Fl (real (length (filter hit (scored_groups rows e))) / real (length (scored_groups rows e)))"
    and "det_chance d = flift2 (/) (Fl 1) (np_mean np (map (\<lambda>g. Fl (real (length g))) (scored_groups rows e)))"
    unfolding detection_stats_def Let_def sc by (simp_all split: if_splits) auto
qed

lemma detection_stats_scored:
  assumes "5 \<le> length (scored_groups rows e)"
  shows "\<exists>d. detection_stats np rows e = Some d \<and> \<not> isnan (det_hit_rate d)"
proof -
  have sc: "filter (\<lambda>g. \<not> margin_of g \<le> e) (filter (\<lambda>g. 3 \<le> length g) (detection_groups rows)) = scored_groups rows e"
    by (simp add: scored_groups_def not_le conj_commute)
  show ?thesis using assms unfolding detection_stats_def Let_def sc by simp
qed

text \<open>Five instants of one shard with three replicas, of which \<open>r1\<close> is degraded and agrees least.\<close>

definition demo_sample :: "string \<Rightarrow> string \<Rightarrow> string \<Rightarrow> string \<Rightarrow> csv_row" where
  "demo_sample t name loo e2e =
     [(''t_rel'', t), (''shard'', ''0''), (''name'', name), (''reachable'', ''1''),
      (''loo_agreement'', loo), (''e2e_recall'', e2e)]"

definition demo_detection_rows :: "csv_row list" where
  "demo_detection_rows = concat (map (\<lambda>t.
     [demo_sample t ''r0'' ''0.9'' ''0.95'', demo_sample t ''r1'' ''0.5'' ''0.4'', demo_sample t ''r2'' ''0.9'' ''0.97''])
     [''1'', ''2'', ''3'', ''4'', ''5''])"

lemma demo_cells:
  "reachable (demo_sample t name loo e2e)" "cell (demo_sample t name loo e2e) ''t_rel'' = t"
  "cell (demo_sample t name loo e2e) ''shard'' = ''0''" "cell (demo_sample t name loo e2e) ''name'' = name"
  "cell (demo_sample t name loo e2e) ''loo_agreement'' = loo" "cell (demo_sample t name loo e2e) ''e2e_recall'' = e2e"
  by (simp_all add: reachable_def cell_def dict_get_def demo_sample_def)

lemma demo_floats:
  "py_float ''0.9'' = Some (Fl (9 / 10))" "py_float ''0.5'' = Some (Fl (1 / 2))" "py_float ''0.95'' = Some (Fl (19 / 20))"
  "py_float ''0.4'' = Some (Fl (2 / 5))" "py_float ''0.97'' = Some (Fl (97 / 100))"
  by code_simp+

lemma demo_groups: "scored_groups demo_detection_rows (1 / 2000) =
    replicate 5 [(''r0'', 9 / 10, 19 / 20), (''r1'', 1 / 2, 2 / 5), (''r2'', 9 / 10, 97 / 100)]"
proof -
  have "detection_groups demo_detection_rows =
      replicate 5 [(''r0'', 9 / 10, 19 / 20), (''r1'', 1 / 2, 2 / 5), (''r2'', 9 / 10, 97 / 100)]"
    by (simp add: detection_groups_def demo_detection_rows_def f_cell_def demo_cells demo_floats
        group_by_def dict_append_def dict_get_def numeral_eq_Suc)
  moreover have "margin_of [(''r0'', 9 / 10, 19 / 20), (''r1'', 1 / 2, 2 / 5), (''r2'', 9 / 10, 97 / 100)] = 11 / 20"
    by (simp add: margin_of_def)
  ultimately show ?thesis by (simp add: scored_groups_def)
qed

lemma demo_eps: "resolution_eps empty_meta = 1 / 2000"
  by code_simp

text \<open>
  C13. The detector is not scored on ties: when detection statistics have a hit rate, every
  candidate group is either scored or excluded as a tie, at least five are scored, each scored
  group has a unique worst replica that is more than the tie threshold below every other, and
  the hit rate is the share of scored groups in which agreement and recall name the same one.
\<close>

theorem detection_scored_fairly:
  assumes "detection_stats np rows tie_eps = Some d" and "\<not> isnan (det_hit_rate d)" and "0 \<le> tie_eps"
  shows "det_groups d + det_tied_excluded d = det_candidates d \<and> 5 \<le> det_groups d \<and>
    det_groups d = length (scored_groups rows tie_eps) \<and>
    (\<forall>g \<in> set (scored_groups rows tie_eps). worst g \<in> set g \<and>
       (\<forall>x \<in> set g. x \<noteq> worst g \<longrightarrow> e2e_of (worst g) + tie_eps < e2e_of x)) \<and>
    (\<exists>r. det_hit_rate d = Fl r \<and> 0 \<le> r \<and> r \<le> 1 \<and>
       r * real (det_groups d) = real (length (filter hit (scored_groups rows tie_eps))))"
proof -
  note counts = detection_stats_counts [OF assms(1,2)]
  have "worst g \<in> set g \<and> (\<forall>x \<in> set g. x \<noteq> worst g \<longrightarrow> e2e_of (worst g) + tie_eps < e2e_of x)"
    if "g \<in> set (scored_groups rows tie_eps)" for g
    using worst_unique [of g tie_eps] that assms(3) by (auto simp: scored_groups_def)
  moreover have "length (filter hit (scored_groups rows tie_eps)) \<le> length (scored_groups rows tie_eps)"
    by (rule length_filter_le)
  ultimately show ?thesis
    using counts by (auto simp: divide_le_eq)
qed

theorem detection_scored_fairly_witness:
  "\<exists>d. detection_stats numpy_ref demo_detection_rows (1 / 2000) = Some d \<and> det_groups d = 5 \<and>
     det_groups d + det_tied_excluded d = det_candidates d"
proof -
  obtain d where d: "detection_stats numpy_ref demo_detection_rows (1 / 2000) = Some d" "\<not> isnan (det_hit_rate d)"
    using detection_stats_scored [of demo_detection_rows "1 / 2000" numpy_ref] by (auto simp: demo_groups)
  show ?thesis using d detection_scored_fairly [OF d] by (auto simp: demo_groups)
qed

text \<open>
  A perfect signal scores perfectly: if in every scored group the truly worst replica has
  strictly the lowest agreement, the hit rate is 1 and the verdict of Q4 is that agreement
  detects the degraded replica.
\<close>

theorem perfect_signal_detects:
  assumes np: "numpy_api np" and det: "detection_stats np rows (resolution_eps m) = Some d" and num: "\<not> isnan (det_hit_rate d)"
    and sig: "\<forall>g \<in> set (scored_groups rows (resolution_eps m)). \<forall>x \<in> set g. x \<noteq> worst g \<longrightarrow> loo_of (worst g) < loo_of x"
    and eps: "0 \<le> resolution_eps m"
  shows "det_hit_rate d = Fl 1 \<and> q4_can_we_spot_the_bad_replica np rows (Some m) = Detects"
proof -
  let ?S = "scored_groups rows (resolution_eps m)"
  note counts = detection_stats_counts [OF det num]
  have "hit g" if g: "g \<in> set ?S" for g
  proof -
    have ne: "g \<noteq> []" and w: "worst g \<in> set g"
      using g worst_unique [of g "resolution_eps m"] eps by (auto simp: scored_groups_def)
    have mem: "arg_min_list loo_of g \<in> set g" using ne by (rule arg_min_list_in)
    have "loo_of (arg_min_list loo_of g) \<le> loo_of (worst g)"
      using f_arg_min_list_f [OF ne, of loo_of] w by (simp add: Min_le)
    then have "arg_min_list loo_of g = worst g" using sig g mem by (meson not_le)
    then show ?thesis by (simp add: hit_def)
  qed
  then have all: "filter hit ?S = ?S" by (simp add: filter_id_conv)
  have pos: "?S \<noteq> []" using counts(1,2) by auto
  then have hr: "det_hit_rate d = Fl 1" using counts(4) unfolding all by simp
  let ?n = "mean (map (\<lambda>g. real (length g)) ?S)"
  have "3 \<le> ?n"
    using pos by (intro mean_bounds(1) [of _ 3 "Max (set (map (\<lambda>g. real (length g)) ?S))"])
      (auto simp: scored_groups_def)
  moreover have ch: "det_chance d = Fl (1 / ?n)"
    using counts(5) pos fmean_map_Fl [of "map (\<lambda>g. real (length g)) ?S"]
    by (simp add: numpy_api.mean [OF np] comp_def)
  ultimately have "1 / ?n * 1.8 \<le> 1" by (simp add: divide_le_eq)
  with hr ch det show ?thesis
    by (simp add: q4_can_we_spot_the_bad_replica_def)
qed

theorem perfect_signal_detects_witness:
  "q4_can_we_spot_the_bad_replica numpy_ref demo_detection_rows (Some empty_meta) = Detects"
proof -
  obtain d where d: "detection_stats numpy_ref demo_detection_rows (resolution_eps empty_meta) = Some d" "\<not> isnan (det_hit_rate d)"
    using detection_stats_scored [of demo_detection_rows "1 / 2000" numpy_ref] by (auto simp: demo_groups demo_eps)
  show ?thesis using perfect_signal_detects [OF npr.numpy_api_axioms d] by (auto simp: demo_groups demo_eps)
qed

end
