(* ===== verification/Sweep.thy ===== *)
theory Sweep
  imports Analyze
begin

text \<open>
  The seed sweep, \<^verbatim>\<open>research/replica_recall/sweep.py\<close>: one experiment per seed and condition, each
  started from an empty result directory and moved to its own directory when it succeeded. The
  file system is the part the script touches; the experiment is a subprocess, so what it exits
  with and leaves in the result directory is an input.
\<close>

section \<open>Files\<close>

text \<open>A run directory: \<^verbatim>\<open>samples.csv\<close> (absent or its rows) and what \<^verbatim>\<open>run_meta.json\<close> says.\<close>

record run_files =
  rf_samples :: "csv_row list option"
  rf_events :: "kill_event list"
  rf_meta :: run_meta
  rf_dist :: "string option"

type_synonym sweep_dir = "(string, run_files) dict"

record sweep_fs =
  fs_runs :: sweep_dir
  fs_results :: "run_files option"

definition run_name :: "int \<Rightarrow> string \<Rightarrow> string" where
  "run_name seed cond = ''seed'' @ str_int seed @ ''_'' @ cond"

definition has_samples :: "sweep_dir \<Rightarrow> string \<Rightarrow> bool" where
  "has_samples d name \<longleftrightarrow> (case map_of d name of None \<Rightarrow> False | Some f \<Rightarrow> rf_samples f \<noteq> None)"

section \<open>One run\<close>

record sweep_args =
  sa_seeds :: int
  sa_seed_base :: int
  sa_duration :: int
  sa_writers :: int
  sa_only :: "string option"
  sa_with_quiesce :: bool
  sa_chaos_duration :: int
  sa_force :: bool
  sa_extra :: "string list"

definition run_cmd :: "sweep_args \<Rightarrow> int \<Rightarrow> string \<Rightarrow> string list" where
  "run_cmd a seed cond =
     [''--duration'', str_int (sa_duration a), ''--writers'', str_int (sa_writers a), ''--seed'', str_int seed]
     @ (if cond = ''baseline'' then [''--no-chaos'']
        else if cond = ''quiesce'' then [''--chaos-duration'', str_int (sa_chaos_duration a)] else [])
     @ sa_extra a"

datatype outcome = Skip | Failed_exit int | Failed_no_samples | Ok_run nat

definition ok_outcome :: "outcome \<Rightarrow> bool" where
  "ok_outcome o' \<longleftrightarrow> (case o' of Skip \<Rightarrow> True | Ok_run _ \<Rightarrow> True | _ \<Rightarrow> False)"

text \<open>
  \<^verbatim>\<open>run_one\<close>. The subprocess \<open>proc\<close> gets the command and the result directory it starts from, and
  yields its exit status and the result directory it leaves.
\<close>

type_synonym process = "string list \<Rightarrow> run_files option \<Rightarrow> int \<times> run_files option"

definition run_one :: "process \<Rightarrow> sweep_args \<Rightarrow> int \<Rightarrow> string \<Rightarrow> sweep_fs \<Rightarrow> outcome \<times> sweep_fs" where
  "run_one proc a seed cond fs =
     (let dest = run_name seed cond
      in if has_samples (fs_runs fs) dest \<and> \<not> sa_force a then (Skip, fs)
         else let fs1 = fs\<lparr>fs_results := None\<rparr>;
                  (code, out) = proc (run_cmd a seed cond) (fs_results fs1);
                  fs2 = fs1\<lparr>fs_results := out\<rparr>
              in if code \<noteq> 0 then (Failed_exit code, fs2)
                 else case out of
                   None \<Rightarrow> (Failed_no_samples, fs2)
                 | Some f \<Rightarrow>
                     (case rf_samples f of
                        None \<Rightarrow> (Failed_no_samples, fs2)
                      | Some rows \<Rightarrow>
                          (Ok_run (length rows), fs2\<lparr>fs_runs := dict_set dest f (fs_runs fs2), fs_results := None\<rparr>)))"

section \<open>The sweep\<close>

definition sweep_seeds :: "sweep_args \<Rightarrow> int list" where
  "sweep_seeds a = map (\<lambda>i. sa_seed_base a + int i) [0..<nat (sa_seeds a)]"

definition sweep_conditions :: "sweep_args \<Rightarrow> string list" where
  "sweep_conditions a =
     (case sa_only a of
        Some c \<Rightarrow> [c]
      | None \<Rightarrow> [''baseline'', ''chaos''] @ (if sa_with_quiesce a then [''quiesce''] else []))"

definition sweep_plan :: "sweep_args \<Rightarrow> (int \<times> string) list" where
  "sweep_plan a = [(seed, cond). seed \<leftarrow> sweep_seeds a, cond \<leftarrow> sweep_conditions a]"

text \<open>The runs in order; \<open>procs\<close> is the process each of them starts.\<close>

fun sweep_runs :: "(int \<Rightarrow> string \<Rightarrow> process) \<Rightarrow> sweep_args \<Rightarrow> (int \<times> string) list \<Rightarrow> sweep_fs \<Rightarrow> outcome list \<times> sweep_fs" where
  "sweep_runs procs a [] fs = ([], fs)"
| "sweep_runs procs a ((seed, cond) # plan) fs =
     (let (o1, fs1) = run_one (procs seed cond) a seed cond fs; (os, fs2) = sweep_runs procs a plan fs1
      in (o1 # os, fs2))"

definition sweep_main :: "(int \<Rightarrow> string \<Rightarrow> process) \<Rightarrow> sweep_args \<Rightarrow> sweep_fs \<Rightarrow> int \<times> outcome list \<times> sweep_fs" where
  "sweep_main procs a fs =
     (let (os, fs') = sweep_runs procs a (sweep_plan a) fs;
          failures = length (filter (\<lambda>x. \<not> ok_outcome x) os)
      in (if failures \<noteq> 0 then 1 else 0, os, fs'))"

section \<open>What a sweep leaves behind\<close>

lemma str_int_inj [simp]: "str_int i = str_int j \<longleftrightarrow> i = j"
proof -
  have "CHR ''-'' \<notin> set (dec n)" for n
    using dec_digits [of n] by (auto simp: list_all_iff)
  then have "CHR ''-'' # dec m \<noteq> dec n" for m n by (metis list.set_intros(1))
  then show ?thesis by (auto simp: str_int_def dest: sym)
qed

lemma underscore_not_in_str_int: "CHR ''_'' \<notin> set (str_int i)"
proof -
  have "CHR ''_'' \<notin> set (dec n)" for n
    using dec_digits [of n] by (auto simp: list_all_iff is_digit_def)
  then show ?thesis by (simp add: str_int_def)
qed

lemma run_name_inj [simp]: "run_name s c = run_name s' c' \<longleftrightarrow> s = s' \<and> c = c'"
proof
  assume "run_name s c = run_name s' c'"
  then have eq: "str_int s @ CHR ''_'' # c = str_int s' @ CHR ''_'' # c'" by (simp add: run_name_def)
  then have "takeWhile (\<lambda>x. x \<noteq> CHR ''_'') (str_int s @ CHR ''_'' # c) =
      takeWhile (\<lambda>x. x \<noteq> CHR ''_'') (str_int s' @ CHR ''_'' # c')" by simp
  then have "str_int s = str_int s'"
    using underscore_not_in_str_int by (subst (asm) (1 2) takeWhile_append2) auto
  with eq show "s = s' \<and> c = c'" by simp
qed simp

text \<open>The directory a run would leave when started afresh: nothing unless it succeeds with samples.\<close>

definition good_result :: "process \<Rightarrow> string list \<Rightarrow> run_files option" where
  "good_result proc cmd =
     (case proc cmd None of
        (code, Some f) \<Rightarrow> if code = 0 \<and> rf_samples f \<noteq> None then Some f else None
      | _ \<Rightarrow> None)"

lemma run_one_runs:
  "fs_runs (snd (run_one proc a seed cond fs)) =
     (if has_samples (fs_runs fs) (run_name seed cond) \<and> \<not> sa_force a then fs_runs fs
      else case good_result proc (run_cmd a seed cond) of
        None \<Rightarrow> fs_runs fs | Some f \<Rightarrow> dict_set (run_name seed cond) f (fs_runs fs))"
  by (auto simp: run_one_def good_result_def Let_def split: prod.splits option.splits)

lemma run_one_ok:
  "ok_outcome (fst (run_one proc a seed cond fs)) \<longleftrightarrow>
     has_samples (fs_runs fs) (run_name seed cond) \<and> \<not> sa_force a \<or> good_result proc (run_cmd a seed cond) \<noteq> None"
  by (auto simp: run_one_def good_result_def ok_outcome_def Let_def split: prod.splits option.splits)

lemma run_one_lookup:
  "map_of (fs_runs (snd (run_one proc a seed cond fs))) name =
     (if name = run_name seed cond \<and> \<not> (has_samples (fs_runs fs) name \<and> \<not> sa_force a)
      then case good_result proc (run_cmd a seed cond) of None \<Rightarrow> map_of (fs_runs fs) name | Some f \<Rightarrow> Some f
      else map_of (fs_runs fs) name)"
  by (auto simp: run_one_runs split: option.splits)

lemma snd_sweep_runs [simp]:
  "snd (sweep_runs procs a [] fs) = fs"
  "snd (sweep_runs procs a ((seed, cond) # plan) fs) = snd (sweep_runs procs a plan (snd (run_one (procs seed cond) a seed cond fs)))"
  by (simp_all add: Let_def split: prod.splits)

declare sweep_runs.simps [simp del]

lemma sweep_runs_other:
  "\<forall>(s, c) \<in> set plan. name \<noteq> run_name s c \<Longrightarrow>
     map_of (fs_runs (snd (sweep_runs procs a plan fs))) name = map_of (fs_runs fs) name"
  by (induction plan arbitrary: fs) (auto simp: run_one_lookup)

lemma sweep_runs_lookup:
  assumes "distinct plan" and "(seed, cond) \<in> set plan"
  shows "map_of (fs_runs (snd (sweep_runs procs a plan fs))) (run_name seed cond) =
    (if has_samples (fs_runs fs) (run_name seed cond) \<and> \<not> sa_force a then map_of (fs_runs fs) (run_name seed cond)
     else case good_result (procs seed cond) (run_cmd a seed cond) of
       None \<Rightarrow> map_of (fs_runs fs) (run_name seed cond) | Some f \<Rightarrow> Some f)"
  using assms
proof (induction plan arbitrary: fs)
  case (Cons sc plan)
  obtain s c where sc: "sc = (s, c)" by (cases sc)
  let ?fs1 = "snd (run_one (procs s c) a s c fs)"
  show ?case
  proof (cases "(seed, cond) = (s, c)")
    case True
    then have "\<forall>(s', c') \<in> set plan. run_name seed cond \<noteq> run_name s' c'" using Cons.prems(1) sc by auto
    then show ?thesis
      using True sc by (simp add: sweep_runs_other run_one_lookup split: option.splits)
  next
    case False
    then have "map_of (fs_runs ?fs1) (run_name seed cond) = map_of (fs_runs fs) (run_name seed cond)"
      by (auto simp: run_one_lookup)
    moreover from this have "has_samples (fs_runs ?fs1) (run_name seed cond) = has_samples (fs_runs fs) (run_name seed cond)"
      by (simp add: has_samples_def)
    ultimately show ?thesis using Cons.IH [of ?fs1] Cons.prems False sc by (auto split: option.splits)
  qed
qed simp

lemma distinct_sweep_plan: "distinct (sweep_plan a)"
proof -
  have s: "distinct (sweep_seeds a)" by (auto simp: sweep_seeds_def distinct_map inj_on_def)
  have c: "distinct (sweep_conditions a)" by (auto simp: sweep_conditions_def split: option.splits)
  have "sweep_plan a = List.product (sweep_seeds a) (sweep_conditions a)"
    by (simp add: sweep_plan_def product_concat_map)
  with s c show ?thesis by (simp add: distinct_product)
qed

lemma sweep_keys_distinct:
  "distinct (map fst (fs_runs fs)) \<Longrightarrow> distinct (map fst (fs_runs (snd (sweep_runs procs a plan fs))))"
  by (induction plan arbitrary: fs)
     (auto simp: run_one_runs distinct_dict_set split: option.splits if_splits)

text \<open>A run needs no process, or its process delivers samples.\<close>

definition run_succeeds :: "(int \<Rightarrow> string \<Rightarrow> process) \<Rightarrow> sweep_args \<Rightarrow> sweep_dir \<Rightarrow> int \<times> string \<Rightarrow> bool" where
  "run_succeeds procs a d sc \<longleftrightarrow>
     (has_samples d (run_name (fst sc) (snd sc)) \<and> \<not> sa_force a) \<or>
     good_result (procs (fst sc) (snd sc)) (run_cmd a (fst sc) (snd sc)) \<noteq> None"

lemma sweep_outcomes_ok:
  assumes "distinct plan"
  shows "list_all ok_outcome (fst (sweep_runs procs a plan fs)) \<longleftrightarrow> list_all (run_succeeds procs a (fs_runs fs)) plan"
  using assms
proof (induction plan arbitrary: fs)
  case (Cons sc plan)
  obtain s c where sc: "sc = (s, c)" by (cases sc)
  let ?fs1 = "snd (run_one (procs s c) a s c fs)"
  have "run_succeeds procs a (fs_runs ?fs1) x = run_succeeds procs a (fs_runs fs) x" if "x \<in> set plan" for x
    using that Cons.prems sc by (cases x) (auto simp: run_succeeds_def has_samples_def run_one_lookup)
  then have eq: "list_all (run_succeeds procs a (fs_runs ?fs1)) plan = list_all (run_succeeds procs a (fs_runs fs)) plan"
    by (simp add: list_all_iff)
  have "fst (sweep_runs procs a (sc # plan) fs) = fst (run_one (procs s c) a s c fs) # fst (sweep_runs procs a plan ?fs1)"
    by (simp add: sc sweep_runs.simps Let_def split: prod.splits)
  moreover have "ok_outcome (fst (run_one (procs s c) a s c fs)) = run_succeeds procs a (fs_runs fs) (s, c)"
    by (simp add: run_one_ok run_succeeds_def)
  ultimately show ?case using Cons.IH [of ?fs1] Cons.prems eq by (simp add: sc)
qed (simp add: sweep_runs.simps)

text \<open>
  C18. Resuming a sweep is safe: every run directory of the plan holds, afterwards, either the
  samples it already had (without \<^verbatim>\<open>--force\<close>) or the result of a fresh process that exited with
  status 0 and left samples; a failed process never replaces anything, no other directory is
  touched, and the script exits with 0 exactly when no run failed.
\<close>

theorem sweep_keeps_good_results:
  "let (code, os, fs') = sweep_main procs a fs in
     (code = 0 \<longleftrightarrow> list_all ok_outcome os) \<and>
     (code = 0 \<longleftrightarrow> list_all (run_succeeds procs a (fs_runs fs)) (sweep_plan a)) \<and>
     (\<forall>name. map_of (fs_runs fs') name =
        (case find (\<lambda>(s, c). run_name s c = name) (sweep_plan a) of
           None \<Rightarrow> map_of (fs_runs fs) name
         | Some (s, c) \<Rightarrow>
             if has_samples (fs_runs fs) name \<and> \<not> sa_force a then map_of (fs_runs fs) name
             else case good_result (procs s c) (run_cmd a s c) of
               None \<Rightarrow> map_of (fs_runs fs) name | Some f \<Rightarrow> Some f))"
proof -
  let ?r = "sweep_runs procs a (sweep_plan a) fs"
  have code: "length (filter (\<lambda>x. \<not> ok_outcome x) (fst ?r)) = 0 \<longleftrightarrow> list_all ok_outcome (fst ?r)"
    by (simp add: filter_empty_conv list_all_iff)
  have look: "map_of (fs_runs (snd ?r)) name =
        (case find (\<lambda>(s, c). run_name s c = name) (sweep_plan a) of
           None \<Rightarrow> map_of (fs_runs fs) name
         | Some (s, c) \<Rightarrow>
             if has_samples (fs_runs fs) name \<and> \<not> sa_force a then map_of (fs_runs fs) name
             else case good_result (procs s c) (run_cmd a s c) of
               None \<Rightarrow> map_of (fs_runs fs) name | Some f \<Rightarrow> Some f)" for name
  proof (cases "find (\<lambda>(s, c). run_name s c = name) (sweep_plan a)")
    case None
    then have "\<forall>(s, c) \<in> set (sweep_plan a). name \<noteq> run_name s c" by (auto simp: find_None_iff)
    with None show ?thesis by (simp add: sweep_runs_other)
  next
    case (Some sc)
    obtain s c where sc: "sc = (s, c)" by (cases sc)
    have "(s, c) \<in> set (sweep_plan a)" "name = run_name s c"
      using Some by (auto simp: find_Some_iff sc intro: nth_mem dest: nth_mem)
    with Some show ?thesis by (simp add: sc sweep_runs_lookup [OF distinct_sweep_plan] split: option.splits)
  qed
  have "(if length (filter (\<lambda>x. \<not> ok_outcome x) (fst ?r)) \<noteq> 0 then 1 else 0) = (0 :: int) \<longleftrightarrow> list_all ok_outcome (fst ?r)"
    using code by simp
  moreover have "list_all ok_outcome (fst ?r) \<longleftrightarrow> list_all (run_succeeds procs a (fs_runs fs)) (sweep_plan a)"
    by (rule sweep_outcomes_ok [OF distinct_sweep_plan])
  ultimately show ?thesis
    using look unfolding sweep_main_def by (simp only: Let_def case_prod_unfold fst_conv snd_conv) blast
qed

end
