(* ===== verification/Mann_Whitney.thy ===== *)
theory Mann_Whitney
  imports Nano_Prelude
begin

text \<open>
  The exact rank test of \<^verbatim>\<open>research/replica_recall/aggregate.py\<close>, \<^verbatim>\<open>mann_whitney\<close>: the null
  distribution by enumeration of all ways to split the pooled sample, and the normal
  approximation for larger samples. The complementary error function of the C library is a
  parameter of the approximate branch.
\<close>

section \<open>Definitions\<close>

text \<open>\<^verbatim>\<open>itertools.combinations\<close>, in its lexicographic order.\<close>

fun combinations :: "'a list \<Rightarrow> nat \<Rightarrow> 'a list list" where
  "combinations xs 0 = [[]]"
| "combinations [] (Suc k) = []"
| "combinations (x # xs) (Suc k) = map ((#) x) (combinations xs k) @ combinations xs (Suc k)"

text \<open>The inner function \<^verbatim>\<open>_u\<close>.\<close>

definition u_stat :: "real list \<Rightarrow> real list \<Rightarrow> real" where
  "u_stat xs ys =
     (\<Sum>x\<leftarrow>xs. \<Sum>y\<leftarrow>ys. if x > y then 1 else 0) + 0.5 * (\<Sum>x\<leftarrow>xs. \<Sum>y\<leftarrow>ys. if x = y then 1 else 0)"

definition exact_p :: "real list \<Rightarrow> real list \<Rightarrow> real" where
  "exact_p a b =
     (let n1 = length a; n2 = length b; u_obs = u_stat a b; centre = real (n1 * n2) / 2;
          pool = sort (a @ b); idx = [0..<n1 + n2];
          combos = combinations idx n1;
          extreme = length (filter (\<lambda>combo.
             let av = map ((!) pool) combo;
                 bv = map ((!) pool) (filter (\<lambda>i. i \<notin> set combo) idx)
             in \<bar>u_stat av bv - centre\<bar> \<ge> \<bar>u_obs - centre\<bar> - 1 / 10 ^ 12) combos)
      in real extreme / real (length combos))"

definition mann_whitney :: "(real \<Rightarrow> real) \<Rightarrow> flt list \<Rightarrow> flt list \<Rightarrow> flt \<times> flt" where
  "mann_whitney erfc fa fb =
     (let a = numbers fa; b = numbers fb; n1 = length a; n2 = length b
      in if n1 = 0 \<or> n2 = 0 then (NaN, NaN)
         else let u_obs = u_stat a b; centre = real (n1 * n2) / 2
              in if n1 + n2 \<le> 20 then (Fl u_obs, Fl (exact_p a b))
                 else let sd = sqrt (real (n1 * n2 * (n1 + n2 + 1)) / 12)
                      in if sd = 0 then (Fl u_obs, NaN)
                         else let z = (\<bar>u_obs - centre\<bar> - 0.5) / sd
                              in (Fl u_obs, Fl (min 1 (erfc (z / sqrt 2)))))"

section \<open>Combinations are the subsets of a given size\<close>

lemma combinations_sets:
  assumes "distinct xs"
  shows "distinct (map set (combinations xs k)) \<and> set (map set (combinations xs k)) = {S. S \<subseteq> set xs \<and> card S = k}"
  using assms
proof (induction xs k rule: combinations.induct)
  case (1 xs)
  have "{S. S \<subseteq> set xs \<and> card S = 0} = {{}}" by (auto dest: finite_subset)
  then show ?case by simp
next
  case (3 x xs k)
  let ?A = "map set (combinations xs k)" and ?B = "map set (combinations xs (Suc k))"
  have x: "x \<notin> set xs" and d: "distinct xs" using 3(3) by auto
  have A: "distinct ?A" "set ?A = {S. S \<subseteq> set xs \<and> card S = k}"
    and B: "distinct ?B" "set ?B = {S. S \<subseteq> set xs \<and> card S = Suc k}"
    using 3(1) [OF d] 3(2) [OF d] by auto
  have eq: "map set (combinations (x # xs) (Suc k)) = map (insert x) ?A @ ?B" by (simp add: comp_def)
  have inj: "inj_on (insert x) (set ?A)" using x A(2) by (auto intro!: inj_onI)
  have "S \<in> insert x ` set ?A \<union> set ?B \<longleftrightarrow> S \<subseteq> set (x # xs) \<and> card S = Suc k" for S
  proof (cases "x \<in> S")
    case True
    have "S \<in> insert x ` set ?A \<longleftrightarrow> S - {x} \<subseteq> set xs \<and> card (S - {x}) = k"
    proof
      assume "S \<in> insert x ` set ?A"
      then obtain T where "T \<subseteq> set xs" "card T = k" "S = insert x T" using A(2) by auto
      with x show "S - {x} \<subseteq> set xs \<and> card (S - {x}) = k" by (metis Diff_insert_absorb subsetD)
    next
      assume "S - {x} \<subseteq> set xs \<and> card (S - {x}) = k"
      then have "S - {x} \<in> set ?A" using A(2) by simp
      moreover have "S = insert x (S - {x})" using True by auto
      ultimately show "S \<in> insert x ` set ?A" by blast
    qed
    moreover have "S \<notin> set ?B" using True x B(2) by auto
    moreover have "finite S" if "S \<subseteq> set (x # xs)" using that finite_subset by blast
    ultimately show ?thesis using True by (auto simp: card_Diff_singleton card_gt_0_iff Suc_le_eq)
  next
    case False
    then show ?thesis using B(2) by auto
  qed
  then have "set (map (insert x) ?A @ ?B) = {S. S \<subseteq> set (x # xs) \<and> card S = Suc k}"
    by (intro set_eqI) (simp only: set_append set_map [of "insert x"] mem_Collect_eq)
  moreover have "distinct (map (insert x) ?A @ ?B)"
  proof -
    have "distinct (map (insert x) ?A)" using A(1) inj by (subst distinct_map) blast
    moreover have "set (map (insert x) ?A) \<inter> set ?B = {}" using B(2) x by auto
    ultimately show ?thesis using B(1) by (simp only: distinct_append simp_thms)
  qed
  ultimately show ?case unfolding eq by blast
qed auto

lemma combinations_distinct: "ys \<in> set (combinations xs k) \<Longrightarrow> distinct xs \<Longrightarrow> distinct ys \<and> set ys \<subseteq> set xs"
  by (induction xs k arbitrary: ys rule: combinations.induct) fastforce+

lemma length_combinations: "length (combinations xs k) = length xs choose k"
  by (induction xs k rule: combinations.induct) auto

lemma count_combinations:
  assumes "distinct xs" and "\<And>c. c \<in> set (combinations xs k) \<Longrightarrow> P c \<longleftrightarrow> Q (set c)"
  shows "length (filter P (combinations xs k)) = card {S. S \<subseteq> set xs \<and> card S = k \<and> Q S}"
proof -
  note cs = combinations_sets [OF assms(1), of k]
  have "length (filter P (combinations xs k)) = length (filter Q (map set (combinations xs k)))"
    using assms(2) by (auto simp: filter_map comp_def cong: filter_cong)
  also have "\<dots> = card (set (filter Q (map set (combinations xs k))))"
    using cs by (intro distinct_card [symmetric] distinct_filter) blast
  also have "set (filter Q (map set (combinations xs k))) = {S. S \<subseteq> set xs \<and> card S = k \<and> Q S}"
    unfolding set_filter using cs by auto
  finally show ?thesis .
qed

section \<open>The statistic on positions\<close>

definition score :: "real \<Rightarrow> real \<Rightarrow> real" where
  "score x y = (if x > y then 1 else if x = y then 1 / 2 else 0)"

lemma score_flip: "score x y + score y x = 1"
  by (simp add: score_def)

lemma u_stat_score: "u_stat xs ys = (\<Sum>x\<leftarrow>xs. \<Sum>y\<leftarrow>ys. score x y)"
proof -
  have row: "(\<Sum>y\<leftarrow>ys. score x y) = (\<Sum>y\<leftarrow>ys. if x > y then 1 else 0) + 0.5 * (\<Sum>y\<leftarrow>ys. if x = y then 1 else 0)" for x
    by (induction ys) (auto simp: score_def)
  show ?thesis unfolding u_stat_def row by (induction xs) (simp_all add: algebra_simps)
qed

text \<open>The statistic of a set of positions of the pool against the other positions.\<close>

definition u_set :: "real list \<Rightarrow> nat set \<Rightarrow> nat set \<Rightarrow> real" where
  "u_set pool S T = (\<Sum>i\<in>S. \<Sum>j\<in>T. score (pool ! i) (pool ! j))"

lemma u_stat_positions:
  assumes "distinct is" and "distinct js"
  shows "u_stat (map ((!) pool) is) (map ((!) pool) js) = u_set pool (set is) (set js)"
  by (simp add: u_stat_score u_set_def sum_list_distinct_conv_sum_set [OF assms(1)]
      sum_list_distinct_conv_sum_set [OF assms(2)] comp_def)

lemma u_set_flip:
  assumes "finite S" "finite T"
  shows "u_set pool S T + u_set pool T S = real (card S * card T)"
proof -
  have "u_set pool T S = (\<Sum>i\<in>S. \<Sum>j\<in>T. score (pool ! j) (pool ! i))"
    unfolding u_set_def by (rule sum.swap)
  then have "u_set pool S T + u_set pool T S = (\<Sum>i\<in>S. \<Sum>j\<in>T. score (pool ! i) (pool ! j) + score (pool ! j) (pool ! i))"
    by (simp add: u_set_def sum.distrib)
  then show ?thesis by (simp add: score_flip)
qed

lemma u_stat_mset:
  assumes "mset xs = mset xs'" and "mset ys = mset ys'"
  shows "u_stat xs ys = u_stat xs' ys'"
proof -
  have row: "(\<Sum>y\<leftarrow>ys. score x y) = (\<Sum>y\<leftarrow>ys'. score x y)" for x
    using assms(2) by (metis mset_map sum_mset_sum_list)
  show ?thesis
    unfolding u_stat_score row using assms(1) by (metis mset_map sum_mset_sum_list)
qed

text \<open>The number of splits at least as extreme as the observed one.\<close>

definition extreme_sets :: "real list \<Rightarrow> nat \<Rightarrow> nat \<Rightarrow> real \<Rightarrow> nat set set" where
  "extreme_sets pool n1 n2 dev =
     {S. S \<subseteq> {0..<n1 + n2} \<and> card S = n1 \<and>
         \<bar>u_set pool S ({0..<n1 + n2} - S) - real (n1 * n2) / 2\<bar> \<ge> dev - 1 / 10 ^ 12}"

lemma exact_p_eq:
  fixes a b :: "real list"
  defines "dev \<equiv> \<bar>u_stat a b - real (length a * length b) / 2\<bar>"
  shows "exact_p a b = real (card (extreme_sets (sort (a @ b)) (length a) (length b) dev))
           / real ((length a + length b) choose length a)"
proof -
  let ?n = "length a + length b" and ?pool = "sort (a @ b)"
  have "u_stat (map ((!) ?pool) c) (map ((!) ?pool) (filter (\<lambda>i. i \<notin> set c) [0..<?n])) =
      u_set ?pool (set c) ({0..<?n} - set c)" if "c \<in> set (combinations [0..<?n] (length a))" for c
  proof -
    have d: "distinct c" using combinations_distinct [OF that] by simp
    have "set (filter (\<lambda>i. i \<notin> set c) [0..<?n]) = {0..<?n} - set c" by auto
    with u_stat_positions [OF d, of "filter (\<lambda>i. i \<notin> set c) [0..<?n]" ?pool] show ?thesis by simp
  qed
  from count_combinations [of "[0..<?n]" "length a" _
      "\<lambda>S. \<bar>u_set ?pool S ({0..<?n} - S) - real (length a * length b) / 2\<bar> \<ge> dev - 1 / 10 ^ 12"] this
  show ?thesis
    by (simp add: exact_p_def Let_def extreme_sets_def length_combinations dev_def)
qed

section \<open>Validity, symmetry and the attainable minimum\<close>

lemma sort_positions:
  fixes xs :: "real list"
  shows "\<exists>f. bij_betw f {0..<length xs} {0..<length xs} \<and> (\<forall>i < length xs. xs ! i = sort xs ! f i)"
proof -
  let ?n = "length xs" and ?p = "sort_key ((!) xs) [0..<length xs]"
  have p: "distinct ?p" "set ?p = {0..<?n}" "length ?p = ?n" by simp_all
  have "mset (map ((!) xs) ?p) = mset xs"
    by (metis map_nth mset_map mset_sort)
  then have pool: "sort xs = map ((!) xs) ?p" by (intro properties_for_sort) simp_all
  have bij: "bij_betw ((!) ?p) {0..<?n} {0..<?n}"
    using bij_betw_nth [OF p(1), of "{0..<?n}" "{0..<?n}"] p(2,3) by (simp add: atLeast0LessThan)
  let ?f = "the_inv_into {0..<?n} ((!) ?p)"
  have inv: "bij_betw ?f {0..<?n} {0..<?n}" using bij by (rule bij_betw_the_inv_into)
  have "xs ! i = sort xs ! ?f i" if "i < ?n" for i
  proof -
    have "?p ! ?f i = i"
      using bij that by (intro f_the_inv_into_f) (auto simp: bij_betw_def)
    moreover have "?f i < ?n" using bij_betwE [OF inv] that by simp
    ultimately show ?thesis unfolding pool using p(3) by simp
  qed
  with inv show ?thesis by blast
qed

text \<open>Some split of the pool is the observed one.\<close>

lemma observed_split:
  fixes a b :: "real list"
  shows "\<exists>S \<subseteq> {0..<length a + length b}. card S = length a \<and>
    u_set (sort (a @ b)) S ({0..<length a + length b} - S) = u_stat a b"
proof -
  let ?n = "length a + length b" and ?pool = "sort (a @ b)"
  obtain f where bij: "bij_betw f {0..<?n} {0..<?n}" and f: "\<And>i. i < ?n \<Longrightarrow> (a @ b) ! i = ?pool ! f i"
    using sort_positions [of "a @ b"] by auto
  have inj: "inj_on f {0..<?n}" using bij by (rule bij_betw_imp_inj_on)
  let ?S = "f ` {0..<length a}" and ?T = "f ` {length a..<?n}"
  have img: "f ` {0..<?n} = {0..<?n}" using bij by (rule bij_betw_imp_surj_on)
  have un: "{0..<length a} \<union> {length a..<?n} = {0..<?n}" by auto
  have sub: "?S \<subseteq> {0..<?n}" using img by auto
  have "?S \<inter> ?T = f ` ({0..<length a} \<inter> {length a..<?n})"
    by (rule inj_on_image_Int [OF inj, symmetric]) auto
  then have "?S \<inter> ?T = {}" by simp
  moreover have "?S \<union> ?T = {0..<?n}" using img un by (metis image_Un)
  ultimately have T: "{0..<?n} - ?S = ?T" by auto
  have inj1: "inj_on f {0..<length a}" by (rule inj_on_subset [OF inj]) simp
  have inj2: "inj_on f {length a..<?n}" by (rule inj_on_subset [OF inj]) simp
  have la: "map ((!) ?pool) (map f [0..<length a]) = a"
  proof (rule nth_equalityI)
    fix i assume "i < length (map ((!) ?pool) (map f [0..<length a]))"
    then show "map ((!) ?pool) (map f [0..<length a]) ! i = a ! i"
      using f [of i] by (simp add: nth_append)
  qed simp
  have lb: "map ((!) ?pool) (map f [length a..<?n]) = b"
  proof (rule nth_equalityI)
    fix i assume "i < length (map ((!) ?pool) (map f [length a..<?n]))"
    then show "map ((!) ?pool) (map f [length a..<?n]) ! i = b ! i"
      using f [of "length a + i"] by (simp add: nth_append)
  qed simp
  have "u_stat a b = u_set ?pool (set (map f [0..<length a])) (set (map f [length a..<?n]))"
    using u_stat_positions [of "map f [0..<length a]" "map f [length a..<?n]" ?pool] inj1 inj2
    unfolding la lb by (simp add: distinct_map)
  then have "u_set ?pool ?S ({0..<?n} - ?S) = u_stat a b" unfolding T by simp
  moreover have "card ?S = length a" using inj1 by (simp add: card_image)
  ultimately show ?thesis using sub by blast
qed

lemma extreme_sets_finite: "finite (extreme_sets pool n1 n2 dev)"
  by (rule finite_subset [of _ "Pow {0..<n1 + n2}"]) (auto simp: extreme_sets_def)

lemma extreme_sets_card_le: "card (extreme_sets pool n1 n2 dev) \<le> (n1 + n2) choose n1"
proof -
  have "finite {S. S \<subseteq> {0..<n1 + n2} \<and> card S = n1}"
    by (rule finite_subset [of _ "Pow {0..<n1 + n2}"]) auto
  then have "card (extreme_sets pool n1 n2 dev) \<le> card {S. S \<subseteq> {0..<n1 + n2} \<and> card S = n1}"
    by (rule card_mono) (auto simp: extreme_sets_def)
  then show ?thesis using n_subsets [of "{0..<n1 + n2}" n1] by simp
qed

lemma exact_p_bounds:
  "1 / real ((length a + length b) choose length a) \<le> exact_p a b \<and> exact_p a b \<le> 1"
proof -
  let ?dev = "\<bar>u_stat a b - real (length a * length b) / 2\<bar>"
  let ?E = "extreme_sets (sort (a @ b)) (length a) (length b) ?dev"
  have pos: "0 < (length a + length b) choose length a" by simp
  obtain S where "S \<in> ?E"
    using observed_split [of a b] unfolding extreme_sets_def by force
  then have "1 \<le> card ?E" using extreme_sets_finite [of "sort (a @ b)"] by (metis One_nat_def Suc_leI card_gt_0_iff empty_iff)
  moreover have "card ?E \<le> (length a + length b) choose length a" by (rule extreme_sets_card_le)
  ultimately show ?thesis
    unfolding exact_p_eq using pos by (simp add: divide_le_cancel)
qed

lemma extreme_sets_flip:
  assumes "0 < n1" "0 < n2"
  shows "card (extreme_sets pool n1 n2 dev) = card (extreme_sets pool n2 n1 dev)"
proof -
  let ?N = "{0..<n1 + n2}"
  have flip: "?N - S \<in> extreme_sets pool m2 m1 dev" if "S \<in> extreme_sets pool m1 m2 dev" "m1 + m2 = n1 + n2" for S m1 m2
  proof -
    have S: "S \<subseteq> ?N" "card S = m1" "dev - 1 / 10 ^ 12 \<le> \<bar>u_set pool S (?N - S) - real (m1 * m2) / 2\<bar>"
      using that unfolding extreme_sets_def by auto
    have fin: "finite S" using S(1) by (rule finite_subset) simp
    have c: "card (?N - S) = m2" using S that(2) fin by (simp add: card_Diff_subset)
    have "u_set pool S (?N - S) + u_set pool (?N - S) S = real (m1 * m2)"
      using u_set_flip [of S "?N - S" pool] fin c S(2) by simp
    then have "u_set pool (?N - S) S - real (m2 * m1) / 2 = - (u_set pool S (?N - S) - real (m1 * m2) / 2)"
      by (simp add: mult.commute)
    then have "\<bar>u_set pool (?N - S) S - real (m2 * m1) / 2\<bar> = \<bar>u_set pool S (?N - S) - real (m1 * m2) / 2\<bar>"
      by (simp only: abs_minus_cancel)
    moreover have "?N - (?N - S) = S" using S(1) by (simp add: double_diff)
    moreover have "{0..<m2 + m1} = ?N" using that(2) by (simp add: add.commute)
    ultimately show ?thesis
      unfolding extreme_sets_def mem_Collect_eq using S(3) c by (simp only: Diff_subset simp_thms)
  qed
  have sub: "?N - (?N - S) = S" if "S \<in> extreme_sets pool m1 m2 dev" "m1 + m2 = n1 + n2" for S m1 m2
    using that by (simp add: extreme_sets_def double_diff)
  have "bij_betw (\<lambda>S. ?N - S) (extreme_sets pool n1 n2 dev) (extreme_sets pool n2 n1 dev)"
    by (rule bij_betw_byWitness [where f' = "\<lambda>S. ?N - S"])
       (simp_all add: flip sub image_subset_iff)
  then show ?thesis by (rule bij_betw_same_card)
qed

lemma u_stat_flip: "u_stat a b + u_stat b a = real (length a * length b)"
proof -
  have "u_stat b a = (\<Sum>x\<leftarrow>a. \<Sum>y\<leftarrow>b. score y x)"
    unfolding u_stat_score by (induction b) (simp_all add: sum_list_addf)
  then have "u_stat a b + u_stat b a = (\<Sum>x\<leftarrow>a. \<Sum>y\<leftarrow>b. score x y + score y x)"
    by (simp add: u_stat_score sum_list_addf)
  then show ?thesis by (simp add: score_flip sum_list_triv)
qed

lemma u_stat_dev: "\<bar>u_stat a b - real (length a * length b) / 2\<bar> = \<bar>u_stat b a - real (length b * length a) / 2\<bar>"
  using u_stat_flip [of a b] by (auto simp: abs_if mult.commute)

lemma exact_p_sym:
  assumes "a \<noteq> []" "b \<noteq> []"
  shows "exact_p a b = exact_p b a"
proof -
  have pool: "sort (a @ b) = sort (b @ a)" 
    by (rule properties_for_sort) (simp_all add: union_commute)
  have "(length a + length b) choose length a = (length b + length a) choose length b"
    using binomial_symmetric [of "length a" "length a + length b"] by (simp add: add.commute)
  then show ?thesis
    unfolding exact_p_eq u_stat_dev [of a b] pool using extreme_sets_flip [of "length a" "length b"] assms by simp
qed

lemma mann_whitney_p_sym: "snd (mann_whitney erfc fa fb) = snd (mann_whitney erfc fb fa)"
proof (cases "numbers fa = [] \<or> numbers fb = []")
  case False
  let ?a = "numbers fa" and ?b = "numbers fb"
  have "length ?a * length ?b * (length ?a + length ?b + 1) = length ?b * length ?a * (length ?b + length ?a + 1)"
    by (simp only: mult.commute add.commute)
  with False show ?thesis
    using exact_p_sym [of ?a ?b] u_stat_dev [of ?a ?b]
    by (simp only: mann_whitney_def Let_def length_0_conv if_False add.commute) (simp add: add.commute)
qed (auto simp: mann_whitney_def)

text \<open>
  C10. The exact test is valid and symmetric: for two non-empty samples of at most 20 numbers
  together, the p-value lies between one over the number of splits and 1, and exchanging the
  samples reflects the statistic and leaves the p-value unchanged. NaNs are ignored.
\<close>

theorem mann_whitney_valid:
  assumes "numbers fa \<noteq> []" and "numbers fb \<noteq> []" and "length (numbers fa) + length (numbers fb) \<le> 20"
  shows "\<exists>u p. mann_whitney erfc fa fb = (Fl u, Fl p) \<and>
    mann_whitney erfc fb fa = (Fl (u_stat (numbers fb) (numbers fa)), Fl p) \<and>
    1 / real ((length (numbers fa) + length (numbers fb)) choose length (numbers fa)) \<le> p \<and> p \<le> 1"
  using assms exact_p_bounds [of "numbers fa" "numbers fb"] exact_p_sym [of "numbers fa" "numbers fb"]
  by (simp add: mann_whitney_def Let_def add.commute)

theorem mann_whitney_valid_witness:
  "\<exists>u p. mann_whitney (\<lambda>_. 0) [Fl 1, NaN, Fl 3] [Fl 2] = (Fl u, Fl p) \<and>
    mann_whitney (\<lambda>_. 0) [Fl 2] [Fl 1, NaN, Fl 3] = (Fl 1, Fl p) \<and> 1 / 3 \<le> p \<and> p \<le> 1"
  using mann_whitney_valid [of "[Fl 1, NaN, Fl 3]" "[Fl 2]" "\<lambda>_. 0"]
  by (simp add: u_stat_def)

section \<open>The p-value of complete separation\<close>

lemma score_increasing:
  assumes "sorted_wrt (<) pool" and "i < length pool" and "j < length pool" and "i \<noteq> j"
  shows "score (pool ! i) (pool ! j) = (if j < i then 1 else 0)"
proof (cases "j < i")
  case True
  then show ?thesis using sorted_wrt_nth_less [OF assms(1) True assms(2)] by (simp add: score_def)
next
  case False
  then have "i < j" using assms(4) by simp
  then show ?thesis using sorted_wrt_nth_less [OF assms(1) \<open>i < j\<close> assms(3)] False by (simp add: score_def)
qed

lemma u_set_increasing:
  assumes "sorted_wrt (<) pool" and "S \<subseteq> {0..<length pool}"
  shows "u_set pool S ({0..<length pool} - S) = real (\<Sum>i\<in>S. \<Sum>j\<in>{0..<length pool} - S. if j < i then 1 else 0)"
proof -
  have "score (pool ! i) (pool ! j) = real (if j < i then 1 else 0)" if "i \<in> S" "j \<in> {0..<length pool} - S" for i j
  proof -
    have "i < length pool" "j < length pool" "i \<noteq> j" using that assms(2) by auto
    from score_increasing [OF assms(1) this] show ?thesis by simp
  qed
  then show ?thesis unfolding u_set_def of_nat_sum by (intro sum.cong refl) auto
qed

lemma initial_segment:
  assumes "S \<subseteq> {0..<n}" and "\<forall>i \<in> S. \<forall>j \<in> {0..<n} - S. \<not> j < i"
  shows "S = {0..<card S}"
proof -
  have fin: "finite S" using assms(1) by (rule finite_subset) simp
  have "i < card S" if i: "i \<in> S" for i
  proof -
    have "{0..i} \<subseteq> S"
    proof
      fix j assume j: "j \<in> {0..i}"
      show "j \<in> S"
      proof (rule ccontr)
        assume "j \<notin> S"
        then have "j \<in> {0..<n} - S" "j < i" using j i assms(1) by (auto simp: le_less)
        then show False using assms(2) i by blast
      qed
    qed
    then have "card {0..i} \<le> card S" by (rule card_mono [OF fin])
    then show ?thesis by simp
  qed
  then have "S \<subseteq> {0..<card S}" by auto
  then show ?thesis by (rule card_subset_eq [OF finite_atLeastLessThan]) simp
qed

lemma extreme_sets_separated:
  assumes inc: "sorted_wrt (<) pool" and len: "length pool = n1 + n2" and pos: "0 < n1" "0 < n2"
  shows "extreme_sets pool n1 n2 (real (n1 * n2) / 2) = {{0..<n1}, {n2..<n1 + n2}}"
proof -
  let ?N = "{0..<n1 + n2}"
  have "S \<in> extreme_sets pool n1 n2 (real (n1 * n2) / 2) \<longleftrightarrow> S = {0..<n1} \<or> S = {n2..<n1 + n2}" for S
  proof (cases "S \<subseteq> ?N \<and> card S = n1")
    case False
    then show ?thesis using pos by (auto simp: extreme_sets_def)
  next
    case True
    then have S: "S \<subseteq> ?N" "card S = n1" by auto
    let ?T = "?N - S"
    have fin: "finite S" using S(1) by (rule finite_subset) simp
    have cT: "card ?T = n2" and TT: "?N - ?T = S" using S fin by (auto simp: card_Diff_subset double_diff)
    define k l where "k = (\<Sum>i\<in>S. \<Sum>j\<in>?T. if j < i then 1 else 0 :: nat)" and "l = (\<Sum>i\<in>?T. \<Sum>j\<in>S. if j < i then 1 else 0 :: nat)"
    have uk: "u_set pool S ?T = real k" using u_set_increasing [OF inc, of S] S(1) by (simp add: len k_def)
    have ul: "u_set pool ?T S = real l" using u_set_increasing [OF inc, of ?T] TT by (simp add: len l_def)
    have kl: "real k + real l = real (n1 * n2)" using u_set_flip [OF fin, of ?T pool] uk ul S(2) cT by simp
    have k0: "k = 0 \<longleftrightarrow> S = {0..<n1}"
    proof
      assume "k = 0"
      then have "\<forall>i \<in> S. \<forall>j \<in> ?T. (if j < i then 1 else 0 :: nat) = 0" using fin by (simp add: k_def)
      then have "\<forall>i \<in> S. \<forall>j \<in> ?T. \<not> j < i" by (metis zero_neq_one)
      from initial_segment [OF S(1) this] show "S = {0..<n1}" using S(2) by simp
    qed (auto simp: k_def)
    have l0: "l = 0 \<longleftrightarrow> S = {n2..<n1 + n2}"
    proof
      assume "l = 0"
      then have "\<forall>i \<in> ?T. \<forall>j \<in> S. (if j < i then 1 else 0 :: nat) = 0" using fin by (simp add: l_def)
      then have "\<forall>i \<in> ?T. \<forall>j \<in> ?N - ?T. \<not> j < i" unfolding TT by (metis zero_neq_one)
      from initial_segment [OF _ this] have "?T = {0..<n2}" using cT by simp
      then show "S = {n2..<n1 + n2}" using TT by auto
    next
      assume "S = {n2..<n1 + n2}"
      then show "l = 0" by (auto simp: l_def)
    qed
    have "\<bar>real k - real (n1 * n2) / 2\<bar> \<ge> real (n1 * n2) / 2 - 1 / 10 ^ 12 \<longleftrightarrow> k = 0 \<or> l = 0"
    proof -
      have e1: "real k - real (n1 * n2) / 2 = (real k - real l) / 2" using kl by (simp add: field_simps)
      have e2: "real (n1 * n2) / 2 = (real k + real l) / 2" using kl by simp
      have "\<bar>(real k - real l) / 2\<bar> \<ge> (real k + real l) / 2 - 1 / 10 ^ 12 \<longleftrightarrow> k = 0 \<or> l = 0"
        by (cases k; cases l) (auto simp: abs_if field_simps)
      then show ?thesis by (subst e1, subst e2)
    qed
    then show ?thesis using S k0 l0 uk by (simp add: extreme_sets_def)
  qed
  then show ?thesis by auto
qed

lemma exact_p_separated:
  assumes "a \<noteq> []" and "b \<noteq> []" and inc: "sorted_wrt (<) (a @ b)"
  shows "u_stat a b = 0" and "exact_p a b = 2 / real ((length a + length b) choose length a)"
proof -
  have lt: "x < y" if "x \<in> set a" "y \<in> set b" for x y
    using inc that by (auto simp: sorted_wrt_append)
  show u: "u_stat a b = 0"
  proof -
    have row: "(\<Sum>y\<leftarrow>b. score x y) = (\<Sum>y\<leftarrow>b. 0)" if "x \<in> set a" for x
      using lt [OF that] by (intro arg_cong [where f = sum_list] map_cong refl) (force simp: score_def)
    have "(\<Sum>x\<leftarrow>a. \<Sum>y\<leftarrow>b. score x y) = (\<Sum>x\<leftarrow>a. \<Sum>y\<leftarrow>b. 0)"
      by (rule arg_cong [where f = sum_list], rule map_cong [OF refl row])
    then show ?thesis by (simp add: u_stat_score)
  qed
  have "sort (a @ b) = a @ b" by (rule sorted_sort_id) (rule strict_sorted_imp_sorted [OF inc])
  then have ext: "extreme_sets (sort (a @ b)) (length a) (length b) (real (length a * length b) / 2) =
      {{0..<length a}, {length b..<length a + length b}}"
    using extreme_sets_separated [OF inc] assms(1,2) by simp
  have "0 \<in> {0..<length a}" "0 \<notin> {length b..<length a + length b}" using assms(1,2) by auto
  then have "{0..<length a} \<noteq> {length b..<length a + length b}" by blast
  then show "exact_p a b = 2 / real ((length a + length b) choose length a)"
    unfolding exact_p_eq u using ext by simp
qed

text \<open>
  The attainable minimum the report prints: when the two samples, at most 20 numbers
  together, separate completely and no two values are equal, the p-value is two over the number
  of splits, because exactly the two complete separations are as extreme as the observed one.
\<close>

theorem mann_whitney_separated:
  assumes "a \<noteq> []" and "b \<noteq> []" and "length a + length b \<le> 20" and "sorted_wrt (<) (a @ b)"
  shows "mann_whitney erfc (map Fl a) (map Fl b) = (Fl 0, Fl (2 / real ((length a + length b) choose length a)))"
  using assms(1-3) exact_p_separated [OF assms(1,2,4)] by (simp add: mann_whitney_def Let_def)

theorem mann_whitney_separated_witness:
  "mann_whitney (\<lambda>_. 0) (map Fl [0, 1, 2, 3, 4]) (map Fl [100, 101, 102, 103, 104]) =
     (Fl 0, Fl (1 / 126))"
  using mann_whitney_separated [of "[0, 1, 2, 3, 4]" "[100, 101, 102, 103, 104]" "\<lambda>_. 0"] by simp

text \<open>
  That minimum is not a lower bound: with ties inside the samples complete separation can be
  the only extreme split. Two equal runs against three equal runs give p = 1/10, half of the
  floor 2/10 that the report states as the smallest attainable value for two against three.
\<close>

theorem p_floor_not_minimal:
  "mann_whitney erfc [Fl 1, Fl 1] [Fl 2, Fl 2, Fl 2] = (Fl 0, Fl (1 / 10)) \<and>
   mann_whitney erfc [Fl 0, Fl 1] [Fl 100, Fl 101, Fl 102] = (Fl 0, Fl (2 / 10))"
proof -
  have combos: "combinations [0..<5] (Suc (Suc 0)) =
      [[0, 1], [0, 2], [0, 3], [0, 4], [1, 2], [1, 3], [1, 4], [2, 3], [2, 4], [3, 4]]"
    by (simp add: upt_rec)
  have pool: "sort [1, 1, 2, 2, 2] = [1, 1, 2, 2, 2 :: real]" by simp
  have "exact_p [1, 1] [2, 2, 2] = 1 / 10"
    unfolding exact_p_def Let_def append.simps pool by (simp add: combos) (simp add: u_stat_def upt_rec)
  then have "mann_whitney erfc [Fl 1, Fl 1] [Fl 2, Fl 2, Fl 2] = (Fl 0, Fl (1 / 10))"
    unfolding mann_whitney_def Let_def by (simp add: u_stat_def)
  moreover have "mann_whitney erfc [Fl 0, Fl 1] [Fl 100, Fl 101, Fl 102] = (Fl 0, Fl (2 / 10))"
    using exact_p_separated [of "[0, 1]" "[100, 101, 102]"] unfolding mann_whitney_def Let_def
    by (simp add: choose_two)
  ultimately show ?thesis ..
qed

end
