(* ===== verification/Aggregate.thy ===== *)
theory Aggregate
  imports Sweep Mann_Whitney
begin

text \<open>
  The comparison of baseline and chaos runs, \<^verbatim>\<open>research/replica_recall/aggregate.py\<close>: discovery of
  the run directories, the table of rank tests, the size-matched recall, the pooled healing
  report and the verdict. What the script prints is returned as a value.
\<close>

section \<open>Discovery\<close>

text \<open>
  \<^verbatim>\<open>RUN_RE\<close>, the pattern \<^verbatim>\<open>^seed(\d+)_(baseline|chaos|quiesce)$\<close>; the final \<^verbatim>\<open>$\<close> also accepts one line
  feed at the end.
\<close>

definition run_conditions :: "string list" where
  "run_conditions = [''baseline'', ''chaos'', ''quiesce'']"

definition run_re :: "string \<Rightarrow> (nat \<times> string) option" where
  "run_re name =
     (let rest = drop 4 name; ds = takeWhile is_digit rest; tl = dropWhile is_digit rest
      in if starts_with ''seed'' name \<and> ds \<noteq> []
         then map_option (\<lambda>c. (undec ds, c))
                (find (\<lambda>c. tl = CHR ''_'' # c \<or> tl = CHR ''_'' # c @ [CHR 0x0A]) run_conditions)
         else None)"

record agg_run =
  ar_summary :: run_summary
  ar_heal :: "heal_report option"

type_synonym agg_runs = "(string, (nat \<times> agg_run) list) dict"

definition empty_runs :: agg_runs where
  "empty_runs = map (\<lambda>c. (c, [])) run_conditions"

text \<open>The directories that count: the name matches and there is a sample file, in sorted order.\<close>

definition usable_runs :: "sweep_dir \<Rightarrow> (string \<times> nat \<times> string \<times> csv_row list \<times> run_files) list" where
  "usable_runs d =
     List.map_filter (\<lambda>(name, f).
       case (run_re name, rf_samples f) of
         (Some (seed, cond), Some rows) \<Rightarrow> Some (name, seed, cond, rows, f)
       | _ \<Rightarrow> None) (sorted_items d)"

definition discover :: "numpy \<Rightarrow> sweep_dir option \<Rightarrow> agg_runs res" where
  "discover np dir =
     (case dir of
        None \<Rightarrow> Inl (SystemExit 1)
      | Some d \<Rightarrow>
          let usable = usable_runs d;
              dists = group_by (\<lambda>(name, seed, cond, rows, f). case rf_dist f of None \<Rightarrow> ''unknown'' | Some x \<Rightarrow> x) fst usable;
              out = foldl (\<lambda>o' (name, seed, cond, rows, f).
                      dict_append cond (seed, \<lparr>ar_summary = summarize_run np rows (Some (rf_meta f)),
                                               ar_heal = heal_stats np rows (Some (rf_meta f))\<rparr>) o') empty_runs usable
          in if 1 < length dists then Inl (SystemExit 1) else Inr out)"

section \<open>Pooled healing\<close>

datatype pooled_verdict = Heals_all nat | Heals_none nat | Heals_mixed nat nat

text \<open>Python's \<^verbatim>\<open>min\<close> and \<^verbatim>\<open>max\<close> of a non-empty list of floats keep the first of incomparable values.\<close>

definition py_min :: "flt list \<Rightarrow> flt" where
  "py_min xs = foldl (\<lambda>m x. if flt_lt x m then x else m) (hd xs) (tl xs)"

definition py_max :: "flt list \<Rightarrow> flt" where
  "py_max xs = foldl (\<lambda>m x. if flt_lt m x then x else m) (hd xs) (tl xs)"

record healing =
  hp_lines :: "(nat \<times> flt \<times> flt \<times> flt \<times> bool) list"
  hp_at_stop :: flt
  hp_end :: flt
  hp_recovered :: flt
  hp_range :: "flt \<times> flt"
  hp_verdict :: pooled_verdict

text \<open>\<open>None\<close>: there is no quiesce run, and nothing is printed. \<open>Some None\<close>: no run had damage.\<close>

definition healing_line :: "nat \<times> heal_report \<Rightarrow> (nat \<times> flt \<times> flt \<times> flt \<times> bool) option" where
  "healing_line sh =
     (let (seed, h) = sh; ph = h_phases h;
          last = find (\<lambda>p. 0 < ph_n p) [ph Post60p, ph Post30_60, ph Post0_30]
      in case (last, h_healed h) of
           (Some l, Some healed) \<Rightarrow>
             let at_stop = (if 0 < ph_n (ph Post0_30) then ph Post0_30 else l)
             in Some (seed, ph_missing at_stop, ph_missing l, h_recovered_frac h, healed)
         | _ \<Rightarrow> None)"

definition report_healing :: "numpy \<Rightarrow> agg_runs \<Rightarrow> healing option option" where
  "report_healing np runs =
     (let quiesce = List.map_filter (\<lambda>(s, r). map_option (\<lambda>h. (s, h)) (ar_heal r)) (dict_get runs ''quiesce'' [])
      in if quiesce = [] then None
         else let lines = List.map_filter healing_line quiesce;
                  rec_all = map (\<lambda>(_, _, _, rec, _). rec) lines;
                  n_runs = length lines;
                  n_healed = length (filter (\<lambda>(_, _, _, _, healed). healed) lines)
              in if lines = [] then Some None
                 else Some (Some \<lparr>hp_lines = lines,
                   hp_at_stop = np_mean np (map (\<lambda>(_, a, _, _, _). a) lines),
                   hp_end = np_mean np (map (\<lambda>(_, _, e, _, _). e) lines),
                   hp_recovered = np_mean np rec_all,
                   hp_range = (py_min rec_all, py_max rec_all),
                   hp_verdict = (if n_healed = n_runs then Heals_all n_runs
                                 else if n_healed = 0 then Heals_none n_runs
                                 else Heals_mixed n_healed n_runs)\<rparr>))"

section \<open>The table of rank tests\<close>

definition METRICS :: "(string \<times> (run_summary \<Rightarrow> flt)) list" where
  "METRICS =
     [(''spread_mean'', rs_spread_mean), (''spread_p95'', rs_spread_p95), (''hit_rate'', rs_hit_rate),
      (''rank_corr'', rs_rank_corr), (''margin'', rs_margin), (''index_recall'', rs_index_recall),
      (''completeness'', rs_completeness), (''e2e_recall'', rs_e2e_recall)]"

text \<open>Mean and standard deviation of a group, or no p-value when one side has no number at all.\<close>

datatype metric_line =
    One_sided string "flt option" "flt option"
  | Compared string "flt \<times> real" "flt \<times> real" flt bool

definition mean_sd :: "numpy \<Rightarrow> flt list \<Rightarrow> flt \<times> real" where
  "mean_sd np xs = (np_mean np xs, if 1 < length xs then np_std np 1 (map fval xs) else 0)"

definition summaries :: "agg_runs \<Rightarrow> string \<Rightarrow> run_summary list" where
  "summaries runs cond = map (\<lambda>(s, r). ar_summary r) (dict_get runs cond [])"

definition metric_line_of ::
  "numpy \<Rightarrow> (real \<Rightarrow> real) \<Rightarrow> agg_runs \<Rightarrow> string \<times> (run_summary \<Rightarrow> flt) \<Rightarrow> metric_line" where
  "metric_line_of np erfc runs km =
     (let (key, get) = km;
          bv = map get (summaries runs ''baseline''); cv = map get (summaries runs ''chaos'');
          bva = drop_nan bv; cva = drop_nan cv;
          mean_or = (\<lambda>xs. if xs \<noteq> [] then Some (np_mean np xs) else None)
      in if bva = [] \<or> cva = [] then One_sided key (mean_or bva) (mean_or cva)
         else let p = snd (mann_whitney erfc bv cv)
              in Compared key (mean_sd np bva) (mean_sd np cva) p (flt_le p (Fl 0.05)))"

text \<open>The dictionary \<^verbatim>\<open>results\<close> of p-values.\<close>

fun p_value :: "metric_line \<Rightarrow> (string \<times> flt) option" where
  "p_value (One_sided key b c) = None"
| "p_value (Compared key b c p star) = Some (key, p)"

section \<open>Size-matched recall\<close>

definition pooled :: "agg_runs \<Rightarrow> string \<Rightarrow> (int, flt list) dict" where
  "pooled runs cond =
     group_by fst snd (concat (map (\<lambda>s. map (\<lambda>(b, (e, i, n)). (b, e)) (rs_by_size s)) (summaries runs cond)))"

definition size_line :: "numpy \<Rightarrow> (int, flt list) dict \<Rightarrow> (int, flt list) dict \<Rightarrow> int \<Rightarrow> int \<times> flt \<times> flt \<times> flt \<times> nat \<times> nat" where
  "size_line np pb pc k =
     (let mean_at = (\<lambda>d. case map_of d k of None \<Rightarrow> NaN | Some xs \<Rightarrow> np_mean np xs);
          b = mean_at pb; c = mean_at pc
      in (k, b, c, if \<not> (isnan b \<or> isnan c) then fsub c b else NaN,
          length (dict_get pb k []), length (dict_get pc k [])))"

definition size_lines :: "numpy \<Rightarrow> agg_runs \<Rightarrow> (int \<times> flt \<times> flt \<times> flt \<times> nat \<times> nat) list" where
  "size_lines np runs =
     (let pb = pooled runs ''baseline''; pc = pooled runs ''chaos''
      in map (size_line np pb pc) (sorted_list_of_set (set (map fst pb) \<union> set (map fst pc))))"

section \<open>The verdict\<close>

record verdict =
  v_diverge :: bool
  v_detects :: bool
  v_graph :: bool
  v_data :: bool

definition separates :: "(string, flt) dict \<Rightarrow> string \<Rightarrow> bool" where
  "separates results key \<longleftrightarrow> flt_le (dict_get results key NaN) (Fl 0.05)"

definition hr_detects :: "numpy \<Rightarrow> agg_runs \<Rightarrow> bool" where
  "hr_detects np runs \<longleftrightarrow>
     (let hr = drop_nan (map rs_hit_rate (summaries runs ''chaos''));
          chance = drop_nan (map rs_chance (summaries runs ''chaos''))
      in hr \<noteq> [] \<and> chance \<noteq> [] \<and>
         flt_le (fmul (np_mean np chance) (Fl 1.8)) (np_mean np hr) \<and> flt_le (Fl 0.55) (np_mean np hr))"

record agg_report =
  ag_lines :: "metric_line list"
  ag_p_floor :: flt
  ag_sizes :: "(int \<times> flt \<times> flt \<times> flt \<times> nat \<times> nat) list"
  ag_size_delta :: "(flt \<times> nat) option"
  ag_healing :: "healing option option"
  ag_verdict :: verdict

datatype agg_outcome = Too_few_runs nat nat "healing option option" | Report agg_report

definition agg_verdict :: "numpy \<Rightarrow> agg_runs \<Rightarrow> metric_line list \<Rightarrow> verdict" where
  "agg_verdict np runs lines =
     (let results = List.map_filter p_value lines
      in \<lparr>v_diverge = separates results ''spread_mean'', v_detects = hr_detects np runs,
          v_graph = separates results ''index_recall'', v_data = separates results ''completeness''\<rparr>)"

definition aggregate :: "numpy \<Rightarrow> (real \<Rightarrow> real) \<Rightarrow> agg_runs \<Rightarrow> int \<times> agg_outcome" where
  "aggregate np erfc runs =
     (let nb = length (dict_get runs ''baseline'' []); nc = length (dict_get runs ''chaos'' [])
      in if nb < 2 \<or> nc < 2 then (1, Too_few_runs nb nc (report_healing np runs))
         else let lines = map (metric_line_of np erfc runs) METRICS;
                  sizes = size_lines np runs;
                  deltas = filter (\<lambda>d. \<not> isnan d) (map (\<lambda>(_, _, _, d, _, _). d) sizes)
              in (0, Report \<lparr>ag_lines = lines,
                    ag_p_floor = snd (mann_whitney erfc (map (\<lambda>i. Fl (real i)) [0..<nb]) (map (\<lambda>i. Fl (real i + 100)) [0..<nc])),
                    ag_sizes = sizes,
                    ag_size_delta = (if deltas \<noteq> [] then Some (np_mean np deltas, length deltas) else None),
                    ag_healing = report_healing np runs, ag_verdict = agg_verdict np runs lines\<rparr>))"

definition agg_main :: "numpy \<Rightarrow> (real \<Rightarrow> real) \<Rightarrow> sweep_dir option \<Rightarrow> (int \<times> agg_outcome) res" where
  "agg_main np erfc dir = bindE (discover np dir) (\<lambda>runs. Inr (aggregate np erfc runs))"

section \<open>Names of runs\<close>

lemma takeWhile_dec: "takeWhile is_digit (dec n @ CHR ''_'' # c) = dec n"
  "dropWhile is_digit (dec n @ CHR ''_'' # c) = CHR ''_'' # c"
  using dec_digits [of n] by (simp_all add: list_all_iff is_digit_def takeWhile_append2 dropWhile_append2)

lemma run_re_run_name:
  assumes "0 \<le> seed" and "cond \<in> set run_conditions"
  shows "run_re (run_name seed cond) = Some (nat seed, cond)"
proof -
  have "run_name seed cond = ''seed'' @ dec (nat seed) @ CHR ''_'' # cond"
    using assms(1) by (simp add: run_name_def str_int_def)
  then show ?thesis
    using assms(2) by (auto simp: run_re_def Let_def takeWhile_dec starts_with_def run_conditions_def)
qed

section \<open>What discovery returns\<close>

abbreviation ud_cond :: "string \<times> nat \<times> string \<times> csv_row list \<times> run_files \<Rightarrow> string" where
  "ud_cond u \<equiv> fst (snd (snd u))"

abbreviation ud_dist :: "string \<times> nat \<times> string \<times> csv_row list \<times> run_files \<Rightarrow> string" where
  "ud_dist u \<equiv> (case rf_dist (snd (snd (snd (snd u)))) of None \<Rightarrow> ''unknown'' | Some x \<Rightarrow> x)"

definition ud_run :: "numpy \<Rightarrow> string \<times> nat \<times> string \<times> csv_row list \<times> run_files \<Rightarrow> nat \<times> agg_run" where
  "ud_run np u =
     (case u of (name, seed, cond, rows, f) \<Rightarrow>
        (seed, \<lparr>ar_summary = summarize_run np rows (Some (rf_meta f)), ar_heal = heal_stats np rows (Some (rf_meta f))\<rparr>))"

lemma dict_append_foldl_get:
  "dict_get (foldl (\<lambda>d u. dict_append (key u) (val u) d) d us) c [] =
     dict_get d c [] @ map val (filter (\<lambda>u. key u = c) us)"
  by (induction us arbitrary: d) (simp_all add: dict_append_def dict_get_def split: option.splits)

lemma discover_eq:
  "discover np (Some d) =
     (if 1 < length (group_by ud_dist fst (usable_runs d)) then Inl (SystemExit 1)
      else Inr (foldl (\<lambda>o' u. dict_append (ud_cond u) (ud_run np u) o') empty_runs (usable_runs d)))"
  by (simp add: discover_def ud_run_def case_prod_unfold Let_def)

lemma discover_get:
  assumes "discover np (Some d) = Inr out"
  shows "dict_get out c [] = map (ud_run np) (filter (\<lambda>u. ud_cond u = c) (usable_runs d))"
proof -
  have "out = foldl (\<lambda>o' u. dict_append (ud_cond u) (ud_run np u) o') empty_runs (usable_runs d)"
    using assms by (simp add: discover_eq split: if_splits)
  moreover have "dict_get empty_runs c [] = []"
    by (auto simp: dict_get_def empty_runs_def split: option.splits dest: map_of_SomeD)
  ultimately show ?thesis by (simp only: dict_append_foldl_get) simp
qed

lemma length_group_by: "length (group_by key val rows) = card (key ` set rows)"
  using distinct_card [OF group_by_distinct [of key val rows]] by (simp only: group_by_keys length_map)

lemma one_group_iff: "1 < length (group_by key val rows) \<longleftrightarrow> (\<exists>r \<in> set rows. \<exists>r' \<in> set rows. key r \<noteq> key r')"
proof -
  have "card (key ` set rows) \<le> Suc 0 \<longleftrightarrow> (\<forall>r \<in> set rows. \<forall>r' \<in> set rows. key r = key r')"
    by (subst card_le_Suc0_iff_eq) auto
  then show ?thesis unfolding length_group_by by (auto simp: not_le [symmetric] less_eq_Suc_le)
qed

text \<open>
  C19. Discovery refuses to average across corpora: it ends the program with status 1 exactly when
  the directory is missing or two usable runs record different distributions. Otherwise the runs
  of each condition are exactly the usable directories of that condition, in the order of their
  names, and directories without samples or with another name contribute nothing.
\<close>

theorem discover_refuses_mixture:
  "case discover np dir of
     Inl e \<Rightarrow> e = SystemExit 1 \<and>
       (case dir of None \<Rightarrow> True
        | Some d \<Rightarrow> \<exists>u v. u \<in> set (usable_runs d) \<and> v \<in> set (usable_runs d) \<and> ud_dist u \<noteq> ud_dist v)
   | Inr out \<Rightarrow>
       (case dir of None \<Rightarrow> False
        | Some d \<Rightarrow> card (ud_dist ` set (usable_runs d)) \<le> 1 \<and>
            (\<forall>c. dict_get out c [] = map (ud_run np) (filter (\<lambda>u. ud_cond u = c) (usable_runs d))))"
proof (cases dir)
  case (Some d)
  show ?thesis
  proof (cases "1 < length (group_by ud_dist fst (usable_runs d))")
    case True
    then have ex: "\<exists>u v. u \<in> set (usable_runs d) \<and> v \<in> set (usable_runs d) \<and> ud_dist u \<noteq> ud_dist v"
      unfolding one_group_iff by blast
    have "discover np dir = Inl (SystemExit 1)" using True Some by (simp add: discover_eq)
    with ex Some show ?thesis by (simp only: sum.case option.case simp_thms)
  next
    case False
    then obtain out where out: "discover np (Some d) = Inr out" by (simp add: discover_eq)
    have "card (ud_dist ` set (usable_runs d)) \<le> 1"
      using False unfolding length_group_by by (simp only: not_less)
    with out discover_get [OF out] Some show ?thesis by simp
  qed
qed (simp add: discover_def)

section \<open>A finished sweep is discovered completely\<close>

lemma usable_runs_set:
  "u \<in> set (usable_runs d) \<longleftrightarrow>
     (\<exists>name seed cond rows f. u = (name, seed, cond, rows, f) \<and> (name, f) \<in> set d \<and>
        run_re name = Some (seed, cond) \<and> rf_samples f = Some rows)"
  by (auto simp: usable_runs_def List.map_filter_def image_iff split: option.splits prod.splits if_splits) force+

lemma usable_runs_names:
  "map (\<lambda>u. fst u) (usable_runs d) =
     map fst (filter (\<lambda>(name, f). run_re name \<noteq> None \<and> rf_samples f \<noteq> None) (sorted_items d))"
proof -
  let ?g = "\<lambda>(name, f). case (run_re name, rf_samples f) of
      (Some (seed, cond), Some rows) \<Rightarrow> Some (name, seed, cond, rows, f) | _ \<Rightarrow> None"
  have "map fst (List.map_filter ?g xs) = map fst (filter (\<lambda>(name, f). run_re name \<noteq> None \<and> rf_samples f \<noteq> None) xs)" for xs
    by (induction xs) (auto simp: List.map_filter_simps split: option.splits prod.splits)
  then show ?thesis by (simp add: usable_runs_def)
qed

lemma usable_runs_distinct:
  assumes "distinct (map fst d)"
  shows "distinct (map fst (usable_runs d))"
proof -
  have "mset (map fst (sorted_items d)) = mset (map fst d)"
    by (simp add: sorted_items_def)
  then have "distinct (map fst (sorted_items d))"
    using assms mset_eq_imp_distinct_iff by blast
  then show ?thesis unfolding usable_runs_names by (rule distinct_map_filter)
qed

lemma sweep_success:
  assumes run: "sweep_main procs a \<lparr>fs_runs = [], fs_results = r\<rparr> = (0, os, fs')"
  shows "fs' = snd (sweep_runs procs a (sweep_plan a) \<lparr>fs_runs = [], fs_results = r\<rparr>)"
    and "distinct (map fst (fs_runs fs'))"
    and "(s, c) \<in> set (sweep_plan a) \<Longrightarrow> \<exists>f rows. good_result (procs s c) (run_cmd a s c) = Some f \<and> rf_samples f = Some rows"
proof -
  let ?fs = "\<lparr>fs_runs = [], fs_results = r\<rparr>"
  show fs': "fs' = snd (sweep_runs procs a (sweep_plan a) ?fs)"
    using run by (auto simp: sweep_main_def Let_def split: prod.splits)
  show "distinct (map fst (fs_runs fs'))" unfolding fs' by (rule sweep_keys_distinct) simp
  have "list_all ok_outcome (fst (sweep_runs procs a (sweep_plan a) ?fs))"
    using run by (auto simp: sweep_main_def Let_def list_all_iff filter_empty_conv split: prod.splits if_splits)
  moreover assume "(s, c) \<in> set (sweep_plan a)"
  ultimately have "good_result (procs s c) (run_cmd a s c) \<noteq> None"
    unfolding sweep_outcomes_ok [OF distinct_sweep_plan] by (auto simp: list_all_iff run_succeeds_def has_samples_def)
  then show "\<exists>f rows. good_result (procs s c) (run_cmd a s c) = Some f \<and> rf_samples f = Some rows"
    by (auto simp: good_result_def split: prod.splits option.splits if_splits)
qed

lemma sweep_run_entry:
  assumes run: "sweep_main procs a \<lparr>fs_runs = [], fs_results = r\<rparr> = (0, os, fs')"
  shows "(name, f) \<in> set (fs_runs fs') \<longleftrightarrow>
    (\<exists>s c. (s, c) \<in> set (sweep_plan a) \<and> name = run_name s c \<and> good_result (procs s c) (run_cmd a s c) = Some f)"
proof -
  note fs' = sweep_success(1) [OF run] and good = sweep_success(3) [OF run]
  have none: "\<not> has_samples [] n" for n by (simp add: has_samples_def)
  have mem: "(name, f) \<in> set (fs_runs fs') \<longleftrightarrow> map_of (fs_runs fs') name = Some f"
    using sweep_success(2) [OF run] by simp
  show ?thesis
  proof (cases "\<exists>s c. (s, c) \<in> set (sweep_plan a) \<and> name = run_name s c")
    case True
    then obtain s c where sc: "(s, c) \<in> set (sweep_plan a)" "name = run_name s c" by blast
    have "map_of (fs_runs fs') name = good_result (procs s c) (run_cmd a s c)"
      using good [OF sc(1)] unfolding fs' sc(2) sweep_runs_lookup [OF distinct_sweep_plan sc(1)] by (auto simp: none)
    with sc show ?thesis unfolding mem by auto
  next
    case False
    then have "map_of (fs_runs fs') name = None"
      unfolding fs' by (subst sweep_runs_other) auto
    with False show ?thesis unfolding mem by auto
  qed
qed

lemma sweep_usable:
  assumes run: "sweep_main procs a \<lparr>fs_runs = [], fs_results = r\<rparr> = (0, os, fs')"
    and base: "0 \<le> sa_seed_base a" and conds: "set (sweep_conditions a) \<subseteq> set run_conditions"
  shows "u \<in> set (usable_runs (fs_runs fs')) \<longleftrightarrow>
    (\<exists>s c rows f. u = (run_name s c, nat s, c, rows, f) \<and> s \<in> set (sweep_seeds a) \<and> c \<in> set (sweep_conditions a) \<and>
       good_result (procs s c) (run_cmd a s c) = Some f \<and> rf_samples f = Some rows)"
proof -
  have plan: "(s, c) \<in> set (sweep_plan a) \<longleftrightarrow> s \<in> set (sweep_seeds a) \<and> c \<in> set (sweep_conditions a)" for s c
    by (auto simp: sweep_plan_def)
  have "0 \<le> s" if "s \<in> set (sweep_seeds a)" for s using that base by (auto simp: sweep_seeds_def)
  then have re: "run_re (run_name s c) = Some (nat s, c)" if "(s, c) \<in> set (sweep_plan a)" for s c
    using that conds by (intro run_re_run_name) (auto simp: plan)
  show ?thesis
    unfolding usable_runs_set sweep_run_entry [OF run] using re by (auto simp: plan)
qed

text \<open>
  C20. A finished sweep is aggregated completely: when the script exits with 0 on an empty sweep
  directory and every run records the same corpus, discovery succeeds and finds under each
  condition exactly the seeds of the sweep, each once, and nothing under a condition that was not run.
\<close>

theorem sweep_then_discover:
  assumes run: "sweep_main procs a \<lparr>fs_runs = [], fs_results = r\<rparr> = (0, os, fs')"
    and base: "0 \<le> sa_seed_base a" and conds: "set (sweep_conditions a) \<subseteq> set run_conditions"
    and dist: "\<forall>s c f. good_result (procs s c) (run_cmd a s c) = Some f \<longrightarrow> rf_dist f = dst"
  shows "\<exists>out. discover np (Some (fs_runs fs')) = Inr out \<and>
    (\<forall>c. mset (map fst (dict_get out c [])) =
       (if c \<in> set (sweep_conditions a) then mset (map nat (sweep_seeds a)) else {#}))"
proof -
  let ?us = "usable_runs (fs_runs fs')"
  note mem = sweep_usable [OF run base conds]
  have "ud_dist u = ud_dist v" if "u \<in> set ?us" "v \<in> set ?us" for u v
    using that dist by (auto simp: mem)
  then have "\<not> 1 < length (group_by ud_dist fst ?us)" unfolding one_group_iff by blast
  then obtain out where out: "discover np (Some (fs_runs fs')) = Inr out" by (simp add: discover_eq)
  have names: "distinct ?us"
    using usable_runs_distinct [OF sweep_success(2) [OF run]] by (simp add: distinct_map)
  have pos: "0 \<le> s" if "s \<in> set (sweep_seeds a)" for s using that base by (auto simp: sweep_seeds_def)
  have seeds: "distinct (map nat (sweep_seeds a))"
    using base by (auto simp: distinct_map inj_on_def sweep_seeds_def nat_add_distrib)
  have some: "\<exists>f rows. good_result (procs s c) (run_cmd a s c) = Some f \<and> rf_samples f = Some rows"
    if "s \<in> set (sweep_seeds a)" "c \<in> set (sweep_conditions a)" for s c
    using that by (intro sweep_success(3) [OF run]) (auto simp: sweep_plan_def)
  have "mset (map fst (dict_get out c [])) = (if c \<in> set (sweep_conditions a) then mset (map nat (sweep_seeds a)) else {#})" for c
  proof -
    let ?l = "map (\<lambda>u. fst (snd u)) (filter (\<lambda>u. ud_cond u = c) ?us)"
    have l: "map fst (dict_get out c []) = ?l"
      by (simp add: discover_get [OF out] ud_run_def case_prod_unfold comp_def)
    have "distinct ?l"
      using names pos by (auto simp: distinct_map inj_on_def mem nat_eq_iff)
    moreover have "set ?l = (if c \<in> set (sweep_conditions a) then set (map nat (sweep_seeds a)) else {})"
      using some by (force simp: mem image_iff)
    ultimately show ?thesis
      unfolding l using seeds set_eq_iff_mset_eq_distinct [of ?l "map nat (sweep_seeds a)"]
      by (cases "c \<in> set (sweep_conditions a)") (simp_all only: if_True if_False set_empty mset.simps simp_thms)
  qed
  with out show ?thesis by blast
qed

text \<open>Two seeds, the default conditions; every process writes one sample.\<close>

definition demo_args :: sweep_args where
  "demo_args = \<lparr>sa_seeds = 2, sa_seed_base = 7, sa_duration = 300, sa_writers = 4, sa_only = None,
     sa_with_quiesce = False, sa_chaos_duration = 120, sa_force = False, sa_extra = []\<rparr>"

definition demo_proc :: "int \<Rightarrow> string \<Rightarrow> process" where
  "demo_proc s c cmd before =
     (0, Some \<lparr>rf_samples = Some [[(''reachable'', ''1'')]], rf_events = [], rf_meta = empty_meta, rf_dist = Some ''sift''\<rparr>)"

lemma demo_sweep_seeds: "sweep_seeds demo_args = [7, 8]"
  by (simp add: sweep_seeds_def demo_args_def numeral_2_eq_2)

lemma demo_sweep_ok: "fst (sweep_main demo_proc demo_args \<lparr>fs_runs = [], fs_results = None\<rparr>) = 0"
proof -
  have "list_all ok_outcome (fst (sweep_runs demo_proc demo_args (sweep_plan demo_args) \<lparr>fs_runs = [], fs_results = None\<rparr>))"
    unfolding sweep_outcomes_ok [OF distinct_sweep_plan]
    by (simp add: list_all_iff run_succeeds_def good_result_def demo_proc_def)
  then show ?thesis
    by (simp add: sweep_main_def Let_def case_prod_unfold list_all_iff filter_empty_conv)
qed

lemma demo_dist: "\<forall>s c f. good_result (demo_proc s c) (run_cmd demo_args s c) = Some f \<longrightarrow> rf_dist f = Some ''sift''"
  by (auto simp: good_result_def demo_proc_def)

theorem sweep_then_discover_witness:
  "\<exists>out. discover numpy_ref (Some (fs_runs (snd (snd (sweep_main demo_proc demo_args \<lparr>fs_runs = [], fs_results = None\<rparr>))))) = Inr out \<and>
     mset (map fst (dict_get out ''chaos'' [])) = {#7, 8#} \<and> dict_get out ''quiesce'' [] = []"
proof -
  let ?r = "sweep_main demo_proc demo_args \<lparr>fs_runs = [], fs_results = None\<rparr>"
  have run: "?r = (0, fst (snd ?r), snd (snd ?r))" using demo_sweep_ok by (simp add: prod_eq_iff)
  have conds: "sweep_conditions demo_args = [''baseline'', ''chaos'']" and base: "0 \<le> sa_seed_base demo_args"
    by (simp_all add: sweep_conditions_def demo_args_def)
  obtain out where out: "discover numpy_ref (Some (fs_runs (snd (snd ?r)))) = Inr out"
    "\<forall>c. mset (map fst (dict_get out c [])) =
       (if c \<in> set (sweep_conditions demo_args) then mset (map nat (sweep_seeds demo_args)) else {#})"
    using sweep_then_discover [OF run _ _ demo_dist, of numpy_ref] base by (auto simp: conds run_conditions_def)
  from out(2) [rule_format, of "''chaos''"] out(2) [rule_format, of "''quiesce''"]
  have "mset (map fst (dict_get out ''chaos'' [])) = {#7, 8#}" "dict_get out ''quiesce'' [] = []"
    by (auto simp: conds demo_sweep_seeds)
  with out(1) show ?thesis by blast
qed

section \<open>The verdict is blind to the direction\<close>

definition swap_conditions :: "agg_runs \<Rightarrow> agg_runs" where
  "swap_conditions runs =
     [(''baseline'', dict_get runs ''chaos'' []), (''chaos'', dict_get runs ''baseline'' []),
      (''quiesce'', dict_get runs ''quiesce'' [])]"

lemma summaries_swap [simp]:
  "summaries (swap_conditions runs) ''baseline'' = summaries runs ''chaos''"
  "summaries (swap_conditions runs) ''chaos'' = summaries runs ''baseline''"
  by (simp_all add: summaries_def swap_conditions_def dict_get_def)

lemma p_value_swap:
  "p_value (metric_line_of np erfc (swap_conditions runs) km) = p_value (metric_line_of np erfc runs km)"
  by (simp add: metric_line_of_def Let_def disj_commute mann_whitney_p_sym [of erfc "map _ (summaries runs ''chaos'')"]
      split: prod.splits)

text \<open>
  C21. The verdict line "replicas diverge more under failure than without it", like the lines on
  the graph and on the data, looks at the size of the two-sided p-value only: exchanging the
  baseline and the chaos runs gives the same answer. A sweep in which faults reduce the spread
  is therefore reported as one in which they increase it.
\<close>

theorem verdict_blind_to_direction:
  "v_diverge (agg_verdict np (swap_conditions runs) (map (metric_line_of np erfc (swap_conditions runs)) METRICS)) =
     v_diverge (agg_verdict np runs (map (metric_line_of np erfc runs) METRICS)) \<and>
   v_graph (agg_verdict np (swap_conditions runs) (map (metric_line_of np erfc (swap_conditions runs)) METRICS)) =
     v_graph (agg_verdict np runs (map (metric_line_of np erfc runs) METRICS)) \<and>
   v_data (agg_verdict np (swap_conditions runs) (map (metric_line_of np erfc (swap_conditions runs)) METRICS)) =
     v_data (agg_verdict np runs (map (metric_line_of np erfc runs) METRICS))"
proof -
  have "List.map_filter p_value (map (metric_line_of np erfc (swap_conditions runs)) METRICS) =
      List.map_filter p_value (map (metric_line_of np erfc runs) METRICS)"
    by (simp add: List.map_filter_def p_value_swap filter_map comp_def)
  then show ?thesis by (simp add: agg_verdict_def Let_def)
qed

end
