(* ===== verification/Bytes.thy ===== *)
theory Bytes
  imports Nano_Prelude "HOL-Library.Word"
begin

text \<open>
  Little-endian binary data as numpy reads it: 32-bit unsigned and signed integers and the value of
  32-bit floats, decoded from lists of 8-bit words, with the encoders they invert.
\<close>

section \<open>Decoding\<close>

type_synonym byte = "8 word"

text \<open>\<^verbatim>\<open>"<u4"\<close> and \<^verbatim>\<open>"<i4"\<close>: the first four bytes.\<close>

fun le_nat :: "nat \<Rightarrow> byte list \<Rightarrow> nat" where
  "le_nat 0 bs = 0"
| "le_nat (Suc k) [] = 0"
| "le_nat (Suc k) (b # bs) = unat b + 256 * le_nat k bs"

definition u32 :: "byte list \<Rightarrow> nat" where
  "u32 bs = le_nat 4 bs"

definition i32_of :: "nat \<Rightarrow> int" where
  "i32_of u = (if u < 2 ^ 31 then int u else int u - 2 ^ 32)"

definition i32 :: "byte list \<Rightarrow> int" where
  "i32 bs = i32_of (u32 bs)"

fun u32s :: "nat \<Rightarrow> byte list \<Rightarrow> nat list" where
  "u32s 0 bs = []"
| "u32s (Suc k) bs = u32 bs # u32s k (drop 4 bs)"

text \<open>A 32-bit float differs from 0 unless all bits but the sign are clear.\<close>

definition f32_nonzero :: "nat \<Rightarrow> bool" where
  "f32_nonzero u \<longleftrightarrow> u mod 2 ^ 31 \<noteq> 0"

text \<open>
  The value of a finite 32-bit float: sign, biased exponent and 23-bit fraction. Stored vectors
  are finite; the patterns of infinities and NaNs are not given a value here.
\<close>

definition f32_value :: "nat \<Rightarrow> real" where
  "f32_value u =
     (let sg = (if u < 2 ^ 31 then 1 else - 1); ex = u div 2 ^ 23 mod 256; fr = real (u mod 2 ^ 23) / 2 ^ 23
      in sg * (if ex = 0 then fr * 2 powi (- 126) else (1 + fr) * 2 powi (int ex - 127)))"

section \<open>Encoding\<close>

fun enc_le :: "nat \<Rightarrow> nat \<Rightarrow> byte list" where
  "enc_le 0 x = []"
| "enc_le (Suc k) x = word_of_nat (x mod 256) # enc_le k (x div 256)"

definition enc_u32 :: "nat \<Rightarrow> byte list" where
  "enc_u32 x = enc_le 4 x"

definition enc_i32 :: "int \<Rightarrow> byte list" where
  "enc_i32 i = enc_u32 (nat (i mod 2 ^ 32))"

definition enc_u32s :: "nat list \<Rightarrow> byte list" where
  "enc_u32s xs = concat (map enc_u32 xs)"

definition is_u32 :: "nat \<Rightarrow> bool" where
  "is_u32 x \<longleftrightarrow> x < 2 ^ 32"

definition is_i32 :: "int \<Rightarrow> bool" where
  "is_i32 i \<longleftrightarrow> - (2 ^ 31) \<le> i \<and> i < 2 ^ 31"

section \<open>Decoding inverts encoding\<close>

lemma length_enc_le [simp]: "length (enc_le k x) = k"
  by (induction k x rule: enc_le.induct) auto

lemma length_enc [simp]: "length (enc_u32 x) = 4" "length (enc_i32 i) = 4" "length (enc_u32s xs) = 4 * length xs"
  by (simp_all add: enc_u32_def enc_i32_def enc_u32s_def length_concat comp_def sum_list_triv)

lemma le_nat_enc_le: "le_nat k (enc_le k x @ rest) = x mod 256 ^ k"
proof (induction k x rule: enc_le.induct)
  case (2 k x)
  have "unat (word_of_nat (x mod 256) :: byte) = x mod 256" by (simp add: unat_of_nat)
  with 2 show ?case by (simp add: mod_mult2_eq)
qed simp

lemma u32_enc [simp]: "is_u32 x \<Longrightarrow> u32 (enc_u32 x @ rest) = x"
  by (simp add: u32_def enc_u32_def le_nat_enc_le is_u32_def)

lemma u32_enc_i32: "u32 (enc_i32 i @ rest) = nat (i mod 2 ^ 32)"
  unfolding enc_i32_def by (rule u32_enc) (simp add: is_u32_def nat_less_iff)

lemma i32_of_enc: "is_i32 i \<Longrightarrow> i32_of (nat (i mod 2 ^ 32)) = i"
proof -
  assume i: "is_i32 i"
  show ?thesis
  proof (cases "0 \<le> i")
    case True
    with i show ?thesis by (simp add: i32_of_def is_i32_def)
  next
    case False
    have "i mod 2 ^ 32 = (i + 2 ^ 32) mod 2 ^ 32" by simp
    also have "\<dots> = i + 2 ^ 32"
      by (rule mod_pos_pos_trivial) (use i False in \<open>auto simp: is_i32_def\<close>)
    finally have "i mod 2 ^ 32 = i + 2 ^ 32" .
    with False i show ?thesis by (simp add: i32_of_def is_i32_def nat_less_iff)
  qed
qed

lemma i32_enc [simp]: "is_i32 i \<Longrightarrow> i32 (enc_i32 i @ rest) = i"
  by (simp only: i32_def u32_enc_i32 i32_of_enc)

lemma u32s_enc [simp]: "list_all is_u32 xs \<Longrightarrow> length xs = k \<Longrightarrow> u32s k (enc_u32s xs @ rest) = xs"
  by (induction xs arbitrary: k) (auto simp: enc_u32s_def)

lemma u32s_enc_i32 [simp]: "list_all is_i32 xs \<Longrightarrow> length xs = k \<Longrightarrow> map i32_of (u32s k (concat (map enc_i32 xs) @ rest)) = xs"
proof (induction xs arbitrary: k)
  case (Cons i xs)
  then obtain k' where k: "k = Suc k'" by auto
  with Cons show ?case by (simp add: u32_enc_i32 [of i "concat (map enc_i32 xs) @ rest", simplified] i32_of_enc [simplified])
qed simp

lemma le_nat_zero: "le_nat k (replicate m 0) = 0"
proof (induction k arbitrary: m)
  case (Suc k)
  then show ?case by (cases m) auto
qed simp

lemma u32s_zero: "u32s k (replicate m 0) = replicate k 0"
  by (induction k arbitrary: m) (simp_all add: u32_def le_nat_zero)

lemma length_concat_uniform: "\<forall>b \<in> set bs. length b = N \<Longrightarrow> length (concat bs) = length bs * N"
  by (induction bs) auto

lemma take_drop_concat:
  "\<forall>b \<in> set bs. length b = N \<Longrightarrow> i < length bs \<Longrightarrow> take N (drop (i * N) (concat bs @ rest)) = bs ! i"
proof (induction bs arbitrary: i)
  case (Cons b bs)
  then show ?case
    by (cases i) (auto simp: drop_append)
qed simp

end
