(* ===== verification/Forensics.thy ===== *)
theory Forensics
  imports Numpy_Api Bytes
begin

text \<open>
  The offline inspection of an index file, \<^verbatim>\<open>research/replica_recall/graph_forensics.py\<close>: decoding
  of the fixed binary layout and the degree, reachability and symmetry statistics of the stored
  graph. Bytes are 8-bit words; the 32-bit fields are decoded as the little-endian unsigned or
  two's complement numbers they hold. A vector component is kept as its bit pattern.
\<close>

section \<open>The file layout\<close>

definition HEADER_SIZE :: nat where "HEADER_SIZE = 64"
definition NODE_SIZE :: nat where "NODE_SIZE = 1056"
definition MAX_LAYERS :: nat where "MAX_LAYERS = 4"
definition M_MAX0 :: nat where "M_MAX0 = 32"
definition VECTOR_DIM :: nat where "VECTOR_DIM = 128"
definition NANODB_MAGIC :: nat where "NANODB_MAGIC = 0x4E444200"
definition NO_NEIGHBOR :: nat where "NO_NEIGHBOR = 0xFFFFFFFF"

lemmas layout_defs = HEADER_SIZE_def NODE_SIZE_def MAX_LAYERS_def M_MAX0_def VECTOR_DIM_def

record header =
  hd_magic :: nat
  hd_element_count :: nat
  hd_entry_point_id :: int
  hd_max_layer :: int

definition decode_header :: "byte list \<Rightarrow> header" where
  "decode_header bs = \<lparr>hd_magic = u32 bs, hd_element_count = u32 (drop 4 bs),
     hd_entry_point_id = i32 (drop 8 bs), hd_max_layer = i32 (drop 12 bs)\<rparr>"

record node =
  nd_id :: nat
  nd_max_layer :: int
  nd_is_deleted :: nat
  nd_vector :: "nat list"
  nd_neighbors :: "nat list list"
  nd_counts :: "int list"

definition decode_node :: "byte list \<Rightarrow> node" where
  "decode_node bs = \<lparr>nd_id = u32 bs, nd_max_layer = i32 (drop 4 bs), nd_is_deleted = unat (bs ! 8),
     nd_vector = u32s VECTOR_DIM (drop 12 bs),
     nd_neighbors = map (\<lambda>l. u32s M_MAX0 (drop (524 + 4 * M_MAX0 * l) bs)) [0..<MAX_LAYERS],
     nd_counts = map i32_of (u32s MAX_LAYERS (drop 1036 bs))\<rparr>"

definition written :: "node \<Rightarrow> bool" where
  "written nd \<longleftrightarrow>
     list_ex (list_ex (\<lambda>x. x = NO_NEIGHBOR)) (nd_neighbors nd) \<or> list_ex f32_nonzero (nd_vector nd)"

definition extent_of :: "node list \<Rightarrow> nat" where
  "extent_of nodes =
     (let nz = filter (\<lambda>i. written (nodes ! i)) [0..<length nodes] in if nz \<noteq> [] then last nz + 1 else 0)"

definition load_index :: "byte list \<Rightarrow> (header \<times> node list \<times> nat) res" where
  "load_index raw =
     (let size = length raw
      in if size < HEADER_SIZE then Inl (ValueError ''smaller than the header'')
         else let h = decode_header (take HEADER_SIZE raw)
              in if hd_magic h \<noteq> NANODB_MAGIC then Inl (ValueError ''bad magic'')
                 else let capacity = (size - HEADER_SIZE) div NODE_SIZE;
                          all_nodes = map (\<lambda>i. decode_node (take NODE_SIZE (drop (HEADER_SIZE + i * NODE_SIZE) raw))) [0..<capacity]
                      in Inr (h, take (extent_of all_nodes) all_nodes, capacity))"

section \<open>Statistics of the graph\<close>

text \<open>\<^verbatim>\<open>np.clip(counts, 0, M_MAX0)\<close>.\<close>

definition clip_count :: "int \<Rightarrow> nat" where
  "clip_count c = nat (max 0 (min c (int M_MAX0)))"

definition deg0 :: "node \<Rightarrow> nat" where
  "deg0 nd = clip_count (nd_counts nd ! 0)"

text \<open>Every valid slot of every layer of every node, in array order: source and target.\<close>

definition edges_of :: "node list \<Rightarrow> (nat \<times> nat) list" where
  "edges_of nodes =
     [(v, nd_neighbors (nodes ! v) ! l ! j).
        v \<leftarrow> [0..<length nodes], l \<leftarrow> [0..<MAX_LAYERS], j \<leftarrow> [0..<clip_count (nd_counts (nodes ! v) ! l)]]"

definition good_edges :: "node list \<Rightarrow> (nat \<times> nat) list" where
  "good_edges nodes = filter (\<lambda>(s, d). \<not> length nodes \<le> d) (edges_of nodes)"

text \<open>No in-edge and not the entry point.\<close>

definition unreachable_flags :: "numpy \<Rightarrow> nat \<Rightarrow> int \<Rightarrow> (nat \<times> nat) list \<Rightarrow> bool list" where
  "unreachable_flags np n entry es =
     (let indeg = np_bincount np (map snd es) n; flags = map (\<lambda>c. c = 0) indeg
      in if 0 \<le> entry \<and> entry < int n then flags[nat entry := False] else flags)"

text \<open>The adjacency in compressed form: edge targets sorted by source, and where each source starts.\<close>

definition d_sorted :: "numpy \<Rightarrow> (nat \<times> nat) list \<Rightarrow> nat list" where
  "d_sorted np es = map ((!) (map snd es)) (np_argsort_stable np (map fst es))"

definition adj_start :: "numpy \<Rightarrow> nat \<Rightarrow> (nat \<times> nat) list \<Rightarrow> nat list" where
  "adj_start np n es =
     0 # np_cumsum np (np_bincount np (map ((!) (map fst es)) (np_argsort_stable np (map fst es))) n)"

definition mark :: "bool list \<Rightarrow> nat list \<Rightarrow> bool list" where
  "mark seen vs = foldl (\<lambda>s v. s[v := True]) seen vs"

partial_function (option) bfs_loop ::
  "numpy \<Rightarrow> nat list \<Rightarrow> nat list \<Rightarrow> bool list \<Rightarrow> nat list \<Rightarrow> bool list option" where
  "bfs_loop np adj ds seen frontier =
     (if frontier = [] then Some seen
      else let starts = map ((!) adj) frontier; ends = map (\<lambda>v. adj ! (v + 1)) frontier
           in if list_all2 (=) ends starts then Some seen
              else let idx = concat (map (\<lambda>(a, b). [a..<b]) (filter (\<lambda>(a, b). 0 < b - a) (zip starts ends)));
                       nxt = filter (\<lambda>v. \<not> seen ! v) (np_unique np (map ((!) ds) idx))
                   in bfs_loop np adj ds (mark seen nxt) nxt)"

definition bfs :: "numpy \<Rightarrow> nat \<Rightarrow> nat \<Rightarrow> (nat \<times> nat) list \<Rightarrow> bool list option" where
  "bfs np n entry es =
     bfs_loop np (adj_start np n es) (d_sorted np es) ((replicate n False)[entry := True]) [entry]"

definition count_true :: "bool list \<Rightarrow> nat" where
  "count_true bs = length (filter (\<lambda>b. b) bs)"

record graph_stats =
  gs_deg0_mean :: flt
  gs_deg0_median :: real
  gs_deg0_p5 :: real
  gs_deg0_min :: nat
  gs_out_degree_0 :: nat
  gs_edges_total :: nat
  gs_dangling_edges :: nat
  gs_self_loops :: nat
  gs_in_degree_0 :: nat
  gs_indeg_mean :: flt
  gs_isolated_both_ways :: nat
  gs_reachable :: "nat option"
  gs_edges_scored :: nat
  gs_asymmetric_edges :: nat
  gs_asymmetric_frac :: real
  gs_layer_hist :: "nat list"
  gs_deleted :: nat

record forensics =
  fo_element_count :: nat
  fo_capacity :: nat
  fo_entry_point_id :: int
  fo_header_max_layer :: int
  fo_nodes_examined :: nat
  fo_uncounted_nodes :: int
  fo_graph :: "graph_stats option"

text \<open>
  The statistics of a non-empty graph, given what the search from the entry point reached. The
  fractions the code derives from a count are that count divided by the number of nodes.
\<close>

definition stats_with :: "numpy \<Rightarrow> int \<Rightarrow> node list \<Rightarrow> nat option \<Rightarrow> graph_stats" where
  "stats_with np entry nodes reach =
     (let n = length nodes;
          l0 = map deg0 nodes;
          es = edges_of nodes; good = good_edges nodes;
          unreachable = unreachable_flags np n entry good;
          edge = map (\<lambda>(s, d). s * n + d) good; rev_edge = map (\<lambda>(s, d). d * n + s) good;
          one_way = length (filter (\<lambda>m. \<not> m) (np_isin np rev_edge edge));
          ml = map (\<lambda>nd. nat (max 0 (min (nd_max_layer nd) (int MAX_LAYERS - 1)))) nodes
      in \<lparr>gs_deg0_mean = np_mean np (map (\<lambda>d. Fl (real d)) l0), gs_deg0_median = np_median np (map real l0),
          gs_deg0_p5 = np_percentile np (map real l0) 5, gs_deg0_min = Min (set l0),
          gs_out_degree_0 = length (filter (\<lambda>d. d = 0) l0), gs_edges_total = length es,
          gs_dangling_edges = length (filter (\<lambda>(s, d). n \<le> d) es),
          gs_self_loops = length (filter (\<lambda>(s, d). d = s) es),
          gs_in_degree_0 = count_true unreachable,
          gs_indeg_mean = np_mean np (map (\<lambda>c. Fl (real c)) (np_bincount np (map snd good) n)),
          gs_isolated_both_ways = count_true (map2 (\<lambda>u d. u \<and> d = 0) unreachable l0),
          gs_reachable = reach,
          gs_edges_scored = length edge, gs_asymmetric_edges = one_way,
          gs_asymmetric_frac = (if edge \<noteq> [] then real one_way / real (length edge) else 0),
          gs_layer_hist = map (\<lambda>i. length (filter (\<lambda>l. l = i) ml)) [0..<MAX_LAYERS],
          gs_deleted = sum_list (map nd_is_deleted nodes)\<rparr>)"

text \<open>\<open>None\<close> as a whole would be a search that never ends.\<close>

definition graph_stats_of :: "numpy \<Rightarrow> int \<Rightarrow> node list \<Rightarrow> graph_stats option" where
  "graph_stats_of np entry nodes =
     (if 0 \<le> entry \<and> entry < int (length nodes)
      then map_option (\<lambda>seen. stats_with np entry nodes (Some (count_true seen)))
             (bfs np (length nodes) (nat entry) (good_edges nodes))
      else Some (stats_with np entry nodes None))"

definition analyse :: "numpy \<Rightarrow> byte list \<Rightarrow> forensics option res" where
  "analyse np src =
     bindE (load_index src) (\<lambda>(h, nodes, capacity).
       let n = length nodes;
           mk = (\<lambda>g. \<lparr>fo_element_count = hd_element_count h, fo_capacity = capacity,
             fo_entry_point_id = hd_entry_point_id h, fo_header_max_layer = hd_max_layer h,
             fo_nodes_examined = n, fo_uncounted_nodes = int n - int (hd_element_count h), fo_graph = g\<rparr>)
       in Inr (if n = 0 then Some (mk None)
               else map_option (\<lambda>g. mk (Some g)) (graph_stats_of np (hd_entry_point_id h) nodes)))"

section \<open>The compressed adjacency\<close>

lemma map_insort_key: "map f (insort_key (\<lambda>x. g (f x)) x xs) = insort_key g (f x) (map f xs)"
  by (induction xs) auto

lemma map_sort_key: "map f (sort_key (\<lambda>x. g (f x)) xs) = sort_key g (map f xs)"
  by (induction xs) (simp_all add: map_insort_key)

lemma sort_key_same: "(\<And>x. x \<in> set xs \<Longrightarrow> f x = g x) \<Longrightarrow> sort_key f xs = sort_key g xs"
proof (induction xs)
  case (Cons x xs)
  have "insort_key f x ys = insort_key g x ys" if "\<forall>y \<in> set (x # ys). f y = g y" for ys
    using that by (induction ys) auto
  with Cons show ?case by simp
qed simp

lemma sort_key_index: "map ((!) xs) (sort_key (\<lambda>i. f (xs ! i)) [0..<length xs]) = sort_key f xs"
  by (simp add: map_sort_key map_nth)

lemma sorted_filter_less:
  assumes "sorted (map f xs)" and "i < length xs"
  shows "i < length (filter (\<lambda>x. f x < v) xs) \<longleftrightarrow> f (xs ! i) < (v :: nat)"
  using assms
proof (induction xs arbitrary: i)
  case (Cons x xs)
  show ?case
  proof (cases "f x < v")
    case True
    with Cons show ?thesis by (cases i) auto
  next
    case False
    with Cons.prems have "f x \<le> f ((x # xs) ! i)" "filter (\<lambda>y. f y < v) (x # xs) = []"
      by (cases i; force simp: filter_empty_conv)+
    with False show ?thesis by simp
  qed
qed simp

text \<open>The edges of source \<open>v\<close> are the positions between its start and the next one's.\<close>

lemma sorted_segment:
  assumes "sorted (map f xs)"
  shows "set (map ((!) xs) [length (filter (\<lambda>x. f x < v) xs)..<length (filter (\<lambda>x. f x < Suc v) xs)]) =
    {x \<in> set xs. f x = v}"
proof -
  let ?a = "length (filter (\<lambda>x. f x < v) xs)" and ?b = "length (filter (\<lambda>x. f x < Suc v) xs)"
  have b: "?b \<le> length xs" by simp
  have "i \<in> {?a..<?b} \<longleftrightarrow> i < length xs \<and> f (xs ! i) = v" for i
    using sorted_filter_less [OF assms, of i v] sorted_filter_less [OF assms, of i "Suc v"] b
    using order_less_le_trans [OF _ b, of i] by (cases "i < length xs") auto
  then show ?thesis by (force simp: in_set_conv_nth)
qed

lemma count_list_sum: "(\<Sum>u<v. count_list xs u) = length (filter (\<lambda>x. x < v) xs)" for v :: nat
proof (induction v)
  case (Suc v)
  have "length (filter (\<lambda>x. x < Suc v) xs) = length (filter (\<lambda>x. x < v) xs) + count_list xs v"
    by (induction xs) auto
  with Suc show ?case by simp
qed simp

lemma length_filter_perm: "mset xs = mset ys \<Longrightarrow> length (filter P xs) = length (filter P ys)"
  by (metis mset_filter size_mset)

lemma adj_start_nth:
  assumes np: "numpy_api np" and src: "\<forall>e \<in> set es. fst e < n" and v: "v \<le> n"
  shows "adj_start np n es ! v = length (filter (\<lambda>e. fst e < v) es)"
proof -
  let ?ks = "sort (map fst es)"
  have ks: "set ?ks \<subseteq> {0..<n}" using src by auto
  have "map ((!) (map fst es)) (sort_key ((!) (map fst es)) [0..<length (map fst es)]) = ?ks"
    using sort_key_index [of "map fst es" "\<lambda>x. x"] by simp
  then have adj: "adj_start np n es = 0 # cumsum_from 0 (bincount ?ks n)"
    by (simp add: adj_start_def numpy_api.cumsum [OF np] numpy_api.bincount [OF np] numpy_api.argsort_stable [OF np])
  show ?thesis
  proof (cases v)
    case (Suc u)
    have "take v (bincount ?ks n) = map (count_list ?ks) [0..<v]"
      using v ks by (intro nth_equalityI) (auto simp: length_bincount nth_bincount)
    moreover have "adj_start np n es ! v = sum_list (take v (bincount ?ks n))"
      using v Suc length_bincount [OF ks] by (simp add: adj nth_cumsum_from)
    ultimately have "adj_start np n es ! v = (\<Sum>u\<in>{0..<v}. count_list ?ks u)"
      by (simp only: interv_sum_list_conv_sum_set_nat set_upt)
    also have "\<dots> = length (filter (\<lambda>x. x < v) ?ks)" unfolding atLeast0LessThan by (rule count_list_sum)
    also have "\<dots> = length (filter (\<lambda>x. x < v) (map fst es))" by (rule length_filter_perm) simp
    finally show ?thesis by (simp add: filter_map comp_def)
  qed (simp add: adj)
qed

lemma nth_map_list: "(\<And>i. i \<in> set I \<Longrightarrow> i < length xs) \<Longrightarrow> map ((!) (map f xs)) I = map f (map ((!) xs) I)"
  by (induction I) auto

lemma d_sorted_eq: 
  assumes np: "numpy_api np"
  shows "d_sorted np es = map snd (sort_key fst es)"
proof -
  let ?I = "sort_key ((!) (map fst es)) [0..<length es]"
  have "map ((!) (map snd es)) ?I = map snd (map ((!) es) ?I)"
    by (rule nth_map_list) simp
  moreover have "?I = sort_key (\<lambda>i. fst (es ! i)) [0..<length es]"
    by (rule sort_key_same) simp
  ultimately show ?thesis
    by (simp only: d_sorted_def numpy_api.argsort_stable [OF np] length_map sort_key_index)
qed

lemma segment_targets:
  assumes np: "numpy_api np" and src: "\<forall>e \<in> set es. fst e < n" and v: "v < n"
  shows "set (map ((!) (d_sorted np es)) [adj_start np n es ! v..<adj_start np n es ! (v + 1)]) = {d. (v, d) \<in> set es}"
proof -
  let ?se = "sort_key fst es"
  let ?I = "[length (filter (\<lambda>e. fst e < v) ?se)..<length (filter (\<lambda>e. fst e < Suc v) ?se)]"
  have len: "length (filter (\<lambda>e. fst e < w) es) = length (filter (\<lambda>e. fst e < w) ?se)" for w
    by (rule length_filter_perm) simp
  have "adj_start np n es ! v = length (filter (\<lambda>e. fst e < v) ?se)"
    "adj_start np n es ! (v + 1) = length (filter (\<lambda>e. fst e < Suc v) ?se)"
    using adj_start_nth [OF np src, of v] adj_start_nth [OF np src, of "v + 1"] v len [of v] len [of "Suc v"]
    by simp_all
  then have "set (map ((!) (d_sorted np es)) [adj_start np n es ! v..<adj_start np n es ! (v + 1)]) =
      set (map ((!) (map snd ?se)) ?I)"
    by (simp only: d_sorted_eq [OF np])
  also have "map ((!) (map snd ?se)) ?I = map snd (map ((!) ?se) ?I)"
    by (rule nth_map_list) (use length_filter_le [of "\<lambda>e. fst e < Suc v" ?se] in simp)
  also have "set \<dots> = snd ` {x \<in> set ?se. fst x = v}"
    by (simp only: set_map sorted_segment [OF sorted_sort_key, of fst es v, unfolded set_map])
  also have "\<dots> = {d. (v, d) \<in> set es}" by force
  finally show ?thesis .
qed

section \<open>The search visits exactly what is reachable\<close>

lemma mark_nth:
  assumes "\<forall>v \<in> set vs. v < length seen"
  shows "length (mark seen vs) = length seen" and "v < length seen \<Longrightarrow> mark seen vs ! v \<longleftrightarrow> seen ! v \<or> v \<in> set vs"
proof -
  have "length (mark seen vs) = length seen \<and> (v < length seen \<longrightarrow> (mark seen vs ! v \<longleftrightarrow> seen ! v \<or> v \<in> set vs))"
    using assms unfolding mark_def by (induction vs arbitrary: seen) (auto simp: nth_list_update)
  then show "length (mark seen vs) = length seen" and "v < length seen \<Longrightarrow> mark seen vs ! v \<longleftrightarrow> seen ! v \<or> v \<in> set vs"
    by auto
qed

definition seen_set :: "bool list \<Rightarrow> nat set" where
  "seen_set seen = {v. v < length seen \<and> seen ! v}"

definition succs :: "(nat \<times> nat) list \<Rightarrow> nat set \<Rightarrow> nat set" where
  "succs es V = {d. \<exists>v \<in> V. (v, d) \<in> set es}"

definition edges_in :: "nat \<Rightarrow> (nat \<times> nat) list \<Rightarrow> bool" where
  "edges_in n es \<longleftrightarrow> (\<forall>e \<in> set es. fst e < n \<and> snd e < n)"

definition bfs_inv :: "nat \<Rightarrow> (nat \<times> nat) list \<Rightarrow> nat \<Rightarrow> bool list \<Rightarrow> nat list \<Rightarrow> bool" where
  "bfs_inv n es entry seen frontier \<longleftrightarrow>
     length seen = n \<and> set frontier \<subseteq> seen_set seen \<and> entry \<in> seen_set seen \<and>
     seen_set seen \<subseteq> (set es)\<^sup>* `` {entry} \<and> succs es (seen_set seen - set frontier) \<subseteq> seen_set seen"

lemma bfs_done:
  assumes "bfs_inv n es entry seen frontier" and "succs es (set frontier) \<subseteq> seen_set seen"
  shows "seen_set seen = (set es)\<^sup>* `` {entry}"
proof
  show "(set es)\<^sup>* `` {entry} \<subseteq> seen_set seen"
  proof
    fix v assume "v \<in> (set es)\<^sup>* `` {entry}"
    then have "(entry, v) \<in> (set es)\<^sup>*" by simp
    then show "v \<in> seen_set seen"
    proof (induction rule: rtrancl_induct)
      case (step y z)
      then have "z \<in> succs es (set frontier) \<or> z \<in> succs es (seen_set seen - set frontier)"
        by (auto simp: succs_def)
      with assms show ?case by (auto simp: bfs_inv_def)
    qed (use assms(1) in \<open>simp add: bfs_inv_def\<close>)
  qed
qed (use assms(1) in \<open>simp add: bfs_inv_def\<close>)

lemma bfs_inv_step:
  assumes inv: "bfs_inv n es entry seen frontier" and nx: "set nx = succs es (set frontier) - seen_set seen"
    and seen': "length seen' = n" "seen_set seen' = seen_set seen \<union> succs es (set frontier)"
  shows "bfs_inv n es entry seen' nx"
proof -
  have reach: "succs es (set frontier) \<subseteq> (set es)\<^sup>* `` {entry}"
    using inv by (auto simp: succs_def bfs_inv_def intro: rtrancl.rtrancl_into_rtrancl)
  have "seen_set seen' - set nx = seen_set seen" using nx seen'(2) by auto
  moreover have "succs es (seen_set seen) = succs es (seen_set seen - set frontier) \<union> succs es (set frontier)"
    using inv by (auto simp: succs_def bfs_inv_def)
  ultimately show ?thesis
    using inv reach nx seen' by (auto simp: bfs_inv_def)
qed

text \<open>The targets one round collects.\<close>

lemma round_targets:
  assumes np: "numpy_api np" and es: "edges_in n es" and fr: "set frontier \<subseteq> {..<n}"
  defines "starts \<equiv> map ((!) (adj_start np n es)) frontier"
    and "ends \<equiv> map (\<lambda>v. adj_start np n es ! (v + 1)) frontier"
  shows "set (map ((!) (d_sorted np es)) (concat (map (\<lambda>(a, b). [a..<b]) (filter (\<lambda>(a, b). 0 < b - a) (zip starts ends))))) =
    succs es (set frontier)"
proof -
  have "concat (map (\<lambda>(a, b). [a..<b]) (filter (\<lambda>(a, b). 0 < b - a) ps)) = concat (map (\<lambda>(a, b). [a..<b]) ps)" for ps :: "(nat \<times> nat) list"
    by (induction ps) auto
  then have "set (map ((!) (d_sorted np es)) (concat (map (\<lambda>(a, b). [a..<b]) (filter (\<lambda>(a, b). 0 < b - a) (zip starts ends))))) =
      (\<Union>v \<in> set frontier. set (map ((!) (d_sorted np es)) [adj_start np n es ! v..<adj_start np n es ! (v + 1)]))"
    by (simp add: starts_def ends_def zip_map_map zip_same_conv_map image_UN)
  also have "\<dots> = (\<Union>v \<in> set frontier. {d. (v, d) \<in> set es})"
    using segment_targets [OF np, of es n] es fr by (intro SUP_cong) (auto simp: edges_in_def)
  finally show ?thesis by (auto simp: succs_def)
qed

lemma bfs_loop_correct:
  assumes np: "numpy_api np" and es: "edges_in n es" and "bfs_inv n es entry seen frontier"
  shows "\<exists>seen'. bfs_loop np (adj_start np n es) (d_sorted np es) seen frontier = Some seen' \<and>
    length seen' = n \<and> seen_set seen' = (set es)\<^sup>* `` {entry}"
  using assms(3)
proof (induction "n - card (seen_set seen)" arbitrary: seen frontier rule: less_induct)
  case less
  note inv = less.prems
  let ?adj = "adj_start np n es" and ?ds = "d_sorted np es"
  let ?starts = "map ((!) ?adj) frontier" and ?ends = "map (\<lambda>v. ?adj ! (v + 1)) frontier"
  let ?idx = "concat (map (\<lambda>(a, b). [a..<b]) (filter (\<lambda>(a, b). 0 < b - a) (zip ?starts ?ends)))"
  let ?nxt = "filter (\<lambda>v. \<not> seen ! v) (np_unique np (map ((!) ?ds) ?idx))"
  have fr: "set frontier \<subseteq> {..<n}" using inv by (auto simp: bfs_inv_def seen_set_def)
  note targets = round_targets [OF np es fr]
  have "set (np_unique np (map ((!) ?ds) ?idx)) = succs es (set frontier)"
    by (simp only: numpy_api.unique [OF np] targets sorted_list_of_set.set_sorted_key_list_of_set [OF finite_set, of "map ((!) ?ds) ?idx", unfolded targets])
  then have nxt: "set ?nxt = succs es (set frontier) - seen_set seen"
    using es inv by (auto simp: seen_set_def bfs_inv_def succs_def edges_in_def)
  then have in_n: "\<forall>v \<in> set ?nxt. v < length seen"
    using es inv by (auto simp: succs_def edges_in_def bfs_inv_def)
  have S': "seen_set (mark seen ?nxt) = seen_set seen \<union> succs es (set frontier)"
    using mark_nth [OF in_n] in_n nxt by (auto simp: seen_set_def)
  show ?case
  proof (cases "succs es (set frontier) \<subseteq> seen_set seen")
    case True
    then have "?nxt = []" using nxt by (metis Diff_eq_empty_iff set_empty)
    moreover have "length seen = n" using inv by (simp add: bfs_inv_def)
    ultimately show ?thesis
      using bfs_done [OF inv True]
      by (subst bfs_loop.simps) (simp add: Let_def mark_def bfs_loop.simps [where frontier = "[]"])
  next
    case False
    then have ne: "frontier \<noteq> []" and new: "seen_set seen \<subset> seen_set (mark seen ?nxt)"
      using S' by (auto simp: succs_def)
    have "\<not> list_all2 (=) ?ends ?starts"
    proof
      assume "list_all2 (=) ?ends ?starts"
      then have eq: "?ends = ?starts" unfolding list_all2_eq .
      have "filter (\<lambda>(a, b). 0 < b - a) (zip xs xs) = []" for xs :: "nat list" by (induction xs) auto
      then have "?idx = []" unfolding eq by (simp only: list.map concat.simps)
      then have "succs es (set frontier) = {}" using targets by (simp only: list.map list.set(1))
      then show False using False by simp
    qed
    with ne have step: "bfs_loop np ?adj ?ds seen frontier = bfs_loop np ?adj ?ds (mark seen ?nxt) ?nxt"
      by (subst bfs_loop.simps) (simp add: Let_def)
    have inv': "bfs_inv n es entry (mark seen ?nxt) ?nxt"
      using bfs_inv_step [OF inv nxt _ S'] mark_nth(1) [OF in_n] inv unfolding bfs_inv_def by blast
    have "card (seen_set seen) < card (seen_set (mark seen ?nxt))" "card (seen_set (mark seen ?nxt)) \<le> n"
      using new inv' card_mono [of "{..<n}" "seen_set (mark seen ?nxt)"]
      by (auto simp: seen_set_def bfs_inv_def intro!: psubset_card_mono)
    then have "n - card (seen_set (mark seen ?nxt)) < n - card (seen_set seen)" by linarith
    from less.hyps [OF this inv'] show ?thesis unfolding step .
  qed
qed

lemma bfs_correct:
  assumes "numpy_api np" and "edges_in n es" and "entry < n"
  shows "\<exists>seen. bfs np n entry es = Some seen \<and> length seen = n \<and> seen_set seen = (set es)\<^sup>* `` {entry}"
proof -
  have "bfs_inv n es entry ((replicate n False)[entry := True]) [entry]"
    using assms(3) by (auto simp: bfs_inv_def seen_set_def succs_def nth_list_update split: if_splits)
  from bfs_loop_correct [OF assms(1,2) this] show ?thesis by (simp add: bfs_def)
qed

section \<open>What the statistics mean\<close>

lemma count_true_card: "count_true bs = card {i. i < length bs \<and> bs ! i}"
  by (simp add: count_true_def length_filter_conv_card)

lemma edges_in_good: "edges_in (length nodes) (good_edges nodes)"
  by (auto simp: edges_in_def good_edges_def edges_of_def)

lemma unreachable_flags_nth:
  assumes np: "numpy_api np" and es: "edges_in n es"
  shows "length (unreachable_flags np n entry es) = n"
    and "v < n \<Longrightarrow> unreachable_flags np n entry es ! v \<longleftrightarrow> int v \<noteq> entry \<and> v \<notin> snd ` set es"
proof -
  have sub: "set (map snd es) \<subseteq> {0..<n}" using es by (auto simp: edges_in_def)
  note len = length_bincount [OF sub]
  show "length (unreachable_flags np n entry es) = n"
    by (simp add: unreachable_flags_def Let_def numpy_api.bincount [OF np] len)
  show "unreachable_flags np n entry es ! v \<longleftrightarrow> int v \<noteq> entry \<and> v \<notin> snd ` set es" if "v < n"
  proof -
    have "bincount (map snd es) n ! v = 0 \<longleftrightarrow> v \<notin> snd ` set es"
      using nth_bincount [OF sub that] by (simp add: count_list_0_iff)
    with that show ?thesis
      by (auto simp: unreachable_flags_def Let_def numpy_api.bincount [OF np] len nth_list_update split: if_splits)
  qed
qed

lemma isin_reverse:
  assumes "edges_in n es"
  shows "map (\<lambda>k. k \<in> set (map (\<lambda>(s, d). s * n + d) es)) (map (\<lambda>(s, d). d * n + s) es) = map (\<lambda>(s, d). (d, s) \<in> set es) es"
proof -
  have "d * n + s \<in> (\<lambda>(s, d). s * n + d) ` set es \<longleftrightarrow> (d, s) \<in> set es" if "s < n" "d < n" for s d
  proof
    assume "d * n + s \<in> (\<lambda>(s, d). s * n + d) ` set es"
    then obtain s' d' where e: "(s', d') \<in> set es" "d * n + s = s' * n + d'" by auto
    then have "d' < n" using assms by (auto simp: edges_in_def)
    have split: "(a * n + b) div n = a" "(a * n + b) mod n = b" if "b < n" for a b
      using that by simp_all
    have "d = s'" "s = d'"
      using arg_cong [OF e(2), of "\<lambda>x. x div n"] arg_cong [OF e(2), of "\<lambda>x. x mod n"]
      by (simp_all only: split [OF \<open>s < n\<close>] split [OF \<open>d' < n\<close>])
    with e(1) show "(d, s) \<in> set es" by simp
  qed force
  then have "(case e of (s, d) \<Rightarrow> d * n + s) \<in> set (map (\<lambda>(s, d). s * n + d) es) \<longleftrightarrow> (case e of (s, d) \<Rightarrow> (d, s) \<in> set es)"
    if "e \<in> set es" for e
    using that assms by (cases e) (simp only: prod.case set_map edges_in_def, fastforce)
  then show ?thesis unfolding map_map comp_def by (intro map_cong refl)
qed

definition stats_ok :: "int \<Rightarrow> node list \<Rightarrow> graph_stats \<Rightarrow> bool" where
  "stats_ok entry nodes g \<longleftrightarrow>
     (let n = length nodes; es = set (good_edges nodes)
      in gs_in_degree_0 g = card {v. v < n \<and> int v \<noteq> entry \<and> v \<notin> snd ` es} \<and>
         gs_isolated_both_ways g = card {v. v < n \<and> int v \<noteq> entry \<and> v \<notin> snd ` es \<and> deg0 (nodes ! v) = 0} \<and>
         gs_edges_scored g + gs_dangling_edges g = gs_edges_total g \<and>
         gs_asymmetric_edges g = length (filter (\<lambda>(s, d). (d, s) \<notin> es) (good_edges nodes)) \<and>
         (case gs_reachable g of
            None \<Rightarrow> \<not> (0 \<le> entry \<and> entry < int n)
          | Some r \<Rightarrow> 0 \<le> entry \<and> entry < int n \<and> r = card (es\<^sup>* `` {nat entry}) \<and> gs_in_degree_0 g + r \<le> n))"

lemma reach_in_range:
  assumes "edges_in n es" and "entry < n"
  shows "(set es)\<^sup>* `` {entry} \<subseteq> insert entry (snd ` set es)" and "(set es)\<^sup>* `` {entry} \<subseteq> {..<n}"
proof -
  show *: "(set es)\<^sup>* `` {entry} \<subseteq> insert entry (snd ` set es)"
  proof
    fix v assume "v \<in> (set es)\<^sup>* `` {entry}"
    then have "(entry, v) \<in> (set es)\<^sup>*" by simp
    then show "v \<in> insert entry (snd ` set es)" by (cases rule: rtranclE) force+
  qed
  show "(set es)\<^sup>* `` {entry} \<subseteq> {..<n}" using * assms by (fastforce simp: edges_in_def)
qed

lemma stats_with_counts:
  fixes entry nodes
  assumes np: "numpy_api np"
  defines "g \<equiv> \<lambda>reach. stats_with np entry nodes reach"
  shows "gs_in_degree_0 (g reach) = card {v. v < length nodes \<and> int v \<noteq> entry \<and> v \<notin> snd ` set (good_edges nodes)}"
    and "gs_isolated_both_ways (g reach) =
      card {v. v < length nodes \<and> int v \<noteq> entry \<and> v \<notin> snd ` set (good_edges nodes) \<and> deg0 (nodes ! v) = 0}"
    and "gs_edges_scored (g reach) + gs_dangling_edges (g reach) = gs_edges_total (g reach)"
    and "gs_asymmetric_edges (g reach) = length (filter (\<lambda>(s, d). (d, s) \<notin> set (good_edges nodes)) (good_edges nodes))"
    and "gs_reachable (g reach) = reach"
proof -
  let ?n = "length nodes" and ?es = "good_edges nodes"
  let ?fl = "unreachable_flags np ?n entry ?es"
  note fl = unreachable_flags_nth [OF np edges_in_good [of nodes], where entry = entry]
  have "count_true ?fl = card {v. v < ?n \<and> int v \<noteq> entry \<and> v \<notin> snd ` set ?es}"
    unfolding count_true_card using fl by (intro arg_cong [of _ _ card]) auto
  then show "gs_in_degree_0 (g reach) = card {v. v < ?n \<and> int v \<noteq> entry \<and> v \<notin> snd ` set ?es}"
    by (simp add: g_def stats_with_def Let_def)
  have "count_true (map2 (\<lambda>u d. u \<and> d = 0) ?fl (map deg0 nodes)) =
      card {v. v < ?n \<and> int v \<noteq> entry \<and> v \<notin> snd ` set ?es \<and> deg0 (nodes ! v) = 0}"
    unfolding count_true_card using fl by (intro arg_cong [of _ _ card] Collect_cong) (simp cong: conj_cong)
  then show "gs_isolated_both_ways (g reach) =
      card {v. v < ?n \<and> int v \<noteq> entry \<and> v \<notin> snd ` set ?es \<and> deg0 (nodes ! v) = 0}"
    by (simp add: g_def stats_with_def Let_def)
  have "length ?es + length (filter (\<lambda>(s, d). ?n \<le> d) (edges_of nodes)) = length (edges_of nodes)"
    unfolding good_edges_def using sum_length_filter_compl [of "\<lambda>(s, d). ?n \<le> d" "edges_of nodes"]
    by (simp add: case_prod_unfold add.commute)
  then show "gs_edges_scored (g reach) + gs_dangling_edges (g reach) = gs_edges_total (g reach)"
    by (simp add: g_def stats_with_def Let_def)
  have "length (filter (\<lambda>m. \<not> m) (np_isin np (map (\<lambda>(s, d). d * ?n + s) ?es) (map (\<lambda>(s, d). s * ?n + d) ?es))) =
      length (filter (\<lambda>(s, d). (d, s) \<notin> set ?es) ?es)"
    unfolding numpy_api.isin [OF np] isin_reverse [OF edges_in_good]
    by (simp add: filter_map comp_def case_prod_unfold)
  then show "gs_asymmetric_edges (g reach) = length (filter (\<lambda>(s, d). (d, s) \<notin> set ?es) ?es)"
    by (simp add: g_def stats_with_def Let_def)
qed (simp add: g_def stats_with_def Let_def)

lemma graph_stats_of_ok:
  assumes np: "numpy_api np"
  shows "\<exists>g. graph_stats_of np entry nodes = Some g \<and> stats_ok entry nodes g"
proof (cases "0 \<le> entry \<and> entry < int (length nodes)")
  case True
  let ?n = "length nodes" and ?es = "good_edges nodes"
  let ?R = "(set ?es)\<^sup>* `` {nat entry}" and ?U = "{v. v < ?n \<and> int v \<noteq> entry \<and> v \<notin> snd ` set ?es}"
  have lt: "nat entry < ?n" using True by auto
  obtain seen where seen: "bfs np ?n (nat entry) ?es = Some seen" "length seen = ?n" "seen_set seen = ?R"
    using bfs_correct [OF np edges_in_good lt] by blast
  have r: "count_true seen = card ?R" using seen by (simp add: count_true_card seen_set_def)
  have "?U \<inter> ?R = {}" "?U \<union> ?R \<subseteq> {..<?n}"
    using reach_in_range [OF edges_in_good lt] True by auto
  moreover have "finite ?U" "finite ?R"
    using finite_subset [OF reach_in_range(2) [OF edges_in_good lt]] by auto
  ultimately have le: "card ?U + card ?R \<le> ?n"
    using card_mono [of "{..<?n}" "?U \<union> ?R"] card_Un_disjoint [of ?U ?R] by simp
  have "graph_stats_of np entry nodes = Some (stats_with np entry nodes (Some (card ?R)))"
    unfolding graph_stats_of_def if_P [OF True] seen(1) option.map r ..
  moreover have "stats_ok entry nodes (stats_with np entry nodes (Some (card ?R)))"
    unfolding stats_ok_def Let_def stats_with_counts [OF np] option.case using True le by (intro conjI refl) blast+
  ultimately show ?thesis by blast
next
  case False
  then have "graph_stats_of np entry nodes = Some (stats_with np entry nodes None)"
    unfolding graph_stats_of_def by (rule if_not_P)
  moreover have "stats_ok entry nodes (stats_with np entry nodes None)"
    unfolding stats_ok_def Let_def stats_with_counts [OF np] option.case by (intro conjI refl False)
  ultimately show ?thesis by blast
qed

section \<open>Decoding inverts the layout\<close>

text \<open>The bytes the index writes: the layout of \<^verbatim>\<open>HEADER_DTYPE\<close> and \<^verbatim>\<open>NODE_DTYPE\<close>.\<close>

definition encode_header :: "header \<Rightarrow> byte list" where
  "encode_header h = enc_u32 (hd_magic h) @ enc_u32 (hd_element_count h) @ enc_i32 (hd_entry_point_id h) @
     enc_i32 (hd_max_layer h) @ replicate 48 0"

definition encode_node :: "node \<Rightarrow> byte list" where
  "encode_node nd = enc_u32 (nd_id nd) @ enc_i32 (nd_max_layer nd) @ word_of_nat (nd_is_deleted nd) # replicate 3 0 @
     enc_u32s (nd_vector nd) @ concat (map enc_u32s (nd_neighbors nd)) @ concat (map enc_i32 (nd_counts nd)) @ replicate 4 0"

definition header_ok :: "header \<Rightarrow> bool" where
  "header_ok h \<longleftrightarrow> hd_magic h = NANODB_MAGIC \<and> is_u32 (hd_element_count h) \<and> is_i32 (hd_entry_point_id h) \<and> is_i32 (hd_max_layer h)"

definition node_ok :: "node \<Rightarrow> bool" where
  "node_ok nd \<longleftrightarrow> is_u32 (nd_id nd) \<and> is_i32 (nd_max_layer nd) \<and> nd_is_deleted nd < 256 \<and>
     length (nd_vector nd) = VECTOR_DIM \<and> list_all is_u32 (nd_vector nd) \<and>
     length (nd_neighbors nd) = MAX_LAYERS \<and> list_all (\<lambda>r. length r = M_MAX0 \<and> list_all is_u32 r) (nd_neighbors nd) \<and>
     length (nd_counts nd) = MAX_LAYERS \<and> list_all is_i32 (nd_counts nd)"

lemma decode_encode_header: "header_ok h \<Longrightarrow> decode_header (encode_header h) = h"
  by (cases h) (simp add: decode_header_def encode_header_def header_ok_def is_u32_def NANODB_MAGIC_def
      u32_enc [unfolded is_u32_def])

lemma length_encode_header: "length (encode_header h) = HEADER_SIZE"
  by (simp add: encode_header_def HEADER_SIZE_def)

lemma length_encode_node:
  assumes "node_ok nd"
  shows "length (encode_node nd) = NODE_SIZE"
proof -
  have "sum_list (map (\<lambda>r. length (enc_u32s r)) (nd_neighbors nd)) = sum_list (map (\<lambda>_. 128) (nd_neighbors nd))"
    using assms by (intro arg_cong [of _ _ sum_list] map_cong) (auto simp: node_ok_def list_all_iff M_MAX0_def)
  with assms show ?thesis
    by (simp add: encode_node_def length_concat comp_def sum_list_triv node_ok_def layout_defs)
qed

lemma drop_encode_node:
  assumes "node_ok nd"
  shows "drop 12 (encode_node nd @ rest) = enc_u32s (nd_vector nd) @ concat (map enc_u32s (nd_neighbors nd)) @
      concat (map enc_i32 (nd_counts nd)) @ replicate 4 0 @ rest"
    and "drop (524 + k) (encode_node nd @ rest) = drop k (concat (map enc_u32s (nd_neighbors nd)) @
      concat (map enc_i32 (nd_counts nd)) @ replicate 4 0 @ rest)"
proof -
  show d: "drop 12 (encode_node nd @ rest) = enc_u32s (nd_vector nd) @ concat (map enc_u32s (nd_neighbors nd)) @
      concat (map enc_i32 (nd_counts nd)) @ replicate 4 0 @ rest"
    by (simp add: encode_node_def)
  have len: "length (nd_vector nd) = 128" using assms by (simp add: node_ok_def VECTOR_DIM_def)
  have "drop (524 + k) xs = drop k (drop 512 (drop 12 xs))" for xs :: "byte list"
    by (simp add: add.commute)
  then have "drop (524 + k) (encode_node nd @ rest) = drop k (drop 512 (drop 12 (encode_node nd @ rest)))" .
  also have "drop 512 (drop 12 (encode_node nd @ rest)) = concat (map enc_u32s (nd_neighbors nd)) @
      concat (map enc_i32 (nd_counts nd)) @ replicate 4 0 @ rest"
    unfolding d by (simp add: len)
  finally show "drop (524 + k) (encode_node nd @ rest) = drop k (concat (map enc_u32s (nd_neighbors nd)) @
      concat (map enc_i32 (nd_counts nd)) @ replicate 4 0 @ rest)" .
qed

lemma decode_encode_node:
  assumes ok: "node_ok nd"
  shows "decode_node (encode_node nd @ rest) = nd"
proof -
  obtain r0 r1 r2 r3 where nb: "nd_neighbors nd = [r0, r1, r2, r3]"
    using ok by (auto simp: node_ok_def MAX_LAYERS_def numeral_eq_Suc length_Suc_conv)
  have rows: "length r = M_MAX0 \<and> list_all is_u32 r" if "r \<in> set (nd_neighbors nd)" for r
    using ok that by (auto simp: node_ok_def list_all_iff)
  have len: "length r0 = 32" "length r1 = 32" "length r2 = 32" "length r3 = 32"
    using rows by (auto simp: nb M_MAX0_def)
  have "map (\<lambda>l. u32s M_MAX0 (drop (524 + 4 * M_MAX0 * l) (encode_node nd @ rest))) [0..<MAX_LAYERS] = nd_neighbors nd"
    unfolding drop_encode_node(2) [OF ok] using rows
    by (simp add: nb MAX_LAYERS_def M_MAX0_def len upt_rec)
  moreover have "map i32_of (u32s MAX_LAYERS (drop 1036 (encode_node nd @ rest))) = nd_counts nd"
    using drop_encode_node(2) [OF ok, of 512 rest] ok by (simp add: nb len node_ok_def)
  moreover have "u32s VECTOR_DIM (drop 12 (encode_node nd @ rest)) = nd_vector nd"
    unfolding drop_encode_node(1) [OF ok] using ok by (simp add: node_ok_def)
  moreover have "u32 (encode_node nd @ rest) = nd_id nd" "i32 (drop 4 (encode_node nd @ rest)) = nd_max_layer nd"
    "unat ((encode_node nd @ rest) ! 8) = nd_is_deleted nd"
    using ok by (simp_all add: encode_node_def node_ok_def unat_of_nat nth_append)
  ultimately show ?thesis by (cases nd) (simp add: decode_node_def)
qed

text \<open>The untouched part of the pre-allocated file: zero bytes decode to an unwritten node.\<close>

lemma zero_unwritten: "\<not> written (decode_node (replicate NODE_SIZE 0))"
  by (auto simp: written_def decode_node_def u32s_zero list_ex_iff f32_nonzero_def NO_NEIGHBOR_def)

lemma extent_of_padded:
  assumes "nodes = [] \<or> written (last nodes)" and "\<not> written z"
  shows "extent_of (nodes @ replicate k z) = length nodes"
proof -
  let ?P = "\<lambda>i. written ((nodes @ replicate k z) ! i)"
  have "filter ?P [0..<length (nodes @ replicate k z)] = filter (\<lambda>i. written (nodes ! i)) [0..<length nodes]"
  proof -
    have "[0..<length (nodes @ replicate k z)] = [0..<length nodes] @ [length nodes..<length nodes + k]"
      using upt_add_eq_append [of 0 "length nodes" k] by simp
    moreover have "filter ?P [length nodes..<length nodes + k] = []"
      using assms(2) by (auto simp: filter_empty_conv nth_append)
    moreover have "filter ?P [0..<length nodes] = filter (\<lambda>i. written (nodes ! i)) [0..<length nodes]"
      by (rule filter_cong) (auto simp: nth_append)
    ultimately show ?thesis by simp
  qed
  moreover have "filter (\<lambda>i. written (nodes ! i)) [0..<length nodes] =
      filter (\<lambda>i. written (nodes ! i)) [0..<length nodes - 1] @ [length nodes - 1]" if "nodes \<noteq> []"
  proof -
    have "[0..<length nodes] = [0..<length nodes - 1] @ [length nodes - 1]"
      using that by (metis Suc_pred' length_greater_0_conv upt_Suc_append zero_le)
    then show ?thesis using assms(1) that by (simp add: last_conv_nth)
  qed
  ultimately show ?thesis by (cases "nodes = []") (simp_all add: extent_of_def Let_def)
qed

lemma load_index_encoded:
  assumes h: "header_ok h" and ok: "list_all node_ok nodes" and last: "nodes = [] \<or> written (last nodes)"
    and rest: "length rest < NODE_SIZE"
  shows "load_index (encode_header h @ concat (map encode_node nodes) @ replicate (k * NODE_SIZE) 0 @ rest) =
    Inr (h, nodes, length nodes + k)"
proof -
  let ?z = "replicate NODE_SIZE (0 :: byte)"
  let ?bs = "map encode_node nodes @ replicate k ?z"
  let ?raw = "encode_header h @ concat (map encode_node nodes) @ replicate (k * NODE_SIZE) 0 @ rest"
  have zeros: "concat (replicate m ?z) = replicate (m * NODE_SIZE) 0" for m
    by (induction m) (simp_all add: replicate_add)
  have raw: "?raw = encode_header h @ concat ?bs @ rest" by (simp add: zeros)
  have blocks: "\<forall>b \<in> set ?bs. length b = NODE_SIZE"
    using ok length_encode_node by (auto simp: list_all_iff)
  then have len: "length (concat ?bs) = length ?bs * NODE_SIZE" by (rule length_concat_uniform)
  have cap: "(length ?raw - HEADER_SIZE) div NODE_SIZE = length ?bs"
    unfolding raw using rest len by (simp add: length_encode_header div_mult_self4 del: concat_append)
  have "decode_node (take NODE_SIZE (drop (HEADER_SIZE + i * NODE_SIZE) ?raw)) = (nodes @ replicate k (decode_node ?z)) ! i"
    if "i < length ?bs" for i
  proof -
    have "drop (HEADER_SIZE + i * NODE_SIZE) ?raw = drop (i * NODE_SIZE) (concat ?bs @ rest)"
      unfolding raw using length_encode_header [of h] by (simp add: drop_append)
    then have "take NODE_SIZE (drop (HEADER_SIZE + i * NODE_SIZE) ?raw) = ?bs ! i"
      using take_drop_concat [OF blocks that] by simp
    then show ?thesis
      using that ok decode_encode_node [of _ "[]"] by (auto simp: nth_append list_all_iff)
  qed
  then have nodes: "map (\<lambda>i. decode_node (take NODE_SIZE (drop (HEADER_SIZE + i * NODE_SIZE) ?raw))) [0..<length ?bs] =
      nodes @ replicate k (decode_node ?z)"
    by (intro nth_equalityI) auto
  have hdr: "take HEADER_SIZE ?raw = encode_header h" using length_encode_header [of h] by simp
  have "\<not> length ?raw < HEADER_SIZE" using length_encode_header [of h] by simp
  then show ?thesis
    unfolding load_index_def Let_def cap nodes hdr decode_encode_header [OF h] extent_of_padded [OF last zero_unwritten]
    using h by (simp add: header_ok_def)
qed

text \<open>
  C22. Decoding inverts the file layout and finds the written extent by itself: from a file that
  holds a header, any number of nodes and the zero-filled rest of the pre-allocated space,
  \<^verbatim>\<open>load_index\<close> returns exactly that header, exactly those nodes and the number of slots, whatever
  the header's element count says. A node that was written before the counter was bumped is
  therefore never lost to the analysis.
\<close>

theorem load_index_recovers:
  assumes h: "header_ok h" and ok: "list_all node_ok nodes" and last: "nodes = [] \<or> written (last nodes)"
    and rest: "length rest < NODE_SIZE"
  shows "load_index (encode_header h @ concat (map encode_node nodes) @ replicate (k * NODE_SIZE) 0 @ rest) =
    Inr (h, nodes, length nodes + k)"
  using assms by (rule load_index_encoded)

text \<open>Two nodes; the first links to the second on layer 1 only, and the header has counted one of them.\<close>

definition demo_node :: "int list \<Rightarrow> nat \<Rightarrow> node" where
  "demo_node counts target = \<lparr>nd_id = 0, nd_max_layer = 1, nd_is_deleted = 0, nd_vector = replicate VECTOR_DIM 0,
     nd_neighbors = [replicate M_MAX0 NO_NEIGHBOR, target # replicate 31 NO_NEIGHBOR, replicate M_MAX0 NO_NEIGHBOR,
       replicate M_MAX0 NO_NEIGHBOR], nd_counts = counts\<rparr>"

definition demo_nodes :: "node list" where
  "demo_nodes = [demo_node [0, 1, 0, 0] 1, demo_node [0, 0, 0, 0] 0]"

definition demo_header :: header where
  "demo_header = \<lparr>hd_magic = NANODB_MAGIC, hd_element_count = 1, hd_entry_point_id = 0, hd_max_layer = 1\<rparr>"

lemma demo_file_ok: "header_ok demo_header" "list_all node_ok demo_nodes" "written (last demo_nodes)"
  by (simp_all add: header_ok_def demo_header_def demo_nodes_def demo_node_def node_ok_def written_def is_u32_def is_i32_def
      layout_defs NO_NEIGHBOR_def list_all_iff list_ex_iff)

theorem load_index_recovers_witness:
  "load_index (encode_header demo_header @ concat (map encode_node demo_nodes) @ replicate (3 * NODE_SIZE) 0 @ [1, 2]) =
     Inr (demo_header, demo_nodes, 5)"
  using load_index_recovers [OF demo_file_ok(1,2), of "[1, 2]" 3] demo_file_ok(3)
  by (simp add: NODE_SIZE_def) (simp add: demo_nodes_def)

text \<open>
  C23. The forensics of every readable index ends and means what it says: the search from the entry
  point always terminates and counts exactly the nodes some path of stored links reaches; a node is
  counted as invisible exactly when no stored link points to it and it is not the entry, so it is
  never among the reached ones; every edge is either scored or dangling; and an edge is
  asymmetric exactly when its reverse is not stored.
\<close>

theorem analyse_sound:
  assumes np: "numpy_api np" and l: "load_index src = Inr (h, nodes, capacity)"
  shows "\<exists>fo. analyse np src = Inr (Some fo) \<and> fo_nodes_examined fo = length nodes \<and>
    fo_uncounted_nodes fo = int (length nodes) - int (hd_element_count h) \<and>
    (case fo_graph fo of None \<Rightarrow> nodes = [] | Some g \<Rightarrow> stats_ok (hd_entry_point_id h) nodes g)"
proof (cases "nodes = []")
  case False
  obtain g where g: "graph_stats_of np (hd_entry_point_id h) nodes = Some g" "stats_ok (hd_entry_point_id h) nodes g"
    using graph_stats_of_ok [OF np] by blast
  with False show ?thesis by (simp add: analyse_def l Let_def)
qed (simp add: analyse_def l)

lemma demo_load:
  "load_index (encode_header demo_header @ concat (map encode_node demo_nodes)) = Inr (demo_header, demo_nodes, 2)"
  using load_index_encoded [OF demo_file_ok(1,2), of "[]" 0] demo_file_ok(3)
  by (simp add: NODE_SIZE_def) (simp add: demo_nodes_def)

theorem analyse_sound_witness:
  "\<exists>fo g. analyse numpy_ref (encode_header demo_header @ concat (map encode_node demo_nodes)) = Inr (Some fo) \<and>
     fo_graph fo = Some g \<and> fo_uncounted_nodes fo = 1 \<and> stats_ok 0 demo_nodes g"
  using analyse_sound [OF npr.numpy_api_axioms demo_load]
  by (auto simp: demo_header_def demo_nodes_def split: option.splits)

end
