(* ===== verification/Link_Quality.thy ===== *)
theory Link_Quality
  imports Forensics Recall_Metrics
begin

text \<open>
  The rest of \<^verbatim>\<open>research/replica_recall/graph_forensics.py\<close>: how many of a node's true nearest
  neighbours its stored adjacency list holds (\<^verbatim>\<open>link_quality\<close>), and the command that inspects one
  index or every replica's index (\<^verbatim>\<open>main\<close>).
\<close>

section \<open>Quality of stored links\<close>

definition vector_of_node :: "node \<Rightarrow> vec" where
  "vector_of_node nd = map f32_value (nd_vector nd)"

text \<open>
  One row of distances. \<^verbatim>\<open>np.inf\<close> at the node itself only has to exceed every other entry for
  \<^verbatim>\<open>argpartition\<close>, so it is a number above all of them.
\<close>

definition distance_row :: "vec list \<Rightarrow> nat \<Rightarrow> real list" where
  "distance_row vecs r =
     (let d = map (\<lambda>v. dot v v - 2 * dot (vecs ! r) v) vecs in d[r := Max (set d) + 1])"

definition link_score :: "numpy \<Rightarrow> nat \<Rightarrow> vec list \<Rightarrow> node list \<Rightarrow> nat \<Rightarrow> real" where
  "link_score np m vecs nodes r =
     (let top' = take m (np_argpartition np (distance_row vecs r) m);
          stored = take (deg0 (nodes ! r)) (nd_neighbors (nodes ! r) ! 0)
      in if stored = [] then 0
         else real (count_true (np_isin np top' stored)) / real m)"

record link_report =
  lq_mean :: flt
  lq_p5 :: real
  lq_zero :: nat
  lq_n :: nat

text \<open>\<open>choice n size\<close> is what the generator's \<^verbatim>\<open>choice\<close> without replacement draws from \<open>0..<n\<close>.\<close>

definition link_quality ::
  "numpy \<Rightarrow> (nat \<Rightarrow> nat \<Rightarrow> nat list) \<Rightarrow> node list \<Rightarrow> nat \<Rightarrow> nat \<Rightarrow> link_report option" where
  "link_quality np choice nodes sample m =
     (let n = length nodes
      in if n < m + 2 then None
         else let vecs = map vector_of_node nodes;
                  idx = sort (choice n (min sample n));
                  scores = map (link_score np m vecs nodes) idx
              in Some \<lparr>lq_mean = np_mean np (map Fl scores), lq_p5 = np_percentile np scores 5,
                       lq_zero = length (filter (\<lambda>s. s = 0) scores), lq_n = length idx\<rparr>)"

section \<open>The command\<close>

text \<open>
  A directory under inspection and what its \<^verbatim>\<open>index.ndb\<close> holds, if it exists. A target that cannot be
  read or decoded is reported and skipped; the exit status is 1 when nothing could be analysed.
\<close>

record inspection =
  in_name :: string
  in_forensics :: "forensics option"
  in_links :: "link_report option"

definition inspect :: "numpy \<Rightarrow> (nat \<Rightarrow> nat \<Rightarrow> nat list) \<Rightarrow> nat \<Rightarrow> string \<times> byte list option \<Rightarrow> inspection res" where
  "inspect np choice lq target =
     (case target of
        (name, None) \<Rightarrow> Inl (OSError ''No such file or directory'')
      | (name, Some src) \<Rightarrow>
          bindE (analyse np src) (\<lambda>r.
            if lq \<noteq> 0
            then bindE (load_index src) (\<lambda>(h, nodes, capacity).
                   Inr \<lparr>in_name = name, in_forensics = r, in_links = link_quality np choice nodes lq 16\<rparr>)
            else Inr \<lparr>in_name = name, in_forensics = r, in_links = None\<rparr>))"

definition forensics_targets :: "bool \<Rightarrow> (string \<times> byte list option) list \<Rightarrow> (string \<times> byte list option) list" where
  "forensics_targets compare dirs =
     (if compare then filter (\<lambda>(name, f). f \<noteq> None) (sorted_items dirs) else dirs)"

definition forensics_main ::
  "numpy \<Rightarrow> (nat \<Rightarrow> nat \<Rightarrow> nat list) \<Rightarrow> bool \<Rightarrow> nat \<Rightarrow> (string \<times> byte list option) list \<Rightarrow> int \<times> inspection list" where
  "forensics_main np choice compare lq dirs =
     (let targets = forensics_targets compare dirs;
          results = concat (map (\<lambda>t. case inspect np choice lq t of Inl e \<Rightarrow> [] | Inr r \<Rightarrow> [r]) targets)
      in if compare \<and> targets = [] then (1, []) else if results = [] then (1, []) else (0, results))"

section \<open>Reachability counts every layer\<close>

lemma demo_good_edges: "good_edges demo_nodes = [(0, 1)]"
proof -
  have "[0..<4] = [0, 1, 2, 3 :: nat]" by (simp add: upt_rec)
  then show ?thesis
    by (simp add: good_edges_def edges_of_def demo_nodes_def demo_node_def clip_count_def MAX_LAYERS_def M_MAX0_def)
qed

text \<open>
  The search that the comments describe as one over the layer-0 graph follows the links of all
  layers: of two nodes that have no layer-0 link at all, both are counted as reachable from the
  entry because one of them has a link on layer 1.
\<close>

theorem search_follows_all_layers:
  "\<exists>g. graph_stats_of numpy_ref 0 demo_nodes = Some g \<and> map deg0 demo_nodes = [0, 0] \<and> gs_reachable g = Some 2"
proof -
  obtain g where g: "graph_stats_of numpy_ref 0 demo_nodes = Some g" "stats_ok 0 demo_nodes g"
    using graph_stats_of_ok [OF npr.numpy_api_axioms] by blast
  have "edges_in 2 [(0, 1)]" by (simp add: edges_in_def)
  from reach_in_range(1) [OF this, of 0] have "{(0, 1)}\<^sup>* `` {0} \<subseteq> {0, 1 :: nat}" by simp
  moreover have "(0, 1) \<in> {(0, 1)}\<^sup>*" by (rule r_into_rtrancl) simp
  ultimately have reach: "{(0, 1)}\<^sup>* `` {0} = {0, 1 :: nat}" by blast
  have "gs_reachable g = Some (card ((set (good_edges demo_nodes))\<^sup>* `` {0}))"
    using g(2) by (simp add: stats_ok_def Let_def demo_nodes_def split: option.splits)
  then have "gs_reachable g = Some 2" unfolding demo_good_edges using reach by simp
  with g(1) show ?thesis by (simp add: demo_nodes_def demo_node_def deg0_def clip_count_def)
qed

section \<open>What link quality measures\<close>

lemma distance_row_facts:
  assumes "r < length vecs"
  shows "length (distance_row vecs r) = length vecs"
    and "i < length vecs \<Longrightarrow> i \<noteq> r \<Longrightarrow> distance_row vecs r ! i = dot (vecs ! i) (vecs ! i) - 2 * dot (vecs ! r) (vecs ! i)"
    and "i < length vecs \<Longrightarrow> i \<noteq> r \<Longrightarrow> distance_row vecs r ! i < distance_row vecs r ! r"
proof -
  let ?d = "map (\<lambda>v. dot v v - 2 * dot (vecs ! r) v) vecs"
  show "length (distance_row vecs r) = length vecs" by (simp add: distance_row_def Let_def)
  assume i: "i < length vecs" "i \<noteq> r"
  show eq: "distance_row vecs r ! i = dot (vecs ! i) (vecs ! i) - 2 * dot (vecs ! r) (vecs ! i)"
    using i by (simp add: distance_row_def Let_def)
  have "?d ! i \<le> Max (set ?d)" by (intro Max_ge finite_set nth_mem) (simp add: i)
  moreover have "distance_row vecs r ! r = Max (set ?d) + 1" using assms by (simp add: distance_row_def Let_def)
  moreover have "distance_row vecs r ! i = ?d ! i" using i by (simp add: eq)
  ultimately show "distance_row vecs r ! i < distance_row vecs r ! r" by linarith
qed

lemma partition_prefix_le:
  assumes p: "is_partition_at d m p" and m: "m < length d"
    and i: "i \<in> set (take m p)" and j: "j < length d" "j \<notin> set (take m p)"
  shows "d ! i \<le> d ! (p ! m)" and "d ! (p ! m) \<le> d ! j"
proof -
  have perm: "length p = length d" "set p = {0..<length d}"
    using perm_upt_facts [OF is_partition_at_perm [OF p]] by auto
  obtain a where "a < m" "i = p ! a" using i m perm by (auto simp: in_set_conv_nth)
  then show "d ! i \<le> d ! (p ! m)" using p by (simp add: is_partition_at_def)
  have "j \<in> set p" using j perm by simp
  then obtain b where b: "b < length p" "j = p ! b" by (auto simp: in_set_conv_nth)
  have "m \<le> b" using b j m perm by (metis in_set_conv_nth length_take min.absorb2 not_le nth_take order_less_imp_le)
  then show "d ! (p ! m) \<le> d ! j"
    using b p perm by (cases "m = b") (auto simp: is_partition_at_def)
qed

text \<open>The candidates are the \<open>m\<close> nearest other nodes, for every order numpy may leave them in.\<close>

definition nearest_others :: "vec list \<Rightarrow> nat \<Rightarrow> nat \<Rightarrow> nat list \<Rightarrow> bool" where
  "nearest_others vecs m r ts \<longleftrightarrow>
     length ts = m \<and> distinct ts \<and> set ts \<subseteq> {0..<length vecs} - {r} \<and>
     (\<forall>i \<in> set ts. \<forall>j \<in> {0..<length vecs} - {r} - set ts. sq_dist (vecs ! r) (vecs ! i) \<le> sq_dist (vecs ! r) (vecs ! j))"

lemma link_candidates:
  assumes np: "numpy_api np" and r: "r < length vecs" and m: "m + 2 \<le> length vecs"
    and dims: "\<forall>v \<in> set vecs. length v = dm"
  shows "nearest_others vecs m r (take m (np_argpartition np (distance_row vecs r) m))"
proof -
  let ?d = "distance_row vecs r" and ?p = "np_argpartition np (distance_row vecs r) m"
  let ?ts = "take m ?p"
  note d = distance_row_facts [OF r]
  have lt: "m < length ?d" using m d(1) by simp
  note part = numpy_api.argpartition [OF np lt]
  note perm = perm_upt_facts [OF is_partition_at_perm [OF part]]
  have ts: "length ?ts = m" "distinct ?ts" "set ?ts \<subseteq> {0..<length vecs}"
    using perm lt d(1) set_take_subset [of m ?p] by auto
  have "r \<notin> set ?ts"
  proof
    assume "r \<in> set ?ts"
    have "card ({0..<length vecs} - set ?ts) = length vecs - m"
      using ts by (simp add: card_Diff_subset distinct_card)
    then have "0 < card ({0..<length vecs} - set ?ts)" using m by linarith
    then obtain j where "j \<in> {0..<length vecs} - set ?ts" unfolding card_gt_0_iff by blast
    then have "j < length vecs" "j \<notin> set ?ts" by simp_all
    with \<open>r \<in> set ?ts\<close> have "?d ! r \<le> ?d ! j" "j \<noteq> r"
      using partition_prefix_le [OF part lt, of r j] d(1) by auto
    with d(3) [of j] \<open>j < length vecs\<close> show False by simp
  qed
  moreover have "sq_dist (vecs ! r) (vecs ! i) \<le> sq_dist (vecs ! r) (vecs ! j)"
    if "i \<in> set ?ts" "j < length vecs" "j \<noteq> r" "j \<notin> set ?ts" for i j
  proof -
    have i: "i < length vecs" "i \<noteq> r" using that(1) ts(3) \<open>r \<notin> set ?ts\<close> by auto
    have "?d ! i \<le> ?d ! j" using partition_prefix_le [OF part lt that(1), of j] that d(1) by auto
    moreover have "?d ! k = sq_dist (vecs ! r) (vecs ! k) - dot (vecs ! r) (vecs ! r)" if "k < length vecs" "k \<noteq> r" for k
      unfolding d(2) [OF that] using that r dims by (intro sq_dist_expand) simp
    ultimately show ?thesis using i that by simp
  qed
  ultimately show ?thesis using ts by (auto simp: nearest_others_def)
qed

lemma link_score_eq:
  assumes "numpy_api np"
  shows "link_score np m vecs nodes r =
    (let ts = take m (np_argpartition np (distance_row vecs r) m)
     in real (length (filter (\<lambda>t. t \<in> set (take (deg0 (nodes ! r)) (nd_neighbors (nodes ! r) ! 0))) ts)) / real m)"
  by (auto simp: link_score_def Let_def count_true_def numpy_api.isin [OF assms] filter_map comp_def)

text \<open>
  Link quality is the share of true neighbours that are linked: every score is a fraction of the
  \<open>m\<close> nearest other nodes of the index, for every way numpy may break ties, so it lies in \<open>[0, 1]\<close>;
  it is 1 exactly when all of them are in the stored layer-0 list, and 0 exactly when none is.
\<close>

theorem link_score_sound:
  assumes np: "numpy_api np" and "r < length vecs" and "m + 2 \<le> length vecs" and m: "0 < m"
    and "\<forall>v \<in> set vecs. length v = dm"
  shows "\<exists>ts. nearest_others vecs m r ts \<and> 0 \<le> link_score np m vecs nodes r \<and> link_score np m vecs nodes r \<le> 1 \<and>
    (link_score np m vecs nodes r = 1 \<longleftrightarrow> set ts \<subseteq> set (take (deg0 (nodes ! r)) (nd_neighbors (nodes ! r) ! 0))) \<and>
    (link_score np m vecs nodes r = 0 \<longleftrightarrow> set ts \<inter> set (take (deg0 (nodes ! r)) (nd_neighbors (nodes ! r) ! 0)) = {})"
proof -
  let ?ts = "take m (np_argpartition np (distance_row vecs r) m)"
  let ?S = "set (take (deg0 (nodes ! r)) (nd_neighbors (nodes ! r) ! 0))"
  let ?c = "length (filter (\<lambda>t. t \<in> ?S) ?ts)"
  have near: "nearest_others vecs m r ?ts" using link_candidates [OF np assms(2,3,5)] .
  then have len: "length ?ts = m" by (simp add: nearest_others_def)
  have le: "?c \<le> m" using length_filter_le [of "\<lambda>t. t \<in> ?S" ?ts] len by simp
  have full: "?c = m \<longleftrightarrow> set ?ts \<subseteq> ?S"
    using filter_id_conv [of "\<lambda>t. t \<in> ?S" ?ts] length_filter_less [of _ ?ts "\<lambda>t. t \<in> ?S"] len
    by (metis (mono_tags, lifting) nat_neq_iff subset_code(1))
  have none: "?c = 0 \<longleftrightarrow> set ?ts \<inter> ?S = {}" by (auto simp: filter_empty_conv)
  have score: "link_score np m vecs nodes r = real ?c / real m"
    unfolding link_score_eq [OF np] Let_def ..
  show ?thesis
    using near le full none m unfolding score by (intro exI [of _ ?ts]) (auto simp: divide_le_eq)
qed

definition link_demo_vecs :: "vec list" where
  "link_demo_vecs = [[0], [1], [3]]"

theorem link_score_sound_witness:
  "\<exists>ts. nearest_others link_demo_vecs 1 0 ts \<and>
     (link_score numpy_ref 1 link_demo_vecs (demo_nodes @ demo_nodes) 0 = 0 \<longleftrightarrow> set ts \<inter> {} = {})"
  using link_score_sound [OF npr.numpy_api_axioms, of 0 link_demo_vecs 1 1 "demo_nodes @ demo_nodes"]
  by (auto simp: link_demo_vecs_def demo_nodes_def demo_node_def deg0_def clip_count_def)

end
