(* ===== verification/Sift.thy ===== *)
theory Sift
  imports Recall_Metrics Bytes
begin

text \<open>
  The SIFT corpus, \<^verbatim>\<open>research/replica_recall/sift.py\<close>: parsing of the fvecs format, the download
  cache and the scaled arrays the experiment uses. Files are byte lists in a directory; what the
  server answers is an input of the download.
\<close>

section \<open>Parsing\<close>

definition record_bytes :: "nat \<Rightarrow> nat" where
  "record_bytes dm = 4 + 4 * dm"

definition read_bytes :: "byte list \<Rightarrow> nat option \<Rightarrow> byte list" where
  "read_bytes src want = (case want of None \<Rightarrow> src | Some w \<Rightarrow> take w src)"

text \<open>The words of record \<open>i\<close>: its dimension header and its components.\<close>

definition fvec_words :: "nat \<Rightarrow> byte list \<Rightarrow> nat \<Rightarrow> nat list" where
  "fvec_words dm buf i = u32s (dm + 1) (take (record_bytes dm) (drop (i * record_bytes dm) buf))"

definition read_fvecs :: "byte list \<Rightarrow> nat option \<Rightarrow> nat \<Rightarrow> vec list res" where
  "read_fvecs src limit dm =
     (let rec = record_bytes dm;
          want = map_option (\<lambda>l. l * rec) limit;
          buf = read_bytes src want
      in if length buf = 0 then Inl (ValueError ''empty'')
         else if length buf mod rec \<noteq> 0 then Inl (ValueError ''not a whole number of records'')
         else let n = length buf div rec
              in if (case limit of None \<Rightarrow> False | Some l \<Rightarrow> n < l) then Inl (ValueError ''asked for more vectors than available'')
                 else let words = map (fvec_words dm buf) [0..<n]
                      in if list_ex (\<lambda>ws. i32_of (hd ws) \<noteq> int dm) words then Inl (ValueError ''record declares another dim'')
                         else Inr (map (\<lambda>ws. map f32_value (tl ws)) words))"

section \<open>Fetching\<close>

type_synonym files = "(string, byte list) dict"

text \<open>
  What the server does: the connection fails, or it answers with a status and a stream of chunks,
  which may break off before its end.
\<close>

datatype http = Http_raises | Http_answers nat "byte list list" bool

fun write_chunks :: "byte list list \<Rightarrow> byte list \<Rightarrow> byte list" where
  "write_chunks [] out = out"
| "write_chunks (c # cs) out = (if c = [] then out else write_chunks cs (out @ c))"

definition file_size :: "files \<Rightarrow> string \<Rightarrow> nat" where
  "file_size fs path = (case map_of fs path of None \<Rightarrow> 0 | Some b \<Rightarrow> length b)"

text \<open>\<^verbatim>\<open>have and (want_bytes is None or have >= want_bytes)\<close>.\<close>

definition cache_hit :: "string \<Rightarrow> nat option \<Rightarrow> files \<Rightarrow> bool" where
  "cache_hit path want fs \<longleftrightarrow>
     file_size fs path \<noteq> 0 \<and> (case want of None \<Rightarrow> True | Some w \<Rightarrow> w \<le> file_size fs path)"

definition ensure :: "string \<Rightarrow> nat option \<Rightarrow> http \<Rightarrow> files \<Rightarrow> unit res \<times> files" where
  "ensure path want srv fs =
     (let tmp = path @ ''.part''
      in if cache_hit path want fs then (Inr (), fs)
         else case srv of
           Http_raises \<Rightarrow> (Inl (OSError ''urlopen''), dict_del tmp fs)
         | Http_answers status chunks finished \<Rightarrow>
             if want \<noteq> None \<and> status \<noteq> 206 then (Inl (RuntimeError ''no range support''), dict_del tmp fs)
             else let body = write_chunks chunks []; fs1 = dict_set tmp body fs
                  in if \<not> finished then (Inl (OSError ''read''), dict_del tmp fs1)
                     else if (case want of None \<Rightarrow> False | Some w \<Rightarrow> file_size fs1 tmp \<noteq> w)
                     then (Inl (RuntimeError ''received another number of bytes''), dict_del tmp fs1)
                     else (Inr (), dict_set path body (dict_del tmp fs1)))"

definition BASE_FILE :: string where "BASE_FILE = ''sift_base.fvecs''"
definition QUERY_FILE :: string where "QUERY_FILE = ''sift_query.fvecs''"

definition fetch :: "nat \<Rightarrow> nat \<Rightarrow> http \<Rightarrow> http \<Rightarrow> files \<Rightarrow> unit res \<times> files" where
  "fetch n_base dm srv_base srv_query fs =
     (case ensure BASE_FILE (Some (n_base * record_bytes dm)) srv_base fs of
        (Inl e, fs1) \<Rightarrow> (Inl e, fs1)
      | (Inr _, fs1) \<Rightarrow> ensure QUERY_FILE None srv_query fs1)"

section \<open>Loading\<close>

definition SCALE :: real where "SCALE = 1 / 128"

definition scaled :: "real \<Rightarrow> vec list \<Rightarrow> vec list" where
  "scaled s vs = (if s \<noteq> 1 then map (map (\<lambda>x. x * s)) vs else vs)"

definition read_file :: "files \<Rightarrow> string \<Rightarrow> nat option \<Rightarrow> nat \<Rightarrow> vec list res" where
  "read_file fs path limit dm =
     (case map_of fs path of None \<Rightarrow> Inl (OSError ''No such file or directory'') | Some b \<Rightarrow> read_fvecs b limit dm)"

definition sift_load :: "nat \<Rightarrow> nat \<Rightarrow> real \<Rightarrow> http \<Rightarrow> http \<Rightarrow> files \<Rightarrow> (vec list \<times> vec list) res \<times> files" where
  "sift_load n_base dm scale srv_base srv_query fs =
     (case fetch n_base dm srv_base srv_query fs of
        (Inl e, fs1) \<Rightarrow> (Inl e, fs1)
      | (Inr _, fs1) \<Rightarrow>
          (bindE (read_file fs1 BASE_FILE (Some n_base) dm) (\<lambda>base.
             bindE (read_file fs1 QUERY_FILE None dm) (\<lambda>queries.
               Inr (scaled scale base, scaled scale queries))), fs1))"

section \<open>The cache never keeps a short file\<close>

text \<open>
  C24. An interrupted or refused download never damages the cache: whatever the server answers, a
  failed \<^verbatim>\<open>_ensure\<close> leaves every cached file as it was and no partial file behind; a successful one
  leaves at least the requested number of bytes at the path (exactly that many when it had to
  download) and touches nothing else. A file that is already large enough is not touched at all.
\<close>

theorem ensure_atomic:
  "case ensure path want srv fs of (r, fs') \<Rightarrow>
     if cache_hit path want fs then r = Inr () \<and> fs' = fs
     else map_of fs' (path @ ''.part'') = None \<and>
       (\<forall>name. name \<in> {path, path @ ''.part''} \<or> map_of fs' name = map_of fs name) \<and>
       (case r of
          Inl e \<Rightarrow> map_of fs' path = map_of fs path
        | Inr u \<Rightarrow> map_of fs' path \<noteq> None \<and> (case want of None \<Rightarrow> True | Some w \<Rightarrow> file_size fs' path = w))"
proof (cases srv)
  case Http_raises
  then show ?thesis by (simp add: ensure_def Let_def)
next
  case (Http_answers status chunks finished)
  have "file_size (dict_set name b d) name = length b" for name b d by (simp add: file_size_def)
  then show ?thesis by (auto simp: ensure_def Let_def Http_answers split: option.splits)
qed

section \<open>Parsing is exact\<close>

text \<open>The records of an fvecs file: a dimension header and the bit patterns of the components.\<close>

definition enc_fvec :: "nat list \<Rightarrow> byte list" where
  "enc_fvec v = enc_i32 (int (length v)) @ enc_u32s v"

definition fvec_ok :: "nat \<Rightarrow> nat list \<Rightarrow> bool" where
  "fvec_ok dm v \<longleftrightarrow> length v = dm \<and> list_all is_u32 v"

lemma length_enc_fvec: "fvec_ok dm v \<Longrightarrow> length (enc_fvec v) = record_bytes dm"
  by (simp add: enc_fvec_def fvec_ok_def record_bytes_def)

lemma fvec_words_enc:
  assumes "dm < 2 ^ 31" and ok: "\<forall>v \<in> set vs. fvec_ok dm v" and i: "i < length vs"
  shows "fvec_words dm (concat (map enc_fvec vs)) i = dm # vs ! i"
proof -
  have v: "fvec_ok dm (vs ! i)" using ok i by simp
  have "take (record_bytes dm) (drop (i * record_bytes dm) (concat (map enc_fvec vs) @ [])) = map enc_fvec vs ! i"
    using ok i length_enc_fvec by (intro take_drop_concat) auto
  then have eq: "fvec_words dm (concat (map enc_fvec vs)) i = u32s (dm + 1) (enc_fvec (vs ! i))"
    using i by (simp add: fvec_words_def)
  have "u32 (enc_i32 (int dm) @ enc_u32s (vs ! i)) = dm"
    using assms(1) by (simp only: u32_enc_i32) (simp add: nat_mod_as_int)
  moreover have "u32s dm (enc_u32s (vs ! i)) = vs ! i"
    using u32s_enc [of "vs ! i" dm "[]"] v by (simp add: fvec_ok_def)
  ultimately show ?thesis
    unfolding eq using v by (simp add: enc_fvec_def fvec_ok_def)
qed

lemma read_fvecs_enc:
  assumes "dm < 2 ^ 31" and ok: "\<forall>v \<in> set vs. fvec_ok dm v" and "vs \<noteq> []"
  shows "read_fvecs (concat (map enc_fvec vs)) None dm = Inr (map (map f32_value) vs)"
proof -
  let ?buf = "concat (map enc_fvec vs)"
  have len: "length ?buf = length vs * record_bytes dm"
    using length_concat_uniform [of "map enc_fvec vs"] ok length_enc_fvec by auto
  have pos: "0 < record_bytes dm" by (simp add: record_bytes_def)
  have words: "map (fvec_words dm ?buf) [0..<length vs] = map (\<lambda>v. dm # v) vs"
    using fvec_words_enc [OF assms(1) ok] by (intro nth_equalityI) auto
  have dm: "i32_of dm = int dm" using assms(1) by (simp add: i32_of_def)
  have "length ?buf \<noteq> 0" "length ?buf mod record_bytes dm = 0" "length ?buf div record_bytes dm = length vs"
    using pos assms(3) unfolding len by simp_all
  then show ?thesis
    unfolding read_fvecs_def Let_def option.map read_bytes_def option.case
    by (simp add: words list_ex_iff dm comp_def del: length_concat)
qed

lemma length_u32s [simp]: "length (u32s k bs) = k"
  by (induction k arbitrary: bs) auto

lemma read_fvecs_ok:
  assumes Inr: "read_fvecs src limit dm = Inr vs"
  shows "vs \<noteq> []" and "\<forall>v \<in> set vs. length v = dm"
    and "case limit of None \<Rightarrow> length src = length vs * record_bytes dm
         | Some l \<Rightarrow> length vs = l \<and> l * record_bytes dm \<le> length src"
proof -
  let ?rec = "record_bytes dm" and ?buf = "read_bytes src (map_option (\<lambda>l. l * record_bytes dm) limit)"
  let ?n = "length ?buf div ?rec"
  have buf: "length ?buf \<noteq> 0" "length ?buf mod ?rec = 0"
    and lim: "\<not> (case limit of None \<Rightarrow> False | Some l \<Rightarrow> ?n < l)"
    and vs: "vs = map (\<lambda>i. map f32_value (tl (fvec_words dm ?buf i))) [0..<?n]"
    using Inr by (auto simp: read_fvecs_def Let_def comp_def split: if_splits)
  have "length ?buf = ?n * ?rec" using buf(2) by auto
  moreover have "0 < ?n" using calculation buf(1) by (cases ?n) auto
  moreover have "length v = dm" if "v \<in> set vs" for v using that by (auto simp: vs fvec_words_def)
  moreover have "l = ?n \<and> l * ?rec \<le> length src" if "limit = Some l" for l
  proof -
    have rec: "0 < ?rec" by (simp add: record_bytes_def)
    have "length ?buf \<le> l * ?rec" "length ?buf \<le> length src" using that by (simp_all add: read_bytes_def)
    moreover have "l \<le> ?n" using lim that by simp
    ultimately show ?thesis using \<open>length ?buf = ?n * ?rec\<close> rec by (metis le_antisym mult_le_cancel2)
  qed
  ultimately have "vs \<noteq> [] \<and> (\<forall>v \<in> set vs. length v = dm) \<and>
      (case limit of None \<Rightarrow> length src = length vs * record_bytes dm
       | Some l \<Rightarrow> length vs = l \<and> l * record_bytes dm \<le> length src)"
    using vs by (auto simp: read_bytes_def split: option.splits)
  then show "vs \<noteq> []" and "\<forall>v \<in> set vs. length v = dm"
    and "case limit of None \<Rightarrow> length src = length vs * record_bytes dm
         | Some l \<Rightarrow> length vs = l \<and> l * record_bytes dm \<le> length src" by auto
qed

text \<open>
  The corpus is never silently shortened: a successful \<^verbatim>\<open>read_fvecs\<close> returns at least one vector,
  every vector has the expected dimension, the number of vectors is exactly the limit if one was
  given and otherwise accounts for every byte of the source; every other outcome is a \<^verbatim>\<open>ValueError\<close>.
\<close>

theorem read_fvecs_never_short:
  "case read_fvecs src limit dm of
     Inl e \<Rightarrow> \<exists>msg. e = ValueError msg
   | Inr vs \<Rightarrow> vs \<noteq> [] \<and> list_all (\<lambda>v. length v = dm) vs \<and>
       (case limit of None \<Rightarrow> length src = length vs * record_bytes dm
        | Some l \<Rightarrow> length vs = l \<and> l * record_bytes dm \<le> length src)"
proof (cases "read_fvecs src limit dm")
  case (Inl e)
  then show ?thesis by (auto simp: read_fvecs_def Let_def split: if_splits)
next
  case (Inr vs)
  with read_fvecs_ok [OF Inr] show ?thesis by (simp add: list_all_iff)
qed

text \<open>
  Parsing inverts the format: reading the first \<open>l\<close> vectors of a file that holds at least that many
  returns exactly those, whatever follows them, and reading a whole file returns all of them.
\<close>

theorem read_fvecs_roundtrip:
  assumes dm: "dm < 2 ^ 31" and ok: "\<forall>v \<in> set vs. fvec_ok dm v" and l: "0 < l" "l \<le> length vs"
  shows "read_fvecs (concat (map enc_fvec vs)) None dm = Inr (map (map f32_value) vs) \<and>
    read_fvecs (concat (map enc_fvec vs) @ rest) (Some l) dm = Inr (map (map f32_value) (take l vs))"
proof -
  have split: "concat (map enc_fvec vs) = concat (map enc_fvec (take l vs)) @ concat (map enc_fvec (drop l vs))"
    by (metis append_take_drop_id concat_append map_append)
  have ok': "\<forall>v \<in> set (take l vs). fvec_ok dm v" using ok by (auto dest: in_set_takeD)
  have len: "length (concat (map enc_fvec (take l vs))) = l * record_bytes dm"
    using length_concat_uniform [of "map enc_fvec (take l vs)"] ok' length_enc_fvec l by auto
  then have buf: "read_bytes (concat (map enc_fvec vs) @ rest) (Some (l * record_bytes dm)) = concat (map enc_fvec (take l vs))"
    unfolding split by (simp add: read_bytes_def del: length_concat)
  have "read_fvecs (concat (map enc_fvec vs) @ rest) (Some l) dm = read_fvecs (concat (map enc_fvec (take l vs))) None dm"
  proof -
    have "length (concat (map enc_fvec (take l vs))) div record_bytes dm = l"
      unfolding len by (simp add: record_bytes_def)
    moreover have "read_bytes b None = b" for b by (simp add: read_bytes_def)
    ultimately show ?thesis
      unfolding read_fvecs_def Let_def option.map buf by (simp only: option.case less_irrefl if_False)
  qed
  moreover have "vs \<noteq> []" "take l vs \<noteq> []" using l by auto
  ultimately show ?thesis
    using read_fvecs_enc [OF dm ok] read_fvecs_enc [OF dm ok'] by simp
qed

theorem read_fvecs_roundtrip_witness:
  "read_fvecs (concat (map enc_fvec [[0x3F800000], [0]]) @ [7]) (Some 1) 1 = Inr [[f32_value 0x3F800000]]"
  using read_fvecs_roundtrip [of 1 "[[0x3F800000], [0]]" 1 "[7]"] by (simp add: fvec_ok_def is_u32_def)

section \<open>Scaling keeps the ranking\<close>

lemma sq_dist_scaled: "sq_dist (map (\<lambda>x. x * s) q) (map (\<lambda>x. x * s) v) = s\<^sup>2 * sq_dist q v"
  by (induction q v rule: list_induct2') (auto simp: sq_dist_def power2_eq_square algebra_simps)

lemma is_topk_scale:
  assumes "0 < c"
  shows "is_topk (map (\<lambda>x. c * x) d) k rs \<longleftrightarrow> is_topk d k rs"
proof -
  have "sorted (map ((!) (map (\<lambda>x. c * x) d)) rs) \<longleftrightarrow> sorted (map ((!) d) rs)" if "set rs \<subseteq> {0..<length d}"
  proof -
    have "sorted (map ((!) (map (\<lambda>x. c * x) d)) rs) \<longleftrightarrow> sorted (map (\<lambda>i. c * d ! i) rs)"
      using that by (intro arg_cong [of _ _ sorted] map_cong refl) auto
    also have "\<dots> \<longleftrightarrow> sorted (map ((!) d) rs)" using assms by (simp add: sorted_map)
    finally show ?thesis .
  qed
  with assms show ?thesis by (auto simp: is_topk_def subset_eq)
qed


text \<open>A cache with one base vector and one query.\<close>

definition demo_cache :: files where
  "demo_cache = [(BASE_FILE, concat (map enc_fvec [[0x3F800000]])), (QUERY_FILE, concat (map enc_fvec [[0]]))]"

lemma demo_cache_loads:
  "sift_load 1 1 SCALE Http_raises Http_raises demo_cache =
     (Inr (scaled SCALE [[f32_value 0x3F800000]], scaled SCALE [[f32_value 0]]), demo_cache)"
proof -
  have r: "read_fvecs (concat (map enc_fvec [[x]])) None 1 = Inr [[f32_value x]]" if "is_u32 x" for x
    using read_fvecs_enc [of 1 "[[x]]"] that by (simp add: fvec_ok_def)
  have len: "length (concat (map enc_fvec [[x]])) = 8" for x by (simp add: enc_fvec_def)
  have "read_fvecs b (Some 1) 1 = read_fvecs b None 1" if "length b = 8" for b
    using that by (simp add: read_fvecs_def read_bytes_def record_bytes_def Let_def)
  then have "read_fvecs (concat (map enc_fvec [[x]])) (Some 1) 1 = Inr [[f32_value x]]" if "is_u32 x" for x
    using r [OF that] len by metis
  then show ?thesis
    using r len by (simp add: sift_load_def fetch_def ensure_def cache_hit_def file_size_def demo_cache_def BASE_FILE_def
        QUERY_FILE_def record_bytes_def read_file_def is_u32_def)
qed


end
