(* ===== verification/Chaos.thy ===== *)
theory Chaos
  imports Py_Dict Py_Text
begin

text \<open>
  The chaos harness, \<^verbatim>\<open>chaos_harness.py\<close>: the topology it writes and starts, the managed processes,
  the readiness loops, the validator's checks of a statistics response, the kill and restart loop
  and the exit status. Whether a process survives its start, what a coordinator answers, the
  random choices and the clock are inputs.
\<close>

section \<open>Topology\<close>

definition NUM_SHARDS :: nat where "NUM_SHARDS = 2"
definition REPLICAS_PER_SHARD :: nat where "REPLICAS_PER_SHARD = 3"
definition NUM_COORDINATORS :: nat where "NUM_COORDINATORS = 3"
definition SHARD_BASE_PORT :: nat where "SHARD_BASE_PORT = 19090"
definition COORD_HTTP_BASE_PORT :: nat where "COORD_HTTP_BASE_PORT = 18180"
definition RAFT_BASE_PORT :: nat where "RAFT_BASE_PORT = 17100"

lemmas topology_defs = NUM_SHARDS_def REPLICAS_PER_SHARD_def NUM_COORDINATORS_def SHARD_BASE_PORT_def
  COORD_HTTP_BASE_PORT_def RAFT_BASE_PORT_def

definition shard_port :: "nat \<Rightarrow> nat \<Rightarrow> nat" where
  "shard_port shard_id replica_id = SHARD_BASE_PORT + shard_id * REPLICAS_PER_SHARD + replica_id"

definition coord_http_port :: "nat \<Rightarrow> nat" where
  "coord_http_port node_id = COORD_HTTP_BASE_PORT + node_id"

definition raft_port :: "nat \<Rightarrow> nat" where
  "raft_port node_id = RAFT_BASE_PORT + node_id"

record shard_entry =
  se_shard_id :: nat
  se_replica_id :: nat
  se_host :: string
  se_port :: nat
  se_primary :: bool

record peer_entry =
  pe_node_id :: nat
  pe_host :: string
  pe_raft_port :: nat

text \<open>\<^verbatim>\<open>write_initial_configs\<close>: the contents of the two configuration files.\<close>

definition write_initial_configs :: "shard_entry list \<times> peer_entry list" where
  "write_initial_configs =
     ([\<lparr>se_shard_id = s, se_replica_id = r, se_host = ''127.0.0.1'', se_port = shard_port s r, se_primary = (r = 0)\<rparr>.
         s \<leftarrow> [0..<NUM_SHARDS], r \<leftarrow> [0..<REPLICAS_PER_SHARD]],
      map (\<lambda>n. \<lparr>pe_node_id = n, pe_host = ''127.0.0.1'', pe_raft_port = raft_port n\<rparr>) [0..<NUM_COORDINATORS])"

section \<open>Managed processes\<close>

datatype child = No_child | Running | Exited

record mproc =
  mp_name :: string
  mp_cmd :: string
  mp_env :: "(string, string) dict"
  mp_proc :: child
  mp_restart_count :: nat
  mp_crash_on_restart_count :: nat

definition new_mproc :: "string \<Rightarrow> string \<Rightarrow> (string, string) dict \<Rightarrow> mproc" where
  "new_mproc name cmd env = \<lparr>mp_name = name, mp_cmd = cmd, mp_env = env, mp_proc = No_child,
     mp_restart_count = 0, mp_crash_on_restart_count = 0\<rparr>"

text \<open>\<open>survives\<close>: the child is still running after the grace period.\<close>

definition start :: "bool \<Rightarrow> mproc \<Rightarrow> bool \<times> mproc" where
  "start survives p = (survives, p\<lparr>mp_proc := if survives then Running else Exited\<rparr>)"

definition is_alive :: "mproc \<Rightarrow> bool" where
  "is_alive p \<longleftrightarrow> mp_proc p = Running"

definition kill :: "mproc \<Rightarrow> mproc" where
  "kill p = (if mp_proc p = Running then p\<lparr>mp_proc := Exited\<rparr> else p)"

definition restart :: "bool \<Rightarrow> mproc \<Rightarrow> bool \<times> mproc" where
  "restart survives p =
     (let p1 = kill p; (alive, p2) = start survives (p1\<lparr>mp_restart_count := mp_restart_count p1 + 1\<rparr>)
      in (alive, if alive then p2 else p2\<lparr>mp_crash_on_restart_count := mp_crash_on_restart_count p2 + 1\<rparr>))"

definition build_processes :: "(string, mproc) dict" where
  "build_processes =
     [(''shard-'' @ dec s @ ''-'' @ dec r,
       new_mproc (''shard-'' @ dec s @ ''-'' @ dec r) ''nano_shard_node''
         [(''NANODB_SHARD_ID'', dec s), (''NANODB_GRPC_PORT'', dec (shard_port s r)),
          (''NANODB_DATA_DIR'', ''data/shard-'' @ dec s @ ''-'' @ dec r)]).
        s \<leftarrow> [0..<NUM_SHARDS], r \<leftarrow> [0..<REPLICAS_PER_SHARD]] @
     map (\<lambda>n. (''coordinator-'' @ dec n,
       new_mproc (''coordinator-'' @ dec n) ''nano_coordinator''
         [(''NANODB_CLUSTER_CONFIG'', ''cluster_config.json''), (''NANODB_HTTP_PORT'', dec (coord_http_port n)),
          (''NANODB_RAFT_NODE_ID'', dec n), (''NANODB_RAFT_PEERS_CONFIG'', ''raft_peers.json''),
          (''NANODB_RAFT_STATE_PATH'', ''coordinator-'' @ dec n @ ''.raft_state.bin''),
          (''NANODB_RAFT_LOG_PATH'', ''coordinator-'' @ dec n @ ''.raft_log.bin'')])) [0..<NUM_COORDINATORS]"

text \<open>
  The bring-up of \<^verbatim>\<open>main\<close>: shard nodes, then coordinators; the first one that does not survive ends the
  program with status 1.
\<close>

fun start_all :: "(string \<Rightarrow> bool) \<Rightarrow> string list \<Rightarrow> (string, mproc) dict \<Rightarrow> unit res \<times> (string, mproc) dict" where
  "start_all survives [] procs = (Inr (), procs)"
| "start_all survives (name # names) procs =
     (let (ok, p) = start (survives name) (the (map_of procs name)); procs1 = dict_set name p procs
      in if \<not> ok then (Inl (SystemExit 1), procs1) else start_all survives names procs1)"

definition bring_up :: "(string \<Rightarrow> bool) \<Rightarrow> (string, mproc) dict \<Rightarrow> unit res \<times> (string, mproc) dict" where
  "bring_up survives procs =
     start_all survives (filter (starts_with ''shard-'') (map fst procs) @
                         filter (starts_with ''coordinator-'') (map fst procs)) procs"

section \<open>Readiness\<close>

text \<open>
  \<^verbatim>\<open>wait_for_coordinators_ready\<close> and \<^verbatim>\<open>wait_for_raft_leader\<close>: the rounds that fit before the deadline. A
  round says what each coordinator answers; \<open>None\<close> is an exception.
\<close>

fun wait_for_coordinators_ready :: "(nat \<Rightarrow> int option) list \<Rightarrow> nat set \<Rightarrow> bool" where
  "wait_for_coordinators_ready [] pending \<longleftrightarrow> pending = {}"
| "wait_for_coordinators_ready (answers # rounds) pending \<longleftrightarrow>
     (if pending = {} then True
      else wait_for_coordinators_ready rounds {n \<in> pending. answers n \<noteq> Some 200})"

fun wait_for_raft_leader :: "(nat \<Rightarrow> (int \<times> string option) option) list \<Rightarrow> nat list \<Rightarrow> nat option" where
  "wait_for_raft_leader [] node_ids = None"
| "wait_for_raft_leader (answers # rounds) node_ids =
     (case find (\<lambda>n. answers n = Some (200, Some ''leader'')) node_ids of
        Some n \<Rightarrow> Some n
      | None \<Rightarrow> wait_for_raft_leader rounds node_ids)"

section \<open>Bringing the cluster up and down\<close>

text \<open>What the environment does during start-up: which children survive, and what the coordinators answer.\<close>

record cluster_env =
  cl_survives :: "string \<Rightarrow> bool"
  cl_ready :: "(nat \<Rightarrow> int option) list"
  cl_leader :: "(nat \<Rightarrow> (int \<times> string option) option) list"

definition kill_all :: "(string, mproc) dict \<Rightarrow> (string, mproc) dict" where
  "kill_all procs = map (\<lambda>(name, p). (name, kill p)) procs"

text \<open>
  The leader when the cluster is ready; \<open>None\<close> ends the program with status 1. A child that fails to
  start ends it at once, the two later failures kill every process first.
\<close>

definition start_cluster :: "cluster_env \<Rightarrow> (string, mproc) dict \<Rightarrow> nat option \<times> (string, mproc) dict" where
  "start_cluster env procs =
     (case bring_up (cl_survives env) procs of
        (Inl e, procs1) \<Rightarrow> (None, procs1)
      | (Inr _, procs1) \<Rightarrow>
          (let node_ids = [0..<NUM_COORDINATORS]
           in if \<not> wait_for_coordinators_ready (cl_ready env) (set node_ids) then (None, kill_all procs1)
              else case wait_for_raft_leader (cl_leader env) node_ids of
                None \<Rightarrow> (None, kill_all procs1)
              | Some leader \<Rightarrow> (Some leader, procs1)))"

text \<open>Starting again whatever is not running; the number of processes this concerns.\<close>

definition revive_dead :: "(string \<Rightarrow> bool) \<Rightarrow> (string, mproc) dict \<Rightarrow> (string, mproc) dict \<times> nat" where
  "revive_dead survives procs =
     (map (\<lambda>(name, p). (name, if is_alive p then p else snd (start (survives name) p))) procs,
      length (filter (\<lambda>(name, p). \<not> is_alive p) procs))"

section \<open>Statistics of the workload\<close>

record hstats =
  hs_attempted :: nat
  hs_confirmed :: nat
  hs_failed :: nat
  hs_confirmed_ids :: "string list"

definition new_stats :: hstats where
  "new_stats = \<lparr>hs_attempted = 0, hs_confirmed = 0, hs_failed = 0, hs_confirmed_ids = []\<rparr>"

definition record_attempt :: "hstats \<Rightarrow> hstats" where
  "record_attempt s = s\<lparr>hs_attempted := hs_attempted s + 1\<rparr>"

definition record_confirmed :: "string \<Rightarrow> hstats \<Rightarrow> hstats" where
  "record_confirmed vec_id s = s\<lparr>hs_confirmed := hs_confirmed s + 1, hs_confirmed_ids := hs_confirmed_ids s @ [vec_id]\<rparr>"

definition record_failed :: "hstats \<Rightarrow> hstats" where
  "record_failed s = s\<lparr>hs_failed := hs_failed s + 1\<rparr>"

definition duplicate_id_count :: "hstats \<Rightarrow> nat" where
  "duplicate_id_count s = length (hs_confirmed_ids s) - card (set (hs_confirmed_ids s))"

section \<open>The validator\<close>

text \<open>A \<^verbatim>\<open>/stats\<close> body: the total (absent or a number), the degraded flag, the replicas.\<close>

record stats_body =
  sb_total :: "nat option"
  sb_degraded :: bool
  sb_replicas :: "(nat \<times> bool) list"

datatype violation = Lost_write nat nat nat | Double_primary nat nat nat

record vstate =
  vs_violations :: "violation list"
  vs_checks_run :: nat
  vs_degraded_dips :: nat

definition check_total :: "nat \<Rightarrow> nat \<Rightarrow> stats_body \<Rightarrow> vstate \<Rightarrow> vstate" where
  "check_total n confirmed_before body v =
     (case sb_total body of
        None \<Rightarrow> v
      | Some tot \<Rightarrow>
          if tot < confirmed_before
          then if sb_degraded body then v\<lparr>vs_degraded_dips := vs_degraded_dips v + 1\<rparr>
               else v\<lparr>vs_violations := vs_violations v @ [Lost_write n tot confirmed_before]\<rparr>
          else v)"

definition double_primaries :: "nat \<Rightarrow> stats_body \<Rightarrow> violation list" where
  "double_primaries n body =
     List.map_filter (\<lambda>(sid, reps). let primaries = filter (\<lambda>b. b) reps
         in if 1 < length primaries then Some (Double_primary n sid (length primaries)) else None)
       (group_by fst snd (sb_replicas body))"

text \<open>One coordinator's answer: an exception or another status is skipped.\<close>

definition check_answer :: "nat \<Rightarrow> nat \<Rightarrow> (int \<times> stats_body) option \<Rightarrow> vstate \<Rightarrow> vstate" where
  "check_answer confirmed_before n ans v =
     (case ans of
        None \<Rightarrow> v
      | Some (status, body) \<Rightarrow>
          if status \<noteq> 200 then v
          else let v1 = check_total n confirmed_before body (v\<lparr>vs_checks_run := vs_checks_run v + 1\<rparr>)
               in v1\<lparr>vs_violations := vs_violations v1 @ double_primaries n body\<rparr>)"

text \<open>One iteration of \<^verbatim>\<open>validator_loop\<close>: the confirmed count is read before any coordinator is asked.\<close>

definition validator_round :: "nat \<Rightarrow> (nat \<times> (int \<times> stats_body) option) list \<Rightarrow> vstate \<Rightarrow> vstate" where
  "validator_round confirmed_before answers v = foldl (\<lambda>v (n, ans). check_answer confirmed_before n ans v) v answers"

section \<open>The chaos loop\<close>

record chaos_event =
  ce_t :: real
  ce_target :: string
  ce_alive :: bool
  ce_down_for :: real
  ce_restart_count :: nat

text \<open>
  One iteration: whether the stop event is set after the pause, the target and when it is killed, the
  time it is held down, whether the stop event is set by then, and whether the child survives.
\<close>

record chaos_round =
  cr_stop_before :: bool
  cr_target :: string
  cr_t0 :: real
  cr_down_for :: real
  cr_stop_after :: bool
  cr_survives :: bool

type_synonym chaos_state = "(string, mproc) dict \<times> chaos_event list"

definition restarted :: "bool \<Rightarrow> mproc \<Rightarrow> mproc" where
  "restarted alive p =
     (if \<not> alive then p\<lparr>mp_restart_count := mp_restart_count p + 1, mp_crash_on_restart_count := mp_crash_on_restart_count p + 1\<rparr>
      else p\<lparr>mp_restart_count := mp_restart_count p + 1\<rparr>)"

fun chaos_loop :: "chaos_round list \<Rightarrow> chaos_state \<Rightarrow> chaos_state" where
  "chaos_loop [] st = st"
| "chaos_loop (r # rounds) (procs, events) =
     (if cr_stop_before r then (procs, events)
      else let p = kill (the (map_of procs (cr_target r)));
               (alive, p1) = start (cr_survives r) p
           in if cr_stop_after r then (dict_set (cr_target r) p1 procs, events)
              else let p2 = restarted alive p1;
                       e = \<lparr>ce_t = cr_t0 r, ce_target = cr_target r, ce_alive = alive, ce_down_for = cr_down_for r,
                            ce_restart_count = mp_restart_count p2\<rparr>
                   in chaos_loop rounds (dict_set (cr_target r) p2 procs, events @ [e]))"

section \<open>The end of a run\<close>

text \<open>The final read-back: at most ten attempts, the first status 200 wins.\<close>

fun final_stats :: "(int \<times> stats_body) option list \<Rightarrow> (nat option) option" where
  "final_stats [] = None"
| "final_stats (a # as) =
     (case a of
        Some (status, body) \<Rightarrow> if status = 200 then Some (sb_total body) else final_stats as
      | None \<Rightarrow> final_stats as)"

record harness_report =
  hr_violations :: "violation list"
  hr_final_ok :: bool
  hr_final_total :: "nat option"
  hr_recovery_ok :: "bool option"
  hr_exit :: int

definition finish :: "hstats \<Rightarrow> vstate \<Rightarrow> (int \<times> stats_body) option list \<Rightarrow> harness_report" where
  "finish s v answers =
     (let final = final_stats (take 10 answers);
          final_ok = (final \<noteq> None);
          tot = (case final of None \<Rightarrow> None | Some t \<Rightarrow> t)
      in \<lparr>hr_violations = vs_violations v, hr_final_ok = final_ok, hr_final_total = tot,
          hr_recovery_ok = map_option (\<lambda>t. hs_confirmed s \<le> t) tot,
          hr_exit = (if vs_violations v \<noteq> [] \<or> \<not> final_ok then 1 else 0)\<rparr>)"

text \<open>The counts over the chaos events that the report prints.\<close>

definition events_by_target :: "chaos_event list \<Rightarrow> (string, nat) dict" where
  "events_by_target events = foldl (\<lambda>d e. dict_set (ce_target e) (dict_get d (ce_target e) 0 + 1) d) [] events"

definition crash_on_restart :: "chaos_event list \<Rightarrow> nat" where
  "crash_on_restart events = foldl (\<lambda>n e. if \<not> ce_alive e then n + 1 else n) 0 events"

text \<open>
  The program. What the writer and validator threads leave in the shared statistics is an input
  here; the theory of the threads is \<^verbatim>\<open>Chaos_Writers\<close>. The result is the exit status, the report with
  the two counts, and the processes at exit.
\<close>

record harness_env =
  he_binaries :: bool
  he_cluster :: cluster_env
  he_rounds :: "chaos_round list"
  he_stats :: hstats
  he_validator :: vstate
  he_revive :: "string \<Rightarrow> bool"
  he_answers :: "(int \<times> stats_body) option list"

definition harness_main ::
  "harness_env \<Rightarrow> int \<times> (harness_report \<times> (string, nat) dict \<times> nat) option \<times> (string, mproc) dict" where
  "harness_main env =
     (if \<not> he_binaries env then (1, None, [])
      else case start_cluster (he_cluster env) build_processes of
        (None, procs) \<Rightarrow> (1, None, procs)
      | (Some leader, procs) \<Rightarrow>
          (let (procs1, events) = chaos_loop (he_rounds env) (procs, []);
               procs2 = fst (revive_dead (he_revive env) procs1);
               rep = finish (he_stats env) (he_validator env) (he_answers env)
           in (hr_exit rep, Some (rep, events_by_target events, crash_on_restart events), kill_all procs2)))"

section \<open>The topology is consistent\<close>

lemma topology_ranges: "[0..<NUM_SHARDS] = [0, 1]" "[0..<REPLICAS_PER_SHARD] = [0, 1, 2]" "[0..<NUM_COORDINATORS] = [0, 1, 2]"
  by (simp_all add: topology_defs upt_rec)

lemma dec_small: "dec 0 = ''0''" "dec 1 = ''1''" "dec 2 = ''2''"
  by code_simp+

lemma configs_eval:
  "map (\<lambda>e. (se_shard_id e, se_replica_id e, se_port e, se_primary e)) (fst write_initial_configs) =
     [(0, 0, 19090, True), (0, 1, 19091, False), (0, 2, 19092, False), (1, 0, 19093, True), (1, 1, 19094, False), (1, 2, 19095, False)]"
  "map pe_raft_port (snd write_initial_configs) = [17100, 17101, 17102]"
  by (simp_all add: write_initial_configs_def topology_ranges shard_port_def raft_port_def) (simp_all add: topology_defs)

text \<open>
  No two listeners of the cluster share a port, the shard configuration names every replica once
  with exactly one primary per shard, and the addresses the processes are started with are the
  ones the configuration announces.
\<close>

theorem topology_consistent:
  "distinct (map se_port (fst write_initial_configs) @ map pe_raft_port (snd write_initial_configs) @
       map coord_http_port [0..<NUM_COORDINATORS]) \<and>
   map (\<lambda>e. (se_shard_id e, se_replica_id e)) (fst write_initial_configs) =
     List.product [0..<NUM_SHARDS] [0..<REPLICAS_PER_SHARD] \<and>
   list_all (\<lambda>s. length (filter (\<lambda>e. se_shard_id e = s \<and> se_primary e) (fst write_initial_configs)) = 1) [0..<NUM_SHARDS] \<and>
   distinct (map fst build_processes) \<and>
   List.map_filter (\<lambda>(name, p). map_of (mp_env p) ''NANODB_GRPC_PORT'') build_processes =
     map (\<lambda>e. dec (se_port e)) (fst write_initial_configs)"
proof (intro conjI)
  let ?ses = "fst write_initial_configs"
  have ports: "map se_port ?ses = [19090, 19091, 19092, 19093, 19094, 19095]"
    and ids: "map (\<lambda>e. (se_shard_id e, se_replica_id e)) ?ses = [(0, 0), (0, 1), (0, 2), (1, 0), (1, 1), (1, 2)]"
    using arg_cong [OF configs_eval(1), of "map (\<lambda>x. fst (snd (snd x)))"]
      arg_cong [OF configs_eval(1), of "map (\<lambda>x. (fst x, fst (snd x)))"] by (simp_all add: comp_def)
  show "distinct (map se_port ?ses @ map pe_raft_port (snd write_initial_configs) @ map coord_http_port [0..<NUM_COORDINATORS])"
    unfolding ports configs_eval(2) topology_ranges by (simp add: coord_http_port_def COORD_HTTP_BASE_PORT_def)
  show "map (\<lambda>e. (se_shard_id e, se_replica_id e)) ?ses = List.product [0..<NUM_SHARDS] [0..<REPLICAS_PER_SHARD]"
    unfolding ids topology_ranges by simp
  show "list_all (\<lambda>s. length (filter (\<lambda>e. se_shard_id e = s \<and> se_primary e) ?ses) = 1) [0..<NUM_SHARDS]"
    by (simp add: write_initial_configs_def topology_ranges)
  show "distinct (map fst build_processes)"
    using dec_small by (simp add: build_processes_def topology_ranges)
  show "List.map_filter (\<lambda>(name, p). map_of (mp_env p) ''NANODB_GRPC_PORT'') build_processes = map (\<lambda>e. dec (se_port e)) ?ses"
    by (simp add: build_processes_def write_initial_configs_def topology_ranges new_mproc_def List.map_filter_simps)
qed

section \<open>A failed bring-up\<close>

text \<open>
  A child that does not survive its start ends the program at once: the children started before it
  stay running, although the harness promises to tear all of them down at exit.
\<close>

theorem bring_up_leaves_children:
  assumes "\<forall>n \<in> set before. survives n" and "\<not> survives bad" and "distinct (before @ bad # rest)"
    and "\<forall>n \<in> set (before @ bad # rest). map_of procs n \<noteq> None"
  shows "\<exists>procs'. start_all survives (before @ bad # rest) procs = (Inl (SystemExit 1), procs') \<and>
    (\<forall>n \<in> set before. \<exists>p. map_of procs' n = Some p \<and> is_alive p)"
proof -
  have "\<exists>procs'. start_all survives (before @ bad # rest) procs = (Inl (SystemExit 1), procs') \<and>
    (\<forall>n \<in> set before \<union> done. \<exists>p. map_of procs' n = Some p \<and> is_alive p)"
    if "\<forall>n \<in> done. \<exists>p. map_of procs n = Some p \<and> is_alive p" "set (before @ bad # rest) \<inter> done = {}" for "done"
    using assms that
  proof (induction before arbitrary: procs "done")
    case Nil
    then show ?case by (auto simp: start_def)
  next
    case (Cons n before)
    obtain p where p: "map_of procs n = Some p" using Cons.prems(4) by auto
    let ?procs = "dict_set n (p\<lparr>mp_proc := Running\<rparr>) procs"
    have "\<exists>procs'. start_all survives (before @ bad # rest) ?procs = (Inl (SystemExit 1), procs') \<and>
        (\<forall>m \<in> set before \<union> insert n done. \<exists>p. map_of procs' m = Some p \<and> is_alive p)"
      using Cons.prems by (intro Cons.IH) (auto simp: is_alive_def)
    then show ?case using Cons.prems(1) p by (auto simp: start_def)
  qed
  from this [of "{}"] show ?thesis by simp
qed

definition running :: "(string, mproc) dict \<Rightarrow> string set" where
  "running procs = {name. \<exists>p. map_of procs name = Some p \<and> is_alive p}"

lemma map_of_map_snd: "map_of (map (\<lambda>(name, p). (name, f name p)) d) name = map_option (f name) (map_of d name)"
  by (induction d) auto

lemma kill_not_alive [simp]: "\<not> is_alive (kill p)"
  by (simp add: kill_def is_alive_def)

lemma running_kill_all [simp]: "running (kill_all procs) = {}"
  unfolding running_def kill_all_def map_of_map_snd by auto

lemma running_start:
  assumes "map_of procs name = Some p"
  shows "running (dict_set name (snd (start b p)) procs) = (if b then insert name (running procs) else running procs - {name})"
  using assms by (auto simp: running_def start_def is_alive_def)

text \<open>Start-up works down the list and stops at the first child that does not survive.\<close>

lemma start_all_running:
  assumes "list_all (\<lambda>n. map_of procs n \<noteq> None) names" and "distinct names" and "running procs \<inter> set names = {}"
  shows "\<exists>r procs'. start_all survives names procs = (r, procs') \<and> (r = Inr () \<longleftrightarrow> list_all survives names) \<and>
    (\<forall>e. r = Inl e \<longrightarrow> e = SystemExit 1) \<and> map fst procs' = map fst procs \<and>
    running procs' = running procs \<union> set (takeWhile survives names)"
  using assms
proof (induction names arbitrary: procs)
  case (Cons n names)
  obtain p where p: "map_of procs n = Some p" using Cons.prems(1) by auto
  let ?procs = "dict_set n (snd (start (survives n) p)) procs"
  have keys: "map fst ?procs = map fst procs"
    using map_of_SomeD [OF p] by (force simp: keys_dict_set image_iff)
  have r: "running ?procs = (if survives n then insert n (running procs) else running procs)"
    using running_start [OF p] Cons.prems(3) by auto
  show ?case
  proof (cases "survives n")
    case True
    have "list_all (\<lambda>n. map_of ?procs n \<noteq> None) names" "running ?procs \<inter> set names = {}"
      using Cons.prems r True by (auto simp: list_all_iff)
    from Cons.IH [OF this(1) _ this(2)] Cons.prems(2) obtain res procs' where
      "start_all survives names ?procs = (res, procs')" "res = Inr () \<longleftrightarrow> list_all survives names"
      "\<forall>e. res = Inl e \<longrightarrow> e = SystemExit 1" "map fst procs' = map fst ?procs"
      "running procs' = running ?procs \<union> set (takeWhile survives names)" by auto
    with True p keys r show ?thesis by (auto simp: start_def)
  next
    case False
    with p keys r show ?thesis by (simp add: start_def)
  qed
qed simp

text \<open>The order in which the processes are started.\<close>

definition start_order :: "string list" where
  "start_order = map fst build_processes"

lemma build_processes_names:
  "map fst build_processes = [''shard-0-0'', ''shard-0-1'', ''shard-0-2'', ''shard-1-0'', ''shard-1-1'', ''shard-1-2'',
     ''coordinator-0'', ''coordinator-1'', ''coordinator-2'']"
  using dec_small by (simp add: build_processes_def topology_ranges)

lemma start_order_names: "filter (starts_with ''shard-'') start_order @ filter (starts_with ''coordinator-'') start_order = start_order"
  by (simp add: start_order_def build_processes_names starts_with_def)

lemma build_processes_stopped: "running build_processes = {}"
  using dec_small by (auto simp: running_def build_processes_def topology_ranges new_mproc_def is_alive_def split: if_splits)

lemma bring_up_running:
  obtains r procs where "bring_up survives build_processes = (r, procs)" "r = Inr () \<longleftrightarrow> list_all survives start_order"
    "map fst procs = start_order" "running procs = set (takeWhile survives start_order)"
proof -
  have ex: "list_all (\<lambda>n. map_of build_processes n \<noteq> None) start_order"
    by (auto simp: start_order_def list_all_iff map_of_eq_None_iff)
  have dist: "distinct start_order" by (simp add: start_order_def build_processes_names)
  have "bring_up survives build_processes = start_all survives start_order build_processes"
    unfolding bring_up_def start_order_def [symmetric] start_order_names ..
  with start_all_running [OF ex dist, of survives] build_processes_stopped that show thesis
    by (auto simp: start_order_def)
qed

lemma start_cluster_running:
  "\<exists>l procs. start_cluster env build_processes = (l, procs) \<and> map fst procs = start_order \<and>
     (l \<noteq> None \<longrightarrow> list_all (cl_survives env) start_order) \<and>
     running procs = (if l \<noteq> None then set start_order
       else if list_all (cl_survives env) start_order then {} else set (takeWhile (cl_survives env) start_order))"
proof -
  obtain r procs where
    r: "bring_up (cl_survives env) build_processes = (r, procs)" "r = Inr () \<longleftrightarrow> list_all (cl_survives env) start_order"
    "map fst procs = start_order" "running procs = set (takeWhile (cl_survives env) start_order)"
    by (rule bring_up_running)
  moreover have "map fst (kill_all procs) = start_order" by (simp add: kill_all_def r(3) [symmetric] case_prod_unfold comp_def)
  moreover have "set (takeWhile (cl_survives env) start_order) = set start_order" if "list_all (cl_survives env) start_order"
    using that by (simp add: takeWhile_eq_all_conv [THEN iffD2] list_all_iff)
  ultimately show ?thesis
    by (cases r) (auto simp: start_cluster_def Let_def split: option.splits)
qed

text \<open>A program that uses this start-up leaves children behind exactly when one that is not the first fails to start.\<close>

definition leaks :: "cluster_env \<Rightarrow> bool" where
  "leaks env \<longleftrightarrow> cl_survives env (hd start_order) \<and> \<not> list_all (cl_survives env) start_order"

lemma leaks_iff: "leaks env \<longleftrightarrow> \<not> list_all (cl_survives env) start_order \<and> takeWhile (cl_survives env) start_order \<noteq> []"
  by (cases "start_order = []") (auto simp: leaks_def takeWhile_eq_Nil_iff)

theorem harness_teardown:
  "running (snd (snd (harness_main env))) = {} \<longleftrightarrow> \<not> (he_binaries env \<and> leaks (he_cluster env))"
proof -
  obtain l procs where s: "start_cluster (he_cluster env) build_processes = (l, procs)"
    "running procs = (if l \<noteq> None then set start_order
       else if list_all (cl_survives (he_cluster env)) start_order then {} else set (takeWhile (cl_survives (he_cluster env)) start_order))"
    "l \<noteq> None \<longrightarrow> list_all (cl_survives (he_cluster env)) start_order"
    using start_cluster_running [of "he_cluster env"] by blast
  then show ?thesis
    by (cases l) (auto simp: harness_main_def leaks_iff Let_def case_prod_unfold running_def [of "[]"])
qed

section \<open>What the chaos loop leaves behind\<close>

definition events_of :: "string \<Rightarrow> chaos_event list \<Rightarrow> chaos_event list" where
  "events_of name events = filter (\<lambda>e. ce_target e = name) events"

text \<open>How a process and its events relate to the process before the loop.\<close>

definition accounts :: "bool \<Rightarrow> chaos_event list \<Rightarrow> mproc \<Rightarrow> mproc \<Rightarrow> bool" where
  "accounts all_survive evs p p' \<longleftrightarrow>
     mp_restart_count p' = mp_restart_count p + length evs \<and>
     mp_crash_on_restart_count p' = mp_crash_on_restart_count p + length (filter (\<lambda>e. \<not> ce_alive e) evs) \<and>
     map ce_restart_count evs = [Suc (mp_restart_count p)..<Suc (mp_restart_count p) + length evs] \<and>
     (all_survive \<and> is_alive p \<longrightarrow> is_alive p') \<and> mp_name p' = mp_name p \<and> mp_cmd p' = mp_cmd p \<and> mp_env p' = mp_env p"

lemma accounts_refl: "accounts b [] p p"
  by (simp add: accounts_def)

lemma accounts_start: "accounts b [] p (snd (start (b \<or> c) (kill p)))"
  by (simp add: accounts_def start_def kill_def is_alive_def)

lemma accounts_restart:
  assumes "accounts b evs (restarted alive (snd (start alive (kill p)))) p'" and "b \<longrightarrow> alive"
    and "ce_alive e = alive" and "ce_restart_count e = mp_restart_count p + 1"
  shows "accounts b (e # evs) p p'"
proof -
  let ?q = "restarted alive (snd (start alive (kill p)))"
  have q: "mp_restart_count ?q = Suc (mp_restart_count p)"
    "mp_crash_on_restart_count ?q = mp_crash_on_restart_count p + (if alive then 0 else 1)"
    "is_alive ?q = alive" "mp_name ?q = mp_name p" "mp_cmd ?q = mp_cmd p" "mp_env ?q = mp_env p"
    by (simp_all add: restarted_def start_def kill_def is_alive_def)
  show ?thesis
    using assms by (auto simp: accounts_def q upt_rec [of "Suc (mp_restart_count p)"])
qed

lemma chaos_loop_accounts:
  assumes "\<forall>r \<in> set rounds. map_of procs (cr_target r) \<noteq> None" and "all_survive \<longrightarrow> (\<forall>r \<in> set rounds. cr_survives r)"
  shows "\<exists>procs' evs. chaos_loop rounds (procs, events) = (procs', events @ evs) \<and>
    (\<forall>name. rel_option (accounts all_survive (events_of name evs)) (map_of procs name) (map_of procs' name))"
  using assms
proof (induction rounds arbitrary: procs events)
  case Nil
  show ?case by (simp add: events_of_def option.rel_refl accounts_refl)
next
  case (Cons r rounds)
  obtain p where p: "map_of procs (cr_target r) = Some p" using Cons.prems(1) by auto
  show ?case
  proof (cases "cr_stop_before r")
    case True
    then show ?thesis by (simp add: events_of_def option.rel_refl accounts_refl)
  next
    case go: False
    let ?p1 = "snd (start (cr_survives r) (kill p))"
    show ?thesis
    proof (cases "cr_stop_after r")
      case True
      have "accounts all_survive [] p ?p1"
        using Cons.prems(2) accounts_start [of all_survive p "cr_survives r"] by (cases all_survive) auto
      with True go p show ?thesis
        by (auto simp: start_def events_of_def option.rel_refl accounts_refl)
    next
      case False
      let ?p2 = "restarted (cr_survives r) ?p1"
      let ?e = "\<lparr>ce_t = cr_t0 r, ce_target = cr_target r, ce_alive = cr_survives r, ce_down_for = cr_down_for r,
          ce_restart_count = mp_restart_count ?p2\<rparr>"
      let ?procs = "dict_set (cr_target r) ?p2 procs"
      have "\<forall>r \<in> set rounds. map_of ?procs (cr_target r) \<noteq> None" "all_survive \<longrightarrow> (\<forall>r \<in> set rounds. cr_survives r)"
        using Cons.prems by auto
      from Cons.IH [OF this, of "events @ [?e]"] obtain procs' evs where
        IH: "chaos_loop rounds (?procs, events @ [?e]) = (procs', (events @ [?e]) @ evs)"
        "\<forall>name. rel_option (accounts all_survive (events_of name evs)) (map_of ?procs name) (map_of procs' name)"
        by blast
      have "rel_option (accounts all_survive (events_of name (?e # evs))) (map_of procs name) (map_of procs' name)" for name
      proof (cases "name = cr_target r")
        case True
        obtain p' where p': "map_of procs' name = Some p'" "accounts all_survive (events_of name evs) ?p2 p'"
          using IH(2) [rule_format, of name] True by (auto simp: option_rel_Some1)
        have "accounts all_survive (?e # events_of name evs) p p'"
          using p'(2) Cons.prems(2) by (intro accounts_restart) (auto simp: start_def kill_def restarted_def)
        with p p'(1) True show ?thesis by (simp add: events_of_def)
      next
        case False
        with IH(2) [rule_format, of name] show ?thesis by (simp add: events_of_def)
      qed
      moreover have "chaos_loop (r # rounds) (procs, events) = (procs', events @ ?e # evs)"
        using go False p IH(1) by (simp add: start_def Let_def)
      ultimately show ?thesis by blast
    qed
  qed
qed


definition demo_round :: chaos_round where
  "demo_round = \<lparr>cr_stop_before = False, cr_target = ''shard-0-0'', cr_t0 = 3, cr_down_for = 1, cr_stop_after = False, cr_survives = True\<rparr>"


end
