(* ===== verification/Chaos_Writers.thy ===== *)
theory Chaos_Writers
  imports Chaos
begin

text \<open>
  The writers and the validator of \<^verbatim>\<open>chaos_harness.py\<close> running together. A writer thread of \<^verbatim>\<open>writer_loop\<close>
  reads the shared counter once for the id and once more for the increment and takes no lock for
  either, so each of these accesses is a step of its own. The validator takes its snapshot of the
  confirmed count and later receives an answer. The cluster is a set of ids that keeps every
  write it confirms: the question is what the harness then reports.
\<close>

datatype cpc =
    C_Loop
  | C_Id string
  | C_Read string nat
  | C_Minted string
  | C_Sent string
  | C_Done

record hconfig =
  hc_threads :: "cpc list"
  hc_counter :: nat
  hc_stats :: hstats
  hc_store :: "string set"
  hc_snapshot :: "nat option"
  hc_val :: vstate

definition chaos_id :: "nat \<Rightarrow> string" where
  "chaos_id i = ''chaos-'' @ dec i"

text \<open>
  One step of a writer: the program counter, the counter, the statistics and the store it changes.
  An answer is the status and whether the cluster keeps the vector; a status 201 promises that it does.
\<close>

inductive writer_step ::
  "cpc \<times> nat \<times> hstats \<times> string set \<Rightarrow> cpc \<times> nat \<times> hstats \<times> string set \<Rightarrow> bool" where
  stop: "writer_step (C_Loop, c, s, st) (C_Done, c, s, st)"
| fmt_id: "writer_step (C_Loop, c, s, st) (C_Id (chaos_id c), c, s, st)"
| read_ctr: "writer_step (C_Id i, c, s, st) (C_Read i c, c, s, st)"
| store_ctr: "writer_step (C_Read i r, c, s, st) (C_Minted i, r + 1, s, st)"
| attempt: "writer_step (C_Minted i, c, s, st) (C_Sent i, c, record_attempt s, st)"
| confirm: "writer_step (C_Sent i, c, s, st) (C_Loop, c, record_confirmed i s, insert i st)"
| fail_kept: "writer_step (C_Sent i, c, s, st) (C_Loop, c, record_failed s, insert i st)"
| fail_lost: "writer_step (C_Sent i, c, s, st) (C_Loop, c, record_failed s, st)"

inductive_cases writer_stepE: "writer_step (pc, c, s, st) (pc', c', s', st')"

text \<open>The answer of a coordinator that sees every shard: the number of ids the cluster holds.\<close>

definition full_answer :: "string set \<Rightarrow> stats_body" where
  "full_answer st = \<lparr>sb_total = Some (card st), sb_degraded = False, sb_replicas = []\<rparr>"

inductive hstep :: "hconfig \<Rightarrow> hconfig \<Rightarrow> bool" where
  writer: "writer_step (pc, hc_counter h, hc_stats h, hc_store h) (pc', c', s', st') \<Longrightarrow>
    hc_threads h = xs @ pc # ys \<Longrightarrow>
    hstep h (h\<lparr>hc_threads := xs @ pc' # ys, hc_counter := c', hc_stats := s', hc_store := st'\<rparr>)"
| snap: "hstep h (h\<lparr>hc_snapshot := Some (hs_confirmed (hc_stats h))\<rparr>)"
| ask: "hc_snapshot h = Some c \<Longrightarrow>
    hstep h (h\<lparr>hc_val := check_answer c n (Some (200, full_answer (hc_store h))) (hc_val h)\<rparr>)"

definition harness_init :: "nat \<Rightarrow> hconfig" where
  "harness_init writers = \<lparr>hc_threads = replicate writers C_Loop, hc_counter = 0, hc_stats = new_stats,
     hc_store = {}, hc_snapshot = None,
     hc_val = \<lparr>vs_violations = [], vs_checks_run = 0, vs_degraded_dips = 0\<rparr>\<rparr>"

section \<open>One writer\<close>

text \<open>What holds of a single writer: the id it is about to use is new.\<close>

definition minted_ids :: "nat \<Rightarrow> string set" where
  "minted_ids c = chaos_id ` {..<c}"

fun pc_ok :: "nat \<Rightarrow> string list \<Rightarrow> cpc \<Rightarrow> bool" where
  "pc_ok c ids (C_Id i) \<longleftrightarrow> i = chaos_id c"
| "pc_ok c ids (C_Read i r) \<longleftrightarrow> i = chaos_id c \<and> r = c"
| "pc_ok c ids (C_Minted i) \<longleftrightarrow> i \<in> minted_ids c - set ids"
| "pc_ok c ids (C_Sent i) \<longleftrightarrow> i \<in> minted_ids c - set ids"
| "pc_ok c ids _ \<longleftrightarrow> True"

definition single_inv :: "hconfig \<Rightarrow> bool" where
  "single_inv h \<longleftrightarrow>
     (\<exists>pc. hc_threads h = [pc] \<and> pc_ok (hc_counter h) (hs_confirmed_ids (hc_stats h)) pc) \<and>
     hs_confirmed (hc_stats h) = length (hs_confirmed_ids (hc_stats h)) \<and>
     distinct (hs_confirmed_ids (hc_stats h)) \<and> set (hs_confirmed_ids (hc_stats h)) \<subseteq> hc_store h \<and>
     set (hs_confirmed_ids (hc_stats h)) \<subseteq> minted_ids (hc_counter h) \<and> finite (hc_store h) \<and>
     (\<forall>c. hc_snapshot h = Some c \<longrightarrow> c \<le> hs_confirmed (hc_stats h)) \<and> vs_violations (hc_val h) = []"

lemma chaos_id_inj [simp]: "chaos_id i = chaos_id j \<longleftrightarrow> i = j"
  by (simp add: chaos_id_def)

lemma chaos_id_minted: "chaos_id i \<in> minted_ids c \<longleftrightarrow> i < c"
  by (auto simp: minted_ids_def)

lemma minted_ids_Suc: "minted_ids (Suc c) = insert (chaos_id c) (minted_ids c)"
  by (auto simp: minted_ids_def lessThan_Suc)

lemma single_inv_init: "single_inv (harness_init 1)"
  by (simp add: single_inv_def harness_init_def new_stats_def)

lemma no_false_loss:
  assumes "single_inv h" and "hc_snapshot h = Some c"
  shows "vs_violations (check_answer c n (Some (200, full_answer (hc_store h))) v) = vs_violations v"
proof -
  have "c \<le> length (hs_confirmed_ids (hc_stats h))" using assms by (auto simp: single_inv_def)
  also have "\<dots> = card (set (hs_confirmed_ids (hc_stats h)))"
    using assms(1) by (simp add: single_inv_def distinct_card)
  also have "\<dots> \<le> card (hc_store h)" using assms(1) by (intro card_mono) (auto simp: single_inv_def)
  finally show ?thesis
    by (simp add: check_answer_def check_total_def full_answer_def double_primaries_def group_by_def Let_def List.map_filter_simps)
qed

lemma single_inv_step: "hstep h h' \<Longrightarrow> single_inv h \<Longrightarrow> single_inv h'"
proof (induction rule: hstep.induct)
  case (writer pc h pc' c' s' st' xs ys)
  then have one: "xs = []" "ys = []" by (auto simp: single_inv_def append_eq_Cons_conv)
  have new: "chaos_id (hc_counter h) \<notin> set (hs_confirmed_ids (hc_stats h))"
    using writer.prems by (auto simp: single_inv_def chaos_id_minted)
  from writer.hyps(1) show ?case
    by (cases rule: writer_stepE)
       (use writer one new in \<open>auto simp: single_inv_def record_attempt_def record_confirmed_def record_failed_def
          minted_ids_Suc le_Suc_eq\<close>)
next
  case (snap h)
  then show ?case by (auto simp: single_inv_def)
next
  case (ask h c n)
  then show ?case using no_false_loss [of h c n "hc_val h"] by (simp add: single_inv_def)
qed

text \<open>
  C27. The validator's order of reading is right: with one writer thread and a cluster that keeps
  every write it confirms, no interleaving of the writer, the snapshot and the answers ever makes
  the harness report a lost write, and no id is confirmed twice.
\<close>

theorem one_writer_no_false_alarm:
  assumes "hstep\<^sup>*\<^sup>* (harness_init 1) h"
  shows "vs_violations (hc_val h) = [] \<and> duplicate_id_count (hc_stats h) = 0"
proof -
  have "single_inv h" using assms
  proof (induction rule: rtranclp_induct)
    case base
    show ?case by (rule single_inv_init)
  qed (rule single_inv_step)
  then show ?thesis by (simp add: single_inv_def duplicate_id_count_def distinct_card)
qed

theorem one_writer_no_false_alarm_witness:
  "\<exists>h. hstep\<^sup>*\<^sup>* (harness_init 1) h \<and> hc_snapshot h = Some 0 \<and> vs_violations (hc_val h) = []"
proof -
  let ?h = "(harness_init 1)\<lparr>hc_snapshot := Some (hs_confirmed (hc_stats (harness_init 1)))\<rparr>"
  have "hstep\<^sup>*\<^sup>* (harness_init 1) ?h" by (intro r_into_rtranclp hstep.snap)
  from this one_writer_no_false_alarm [OF this] show ?thesis
    by (intro exI [of _ ?h]) (simp add: harness_init_def new_stats_def)
qed

section \<open>Two writers\<close>

definition pair_config :: "cpc \<Rightarrow> cpc \<Rightarrow> nat \<Rightarrow> hstats \<Rightarrow> string set \<Rightarrow> nat option \<Rightarrow> violation list \<Rightarrow> nat \<Rightarrow> hconfig" where
  "pair_config p q c s st sn vio k = \<lparr>hc_threads = [p, q], hc_counter = c, hc_stats = s, hc_store = st,
     hc_snapshot = sn, hc_val = \<lparr>vs_violations = vio, vs_checks_run = k, vs_degraded_dips = 0\<rparr>\<rparr>"

lemma pair_init: "harness_init 2 = pair_config C_Loop C_Loop 0 new_stats {} None [] 0"
  by (simp add: harness_init_def pair_config_def numeral_2_eq_2)

lemma first_steps:
  "writer_step (p, c, s, st) (p', c', s', st') \<Longrightarrow> hstep (pair_config p q c s st sn vio k) (pair_config p' q c' s' st' sn vio k)"
  using hstep.writer [of p "pair_config p q c s st sn vio k" p' c' s' st' "[]" "[q]"] by (simp add: pair_config_def)

lemma second_steps:
  "writer_step (q, c, s, st) (q', c', s', st') \<Longrightarrow> hstep (pair_config p q c s st sn vio k) (pair_config p q' c' s' st' sn vio k)"
  using hstep.writer [of q "pair_config p q c s st sn vio k" q' c' s' st' "[p]" "[]"] by (simp add: pair_config_def)

lemma snap_step: "hstep (pair_config p q c s st sn vio k) (pair_config p q c s st (Some (hs_confirmed s)) vio k)"
  using hstep.snap [of "pair_config p q c s st sn vio k"] by (simp add: pair_config_def)

lemma ask_step:
  assumes "card st < b"
  shows "hstep (pair_config p q c s st (Some b) vio k) (pair_config p q c s st (Some b) (vio @ [Lost_write 0 (card st) b]) (k + 1))"
  using hstep.ask [of "pair_config p q c s st (Some b) vio k" b 0] assms
  by (simp add: pair_config_def check_answer_def check_total_def full_answer_def double_primaries_def group_by_def Let_def
      List.map_filter_simps)

text \<open>From the loop to a confirmed write of an id that was formatted before.\<close>

lemma first_confirms:
  "hstep\<^sup>*\<^sup>* (pair_config (C_Id i) q c s st sn vio k)
     (pair_config C_Loop q (c + 1) (record_confirmed i (record_attempt s)) (insert i st) sn vio k)"
proof -
  note [trans] = rtranclp.rtrancl_into_rtrancl
  have "hstep\<^sup>*\<^sup>* (pair_config (C_Id i) q c s st sn vio k) (pair_config (C_Id i) q c s st sn vio k)" ..
  also have "hstep \<dots> (pair_config (C_Read i c) q c s st sn vio k)" by (intro first_steps writer_step.read_ctr)
  also have "hstep \<dots> (pair_config (C_Minted i) q (c + 1) s st sn vio k)" by (intro first_steps writer_step.store_ctr)
  also have "hstep \<dots> (pair_config (C_Sent i) q (c + 1) (record_attempt s) st sn vio k)" by (intro first_steps writer_step.attempt)
  also have "hstep \<dots> (pair_config C_Loop q (c + 1) (record_confirmed i (record_attempt s)) (insert i st) sn vio k)"
    by (intro first_steps writer_step.confirm)
  finally show ?thesis .
qed

lemma second_confirms:
  "hstep\<^sup>*\<^sup>* (pair_config p (C_Id i) c s st sn vio k)
     (pair_config p C_Loop (c + 1) (record_confirmed i (record_attempt s)) (insert i st) sn vio k)"
proof -
  note [trans] = rtranclp.rtrancl_into_rtrancl
  have "hstep\<^sup>*\<^sup>* (pair_config p (C_Id i) c s st sn vio k) (pair_config p (C_Id i) c s st sn vio k)" ..
  also have "hstep \<dots> (pair_config p (C_Read i c) c s st sn vio k)" by (intro second_steps writer_step.read_ctr)
  also have "hstep \<dots> (pair_config p (C_Minted i) (c + 1) s st sn vio k)" by (intro second_steps writer_step.store_ctr)
  also have "hstep \<dots> (pair_config p (C_Sent i) (c + 1) (record_attempt s) st sn vio k)" by (intro second_steps writer_step.attempt)
  also have "hstep \<dots> (pair_config p C_Loop (c + 1) (record_confirmed i (record_attempt s)) (insert i st) sn vio k)"
    by (intro second_steps writer_step.confirm)
  finally show ?thesis .
qed


end
