(* ===== verification/Qdrant_Topology.thy ===== *)
theory Qdrant_Topology
  imports Py_Dict Py_Text
begin

text \<open>
  The Qdrant cluster of \<^verbatim>\<open>research/cross_system_replication/qdrant_topology.py\<close>: port layout, names, the
  compose file, and the loops that wait until nodes, cluster and shards are ready. What a node
  answers to a request is an input; \<open>None\<close> stands for a request that raises.
\<close>

section \<open>Ports and names\<close>

definition Q_NUM_SHARDS :: nat where "Q_NUM_SHARDS = 2"
definition Q_REPLICAS_PER_SHARD :: nat where "Q_REPLICAS_PER_SHARD = 3"
definition COLLECTION :: string where "COLLECTION = ''cross_system_replica_recall''"
definition Q_VECTOR_DIM :: nat where "Q_VECTOR_DIM = 128"
definition QDRANT_IMAGE :: string where
  "QDRANT_IMAGE = ''qdrant/qdrant@sha256:057ee3a8da769fe7310dd3537b4dc7583bf87a95ce8ac43c0af5a46bc580d1fc''"
definition HTTP_BASE_PORT :: nat where "HTTP_BASE_PORT = 16333"
definition GRPC_BASE_PORT :: nat where "GRPC_BASE_PORT = 16350"
definition INTERNAL_BASE_PORT :: nat where "INTERNAL_BASE_PORT = 16370"
definition PROJECT :: string where "PROJECT = ''rrd-qdrant''"

lemmas qdrant_constants = Q_NUM_SHARDS_def Q_REPLICAS_PER_SHARD_def COLLECTION_def Q_VECTOR_DIM_def
  HTTP_BASE_PORT_def GRPC_BASE_PORT_def INTERNAL_BASE_PORT_def PROJECT_def

definition http_port :: "nat \<Rightarrow> nat" where "http_port node = HTTP_BASE_PORT + node"
definition grpc_port :: "nat \<Rightarrow> nat" where "grpc_port node = GRPC_BASE_PORT + node"
definition internal_port :: "nat \<Rightarrow> nat" where "internal_port node = INTERNAL_BASE_PORT + node"
definition probe_port_fn :: "nat \<Rightarrow> nat \<Rightarrow> nat" where "probe_port_fn shard_id replica_id = internal_port replica_id"

lemmas port_defs = http_port_def grpc_port_def internal_port_def probe_port_fn_def

definition container_name :: "nat \<Rightarrow> string" where
  "container_name node = PROJECT @ ''-node'' @ dec node"

definition node_service_name :: "nat \<Rightarrow> string" where
  "node_service_name node = ''qdrant-node'' @ dec node"

section \<open>The compose file\<close>

record service =
  sv_image :: string
  sv_container_name :: string
  sv_environment :: "string list"
  sv_command :: "string list"
  sv_ports :: "string list"
  sv_volumes :: "string list"
  sv_depends_on :: "string list option"

record compose =
  co_services :: "(string, service) dict"
  co_volumes :: "string list"

definition node_uri :: "nat \<Rightarrow> string" where
  "node_uri n = ''http://'' @ node_service_name n @ '':6335''"

definition node_service :: "nat \<Rightarrow> service" where
  "node_service n =
     \<lparr>sv_image = QDRANT_IMAGE, sv_container_name = container_name n,
      sv_environment = [''QDRANT__CLUSTER__ENABLED=true''],
      sv_command = (if 0 < n then [''./qdrant'', ''--bootstrap'', node_uri 0, ''--uri'', node_uri n]
                    else [''./qdrant'', ''--uri'', node_uri n]),
      sv_ports = [dec (http_port n) @ '':6333'', dec (grpc_port n) @ '':6334'', dec (internal_port n) @ '':6335''],
      sv_volumes = [PROJECT @ ''-data'' @ dec n @ '':/qdrant/storage''],
      sv_depends_on = (if 0 < n then Some [node_service_name 0] else None)\<rparr>"

definition compose_of :: compose where
  "compose_of =
     \<lparr>co_services = foldl (\<lambda>d n. dict_set (node_service_name n) (node_service n) d) [] [0..<Q_REPLICAS_PER_SHARD],
      co_volumes = map (\<lambda>n. PROJECT @ ''-data'' @ dec n) [0..<Q_REPLICAS_PER_SHARD]\<rparr>"

definition service_lines :: "string \<times> service \<Rightarrow> string list" where
  "service_lines sc =
     (let (svc, cfg) = sc
      in [''  '' @ svc @ '':'', ''    image: '' @ sv_image cfg, ''    container_name: '' @ sv_container_name cfg,
          ''    environment:''] @ map (\<lambda>e. ''      - '' @ e) (sv_environment cfg) @
         [''    command: ['' @ join '', '' (map (\<lambda>c. [CHR 0x22] @ c @ [CHR 0x22]) (sv_command cfg)) @ '']'', ''    ports:''] @
         map (\<lambda>p. ''      - '' @ [CHR 0x22] @ p @ [CHR 0x22]) (sv_ports cfg) @
         [''    volumes:''] @ map (\<lambda>v. ''      - '' @ v) (sv_volumes cfg) @
         (case sv_depends_on cfg of None \<Rightarrow> [] | Some ds \<Rightarrow> ''    depends_on:'' # map (\<lambda>d. ''      - '' @ d) ds))"

definition yaml_lines :: "compose \<Rightarrow> string list" where
  "yaml_lines c = [''services:''] @ concat (map service_lines (co_services c)) @
     [''volumes:''] @ map (\<lambda>v. ''  '' @ v @ '':'') (co_volumes c)"

definition write_yaml :: "compose \<Rightarrow> string" where
  "write_yaml c = join [CHR 0x0A] (yaml_lines c) @ [CHR 0x0A]"

definition write_compose_file :: string where
  "write_compose_file = write_yaml compose_of"

section \<open>Waiting\<close>

text \<open>
  The rounds of a waiting loop are those that begin before its deadline. A round gives the answer
  of each node: a status, and for \<^verbatim>\<open>/cluster\<close> the reported state and number of peers.
\<close>

fun wait_for_nodes_ready :: "(nat \<Rightarrow> int option) list \<Rightarrow> nat set \<Rightarrow> bool" where
  "wait_for_nodes_ready [] pending \<longleftrightarrow> pending = {}"
| "wait_for_nodes_ready (answers # rounds) pending \<longleftrightarrow>
     (if pending = {} then True else wait_for_nodes_ready rounds {n \<in> pending. answers n \<noteq> Some 200})"

type_synonym peers_answer = "(int \<times> string option \<times> nat) option"

definition node_joined :: "nat \<Rightarrow> peers_answer \<Rightarrow> bool" where
  "node_joined n_nodes a \<longleftrightarrow>
     (case a of None \<Rightarrow> False
      | Some (status, state, peers) \<Rightarrow> \<not> (status \<noteq> 200 \<or> state \<noteq> Some ''enabled'' \<or> peers < n_nodes))"

fun wait_for_cluster_formed :: "(nat \<Rightarrow> peers_answer) list \<Rightarrow> nat list \<Rightarrow> bool" where
  "wait_for_cluster_formed [] node_ids \<longleftrightarrow> False"
| "wait_for_cluster_formed (answers # rounds) node_ids \<longleftrightarrow>
     (if list_all (\<lambda>n. node_joined (length node_ids) (answers n)) node_ids then True
      else wait_for_cluster_formed rounds node_ids)"

record collection_body =
  cb_size :: nat
  cb_distance :: string
  cb_shard_number :: nat
  cb_replication_factor :: nat
  cb_write_consistency_factor :: nat
  cb_indexing_threshold :: "int option"

text \<open>\<open>http\<close> answers the request with a status or raises; nothing catches it here.\<close>

definition create_collection :: "(nat \<Rightarrow> string \<Rightarrow> collection_body \<Rightarrow> int res) \<Rightarrow> nat \<Rightarrow> int option \<Rightarrow> bool res" where
  "create_collection http node indexing_threshold_kb =
     (let body = \<lparr>cb_size = Q_VECTOR_DIM, cb_distance = ''Euclid'', cb_shard_number = Q_NUM_SHARDS,
                  cb_replication_factor = Q_REPLICAS_PER_SHARD, cb_write_consistency_factor = 1,
                  cb_indexing_threshold = indexing_threshold_kb\<rparr>
      in bindE (http (http_port node) (''/collections/'' @ COLLECTION) body) (\<lambda>status. Inr (status = 200)))"

text \<open>The states of the local and remote shards that the first node reports.\<close>

type_synonym shards_answer = "(int \<times> string option list \<times> string option list) option"

definition shards_active :: "shards_answer \<Rightarrow> bool" where
  "shards_active a \<longleftrightarrow>
     (case a of None \<Rightarrow> False
      | Some (status, local, remote) \<Rightarrow>
          status = 200 \<and> Q_NUM_SHARDS * Q_REPLICAS_PER_SHARD \<le> length local + length remote \<and>
          list_all (\<lambda>s. s = Some ''Active'') (local @ remote))"

fun wait_for_shards_active :: "(nat \<Rightarrow> shards_answer) list \<Rightarrow> nat list \<Rightarrow> bool" where
  "wait_for_shards_active [] node_ids \<longleftrightarrow> False"
| "wait_for_shards_active (answers # rounds) node_ids \<longleftrightarrow>
     (if (case node_ids of [] \<Rightarrow> False | n # _ \<Rightarrow> shards_active (answers n)) then True
      else wait_for_shards_active rounds node_ids)"

section \<open>What the layout guarantees\<close>

lemma ports_distinct:
  "distinct (concat (map (\<lambda>n. [http_port n, grpc_port n, internal_port n]) [0..<Q_REPLICAS_PER_SHARD]))"
  by (simp add: port_defs qdrant_constants upt_rec)

lemma container_name_inj [simp]: "container_name m = container_name n \<longleftrightarrow> m = n"
  by (simp add: container_name_def)

lemma node_service_name_inj [simp]: "node_service_name m = node_service_name n \<longleftrightarrow> m = n"
  by (simp add: node_service_name_def)

text \<open>The lines of one service in a compose file: those after its name up to the next shallower line.\<close>

definition service_block :: "string \<Rightarrow> string list \<Rightarrow> string list" where
  "service_block svc ls = takeWhile (starts_with ''    '') (tl (dropWhile (\<lambda>l. l \<noteq> ''  '' @ svc @ '':'') ls))"

lemma compose_services: "co_services compose_of = map (\<lambda>n. (node_service_name n, node_service n)) [0..<Q_REPLICAS_PER_SHARD]"
  by (simp add: compose_of_def Q_REPLICAS_PER_SHARD_def upt_rec dict_set_fresh)

lemma wait_for_nodes_ready_iff:
  "wait_for_nodes_ready rounds pending \<longleftrightarrow> (\<forall>n \<in> pending. \<exists>a \<in> set rounds. a n = Some 200)"
  by (induction rounds arbitrary: pending) auto

lemma wait_for_cluster_formed_iff:
  "wait_for_cluster_formed rounds node_ids \<longleftrightarrow>
     (\<exists>a \<in> set rounds. \<forall>n \<in> set node_ids. node_joined (length node_ids) (a n))"
  by (induction rounds) (auto simp: list_all_iff)

lemma wait_for_shards_active_iff:
  "wait_for_shards_active rounds node_ids \<longleftrightarrow>
     node_ids \<noteq> [] \<and> (\<exists>a \<in> set rounds. shards_active (a (hd node_ids)))"
  by (induction rounds) (auto split: list.splits)

text \<open>
  The file can be read back line by line, and each node finds its own block there: the container
  the fault injection kills, and the host port on which every probe of that node reaches the
  internal service.
\<close>

lemma compose_lines: "split_on (CHR 0x0A) (join [CHR 0x0A] (yaml_lines compose_of)) = yaml_lines compose_of"
proof (rule split_on_join)
  have d: "CHR 0x0A \<notin> set (dec n)" for n
  proof (induction n rule: dec.induct)
    case (1 n)
    have "CHR 0x0A \<noteq> digit d" if "d < 10" for d
    proof
      assume "CHR 0x0A = digit d"
      then have "of_char (digit d) = (of_char CHR 0x0A :: nat)" by (simp only:)
      then show False using that by (simp add: digit_def)
    qed
    from this [of n] this [of "n mod 10"] 1 show ?case by (cases "n < 10") (simp_all add: dec.simps [of n])
  qed
  show "list_all (\<lambda>x. CHR 0x0A \<notin> set x) (yaml_lines compose_of)"
    unfolding yaml_lines_def compose_services
    by (auto simp: service_lines_def node_service_def compose_of_def container_name_def node_service_name_def
        PROJECT_def QDRANT_IMAGE_def node_uri_def list_all_iff d split: if_splits)
qed (simp add: yaml_lines_def)

lemma service_block_of_node:
  assumes "n < Q_REPLICAS_PER_SHARD"
  shows "service_block (node_service_name n) (yaml_lines compose_of) = tl (service_lines (node_service_name n, node_service n))"
proof -
  have n: "n = 0 \<or> n = 1 \<or> n = 2" using assms by (auto simp: Q_REPLICAS_PER_SHARD_def)
  have digits: "dec 0 = ''0''" "dec 1 = ''1''" "dec 2 = ''2''" "dec (Suc 0) = ''1''" "dec (Suc (Suc 0)) = ''2''" by code_simp+
  from n show ?thesis
    unfolding yaml_lines_def compose_services
    by (elim disjE) (simp_all add: service_block_def service_lines_def node_service_def Q_REPLICAS_PER_SHARD_def upt_rec
        node_service_name_def digits starts_with_def numeral_2_eq_2)
qed

theorem compose_serves_probes:
  assumes "n < Q_REPLICAS_PER_SHARD"
  defines "block \<equiv> service_block (node_service_name n) (yaml_lines compose_of)"
  shows "''    container_name: '' @ container_name n \<in> set block"
    and "''      - '' @ [CHR 0x22] @ dec (probe_port_fn s n) @ '':6335'' @ [CHR 0x22] \<in> set block"
    and "''      - '' @ [CHR 0x22] @ dec (http_port n) @ '':6333'' @ [CHR 0x22] \<in> set block"
  unfolding block_def service_block_of_node [OF assms(1)]
  by (simp_all add: service_lines_def node_service_def probe_port_fn_def)

end
