(* ===== verification/Qdrant_Harness.thy ===== *)
theory Qdrant_Harness
  imports Qdrant_Topology
begin

text \<open>
  The fault injection of the Qdrant experiments,
  \<^verbatim>\<open>research/cross_system_replication/qdrant_docker_harness.py\<close>: containers, the validator that looks for
  two leaders, the controlled kill schedules and the two loops that inject faults. What a docker
  call answers (or that it raises), what a node reports, the stop event and the clock are inputs.
\<close>

section \<open>Containers\<close>

text \<open>A docker call returns a value or raises; \<open>Raises True\<close> is \<^verbatim>\<open>TimeoutExpired\<close>.\<close>

datatype 'a docker = Answers 'a | Raises bool

fun bindD :: "'a docker \<Rightarrow> ('a \<Rightarrow> 'b docker) \<Rightarrow> 'b docker" where
  "bindD (Answers x) f = f x"
| "bindD (Raises t) f = Raises t"

record container =
  mc_name :: string
  mc_restart_count :: nat
  mc_crash_on_restart_count :: nat

text \<open>What docker answers in one kill: \<^verbatim>\<open>inspect\<close>, \<^verbatim>\<open>kill\<close>, \<^verbatim>\<open>start\<close>, and \<^verbatim>\<open>inspect\<close> after the grace period.\<close>

record docker_io =
  io_inspect :: "(int \<times> string) docker"
  io_kill :: "unit docker"
  io_start :: "unit docker"
  io_inspect_after :: "(int \<times> string) docker"

definition container_alive :: "(int \<times> string) docker \<Rightarrow> bool docker" where
  "container_alive r = bindD r (\<lambda>(returncode, stdout). Answers (returncode = 0 \<and> strip stdout = ''true''))"

definition container_start :: "docker_io \<Rightarrow> bool docker" where
  "container_start io = bindD (io_start io) (\<lambda>_. container_alive (io_inspect_after io))"

definition container_restart :: "docker_io \<Rightarrow> container \<Rightarrow> bool docker \<times> container" where
  "container_restart io c =
     (case io_kill io of
        Raises t \<Rightarrow> (Raises t, c)
      | Answers _ \<Rightarrow>
          (let c1 = c\<lparr>mc_restart_count := mc_restart_count c + 1\<rparr>
           in case container_start io of
                Raises t \<Rightarrow> (Raises t, c1)
              | Answers alive \<Rightarrow>
                  (Answers alive, if alive then c1 else c1\<lparr>mc_crash_on_restart_count := mc_crash_on_restart_count c1 + 1\<rparr>)))"

definition build_containers :: "nat list \<Rightarrow> (string, container) dict" where
  "build_containers node_ids =
     foldl (\<lambda>d n. dict_set (container_name n)
       \<lparr>mc_name = container_name n, mc_restart_count = 0, mc_crash_on_restart_count = 0\<rparr> d) [] node_ids"

section \<open>The validator\<close>

text \<open>What one node answers to \<^verbatim>\<open>GET /cluster\<close>: status, and the role and term it reports.\<close>

type_synonym cluster_answer = "int \<times> string option \<times> int option"

record qvalidator =
  qv_violations :: "(nat, int option) dict list"
  qv_checks_run :: nat
  qv_last_leader_term :: "(nat, int option) dict"

fun leader_of :: "nat \<times> cluster_answer option \<Rightarrow> (nat \<times> int option) option" where
  "leader_of (n, Some (status, role, term)) =
     (if status = 200 \<and> role = Some ''Leader'' then Some (n, term) else None)"
| "leader_of (n, None) = None"

definition qdrant_validator_round :: "(nat \<times> cluster_answer option) list \<Rightarrow> qvalidator \<Rightarrow> qvalidator" where
  "qdrant_validator_round answers v =
     (let checks = length (filter (\<lambda>(n, a). case a of None \<Rightarrow> False | Some (status, _) \<Rightarrow> status = 200) answers);
          leaders = foldl (\<lambda>d (n, term). dict_set n term d) [] (List.map_filter leader_of answers);
          terms = set (map snd leaders)
      in \<lparr>qv_violations = qv_violations v @ (if 1 < length leaders \<and> card terms = 1 then [leaders] else []),
          qv_checks_run = qv_checks_run v + checks,
          qv_last_leader_term = foldl (\<lambda>d (n, term). dict_set n term d) (qv_last_leader_term v) leaders\<rparr>)"

section \<open>Controlled schedules\<close>

definition SHORT_GAP_S :: real where "SHORT_GAP_S = 5"
definition LONG_GAP_S :: real where "LONG_GAP_S = 40"
definition FIXED_DOWN_S :: real where "FIXED_DOWN_S = 4.5"

definition KILL_CONDITIONS :: "string list" where
  "KILL_CONDITIONS = [''short-gap-same-node'', ''long-gap-same-node'', ''spread'']"

record kill_step =
  ks_seq :: nat
  ks_target :: string
  ks_at_s :: real
  ks_gap_s :: "real option"
  ks_down_for_s :: real

fun schedule_from :: "real \<Rightarrow> nat \<Rightarrow> real \<Rightarrow> string list \<Rightarrow> kill_step list" where
  "schedule_from gap i a [] = []"
| "schedule_from gap i a (t # ts) =
     (let a' = (if 0 < i then a + (FIXED_DOWN_S + gap) else a)
      in \<lparr>ks_seq = i, ks_target = t, ks_at_s = py_round 3 a', ks_gap_s = (if i = 0 then None else Some gap),
          ks_down_for_s = FIXED_DOWN_S\<rparr> # schedule_from gap (i + 1) a' ts)"

text \<open>The gap and the targets, or the exception. \<^verbatim>\<open>target_node or node_names[0]\<close> also replaces an empty name.\<close>

definition kill_targets :: "string \<Rightarrow> string list \<Rightarrow> nat \<Rightarrow> string option \<Rightarrow> (real \<times> string list) res" where
  "kill_targets condition node_names n target_node =
     (if condition = ''spread''
      then if length node_names < n then Inl (ValueError ''spread needs a distinct node per kill'')
           else Inr (LONG_GAP_S, take n node_names)
      else let gap = (if condition = ''short-gap-same-node'' then SHORT_GAP_S else LONG_GAP_S)
           in bindE (if target_node \<noteq> None \<and> target_node \<noteq> Some [] then Inr (the target_node)
                     else if node_names = [] then Inl IndexError else Inr (hd node_names))
                (\<lambda>chosen. if chosen \<notin> set node_names then Inl (ValueError ''not one of the nodes'')
                          else Inr (gap, replicate n chosen)))"

definition build_kill_schedule :: "string \<Rightarrow> string list \<Rightarrow> int \<Rightarrow> real \<Rightarrow> string option \<Rightarrow> kill_step list res" where
  "build_kill_schedule condition node_names n_kills window_s target_node =
     (if condition \<notin> set KILL_CONDITIONS then Inl (ValueError ''unknown condition'')
      else if n_kills < 2 then Inl (ValueError ''n_kills must be >= 2'')
      else bindE (kill_targets condition node_names (nat n_kills) target_node) (\<lambda>(gap, targets).
        let schedule = schedule_from gap 0 0 targets; span = ks_at_s (last schedule) + FIXED_DOWN_S
        in if window_s < span then Inl (ValueError ''does not fit the chaos window'') else Inr schedule))"

section \<open>Executing a schedule\<close>

record sched_event =
  ev_t :: real
  ev_target :: string
  ev_alive :: "bool option"
  ev_down_for_s :: real
  ev_restart_count :: nat
  ev_condition :: string
  ev_seq :: nat
  ev_requested_at_s :: real
  ev_realized_at_s :: real
  ev_requested_gap_s :: "real option"
  ev_realized_gap_s :: "real option"
  ev_killed_while_down :: "bool option"
  ev_failed :: bool
  ev_timed_out :: bool

text \<open>
  What happens around one step: the clock when the wait is computed, whether \<^verbatim>\<open>stop_evt.wait\<close> reports a
  stop, whether the event is set afterwards, the time of the kill, docker's answers, whether the
  stop event comes while the container is down, and the time after the restart.
\<close>

record sched_env =
  se_now :: real
  se_wait_stopped :: bool
  se_stop_set :: bool
  se_t0 :: real
  se_io :: docker_io
  se_down_stopped :: bool
  se_t1 :: real

text \<open>The body of the \<^verbatim>\<open>try\<close>: whether the container was running, then whether it runs again; or a stop.\<close>

definition try_kill :: "docker_io \<Rightarrow> bool \<Rightarrow> (bool \<times> bool option) docker" where
  "try_kill io down_stopped =
     bindD (container_alive (io_inspect io)) (\<lambda>was_alive.
       bindD (io_kill io) (\<lambda>_.
         bindD (container_start io) (\<lambda>alive. Answers (was_alive, if down_stopped then None else Some alive))))"

definition sched_event_of ::
  "real \<Rightarrow> string \<Rightarrow> container \<Rightarrow> kill_step \<Rightarrow> sched_env \<Rightarrow> real option \<Rightarrow> (bool \<times> bool) docker \<Rightarrow> sched_event" where
  "sched_event_of started condition c step e prev r =
     \<lparr>ev_t = se_t0 e, ev_target = ks_target step,
      ev_alive = (case r of Raises _ \<Rightarrow> None | Answers (_, alive) \<Rightarrow> Some alive),
      ev_down_for_s = ks_down_for_s step, ev_restart_count = mc_restart_count c,
      ev_condition = condition, ev_seq = ks_seq step, ev_requested_at_s = ks_at_s step,
      ev_realized_at_s = py_round 3 (se_t0 e - started), ev_requested_gap_s = ks_gap_s step,
      ev_realized_gap_s = map_option (\<lambda>p. py_round 3 (se_t0 e - p)) prev,
      ev_killed_while_down = (case r of Raises _ \<Rightarrow> None | Answers (was_alive, _) \<Rightarrow> Some (\<not> was_alive)),
      ev_failed = (case r of Raises _ \<Rightarrow> True | Answers _ \<Rightarrow> False),
      ev_timed_out = (case r of Raises t \<Rightarrow> t | Answers _ \<Rightarrow> False)\<rparr>"

fun chaos_loop_scheduled ::
  "real \<Rightarrow> string \<Rightarrow> (string, container) dict \<Rightarrow> (kill_step \<times> sched_env) list \<Rightarrow> (string, real) dict \<Rightarrow>
   sched_event list \<Rightarrow> unit res \<times> sched_event list" where
  "chaos_loop_scheduled started condition cs [] last_restart events = (Inr (), events)"
| "chaos_loop_scheduled started condition cs ((step, e) # rest) last_restart events =
     (let wait = ks_at_s step - (se_now e - started); name = ks_target step
      in if 0 < wait \<and> se_wait_stopped e then (Inr (), events)
         else if se_stop_set e then (Inr (), events)
         else case map_of cs name of
           None \<Rightarrow> (Inl (KeyError name), events)
         | Some c \<Rightarrow>
             let prev = map_of last_restart name
             in case try_kill (se_io e) (se_down_stopped e) of
                  Raises t \<Rightarrow>
                    chaos_loop_scheduled started condition cs rest last_restart
                      (events @ [sched_event_of started condition c step e prev (Raises t)])
                | Answers (was_alive, None) \<Rightarrow> (Inr (), events)
                | Answers (was_alive, Some alive) \<Rightarrow>
                    chaos_loop_scheduled started condition cs rest (dict_set name (se_t1 e) last_restart)
                      (events @ [sched_event_of started condition c step e prev (Answers (was_alive, alive))]))"

section \<open>The randomised loop\<close>

text \<open>
  One iteration of \<^verbatim>\<open>chaos_loop\<close>: the stop event after the pause, the random target, the time of the
  kill, docker's answers, the time down, and the stop event after it.
\<close>

record qchaos_round =
  qr_stop_before :: bool
  qr_target :: string
  qr_t0 :: real
  qr_io :: docker_io
  qr_down_for :: real
  qr_stop_after :: bool

record qchaos_event =
  qe_t :: real
  qe_target :: string
  qe_alive :: "bool option"
  qe_down_for_s :: "real option"
  qe_restart_count :: nat
  qe_failed :: bool
  qe_timed_out :: bool

fun qdrant_chaos_loop :: "(string, container) dict \<Rightarrow> qchaos_round list \<Rightarrow> qchaos_event list \<Rightarrow> qchaos_event list" where
  "qdrant_chaos_loop cs [] events = events"
| "qdrant_chaos_loop cs (r # rounds) events =
     (if qr_stop_before r then events
      else let c = the (map_of cs (qr_target r));
               ev = \<lparr>qe_t = qr_t0 r, qe_target = qr_target r, qe_alive = None, qe_down_for_s = None,
                     qe_restart_count = mc_restart_count c, qe_failed = True, qe_timed_out = False\<rparr>
           in case bindD (io_kill (qr_io r)) (\<lambda>_. container_start (qr_io r)) of
                Raises t \<Rightarrow> qdrant_chaos_loop cs rounds (events @ [ev\<lparr>qe_timed_out := t\<rparr>])
              | Answers alive \<Rightarrow>
                  if qr_stop_after r then events
                  else qdrant_chaos_loop cs rounds
                         (events @ [ev\<lparr>qe_alive := Some alive, qe_down_for_s := Some (qr_down_for r), qe_failed := False\<rparr>]))"

section \<open>What the validator reports\<close>

lemma foldl_dict_set_distinct:
  assumes "distinct (map fst d @ map fst kvs)"
  shows "foldl (\<lambda>d (k, v). dict_set k v d) d kvs = d @ kvs"
  using assms
proof (induction kvs arbitrary: d)
  case (Cons kv kvs)
  obtain k v where kv: "kv = (k, v)" by (cases kv)
  have "dict_set k v d = d @ [(k, v)]" using Cons.prems by (intro dict_set_fresh) (auto simp: kv)
  with Cons.IH [of "d @ [(k, v)]"] Cons.prems show ?case by (simp add: kv)
qed simp

lemma leader_of_Some:
  "leader_of na = Some nt \<longleftrightarrow> fst nt = fst na \<and> snd na = Some (200, Some ''Leader'', snd nt)"
  by (cases na rule: leader_of.cases; cases nt) (auto split: if_splits)

lemma map_filter_leader_of:
  "set (List.map_filter leader_of answers) = {(n, t). (n, Some (200, Some ''Leader'', t)) \<in> set answers}"
  by (auto simp: map_filter_def leader_of_Some image_iff) (metis leader_of.simps(1) option.sel)

lemma distinct_map_filter_leader_of:
  "distinct (map fst answers) \<Longrightarrow> distinct (map fst (List.map_filter leader_of answers))"
proof (induction answers)
  case (Cons a as)
  have "fst a \<notin> fst ` set (List.map_filter leader_of as)"
    using Cons.prems by (auto simp: map_filter_leader_of image_iff)
  with Cons show ?case by (auto simp: map_filter_simps leader_of_Some split: option.splits)
qed (simp add: map_filter_simps)

text \<open>
  C31. One round of the Qdrant validator adds a violation exactly when at least two nodes claim to be
  leader and all of them claim the same term. Leaders of different terms are never reported.
\<close>

theorem validator_reports_iff:
  assumes "distinct (map fst answers)"
  defines "claims \<equiv> {(n, t). (n, Some (200, Some ''Leader'', t)) \<in> set answers}"
  shows "length (qv_violations (qdrant_validator_round answers v)) =
    length (qv_violations v) + (if 2 \<le> card claims \<and> card (snd ` claims) = 1 then 1 else 0)"
proof -
  let ?ls = "List.map_filter leader_of answers"
  have d: "distinct (map fst ?ls)" using assms(1) by (rule distinct_map_filter_leader_of)
  then have "foldl (\<lambda>d (n, term). dict_set n term d) [] ?ls = ?ls"
    using foldl_dict_set_distinct [of "[]" ?ls] by simp
  moreover have "set ?ls = claims" unfolding claims_def by (rule map_filter_leader_of)
  moreover have "card (set ?ls) = length ?ls" using d by (simp add: distinct_map distinct_card)
  ultimately show ?thesis by (auto simp: qdrant_validator_round_def Let_def)
qed

theorem validator_reports_iff_witness:
  "length (qv_violations (qdrant_validator_round
      [(0, Some (200, Some ''Leader'', Some 7)), (1, Some (200, Some ''Leader'', Some 8)), (2, None)]
      \<lparr>qv_violations = [], qv_checks_run = 0, qv_last_leader_term = []\<rparr>)) = 0"
proof -
  let ?as = "[(0, Some (200, Some ''Leader'', Some 7)), (1, Some (200, Some ''Leader'', Some 8)), (2, None)]
    :: (nat \<times> cluster_answer option) list"
  have c: "{(n, t). (n, Some (200, Some ''Leader'', t)) \<in> set ?as} = {(0, Some 7), (1, Some 8)}" by auto
  have d: "distinct (map fst ?as)" by simp
  have "card (snd ` {(0 :: nat, Some (7 :: int)), (1, Some 8)}) = 2" by simp
  then show ?thesis
    using validator_reports_iff [OF d, of "\<lparr>qv_violations = [], qv_checks_run = 0, qv_last_leader_term = []\<rparr>"]
    unfolding c by simp
qed

section \<open>Schedules keep their spacing\<close>

lemma py_round_grid: "x * 10 ^ nd = of_int z \<Longrightarrow> py_round nd x = x"
  by (simp add: py_round_def) (simp add: field_simps)

definition kill_gap :: "string \<Rightarrow> real" where
  "kill_gap condition = (if condition = ''short-gap-same-node'' then SHORT_GAP_S else LONG_GAP_S)"

lemmas kill_consts = SHORT_GAP_S_def LONG_GAP_S_def FIXED_DOWN_S_def

lemma slot_grid: "py_round 3 (real i * (FIXED_DOWN_S + kill_gap c)) = real i * (FIXED_DOWN_S + kill_gap c)"
  by (rule py_round_grid [where z = "int i * (if c = ''short-gap-same-node'' then 9500 else 44500)"])
     (simp add: kill_gap_def kill_consts)

lemma schedule_from_length [simp]: "length (schedule_from gap i a ts) = length ts"
  by (induction ts arbitrary: i a) (simp_all add: Let_def)

lemma schedule_from_nth:
  assumes "j < length ts"
  shows "schedule_from gap (Suc i) a ts ! j =
    \<lparr>ks_seq = Suc i + j, ks_target = ts ! j, ks_at_s = py_round 3 (a + real (Suc j) * (FIXED_DOWN_S + gap)),
     ks_gap_s = Some gap, ks_down_for_s = FIXED_DOWN_S\<rparr>"
  using assms
proof (induction ts arbitrary: i a j)
  case (Cons t ts)
  show ?case
  proof (cases j)
    case (Suc k)
    with Cons show ?thesis by (simp add: Let_def algebra_simps)
  qed (simp add: Let_def)
qed simp

lemma schedule_nth:
  assumes "j < length ts"
  shows "schedule_from (kill_gap c) 0 0 ts ! j =
    \<lparr>ks_seq = j, ks_target = ts ! j, ks_at_s = real j * (FIXED_DOWN_S + kill_gap c),
     ks_gap_s = (if j = 0 then None else Some (kill_gap c)), ks_down_for_s = FIXED_DOWN_S\<rparr>"
proof (cases ts)
  case (Cons t ts')
  show ?thesis
  proof (cases j)
    case (Suc k)
    with assms Cons show ?thesis
      by (simp add: Let_def schedule_from_nth [of k ts' "kill_gap c" 0 0] slot_grid [of "Suc k", simplified])
  qed (simp add: Cons Let_def)
qed (use assms in simp)

lemma kill_targets_Inr:
  assumes "kill_targets c nodes n tgt = Inr (gap, ts)"
  shows "gap = kill_gap c \<and> length ts = n \<and> set ts \<subseteq> set nodes \<and>
    (if c = ''spread'' then ts = take n nodes else \<exists>chosen. ts = replicate n chosen)"
  using assms by (auto simp: kill_targets_def kill_gap_def Let_def err_simps split: if_splits dest: in_set_takeD)

definition requested_step :: "string \<Rightarrow> string list \<Rightarrow> nat \<Rightarrow> kill_step" where
  "requested_step c ts j =
     \<lparr>ks_seq = j, ks_target = ts ! j, ks_at_s = real j * (FIXED_DOWN_S + kill_gap c),
      ks_gap_s = (if j = 0 then None else Some (kill_gap c)), ks_down_for_s = FIXED_DOWN_S\<rparr>"

lemma build_kill_schedule_Inr:
  "build_kill_schedule c nodes n w tgt = Inr s \<longleftrightarrow>
     c \<in> set KILL_CONDITIONS \<and> 2 \<le> n \<and>
     (\<exists>ts. kill_targets c nodes (nat n) tgt = Inr (kill_gap c, ts) \<and> s = map (requested_step c ts) [0..<nat n] \<and>
        real (nat n - 1) * (FIXED_DOWN_S + kill_gap c) + FIXED_DOWN_S \<le> w)"
proof -
  have sch: "schedule_from (kill_gap c) 0 0 ts = map (requested_step c ts) [0..<nat n]" if "length ts = nat n" for ts
    using that by (intro nth_equalityI) (simp_all add: schedule_nth requested_step_def)
  have lst: "ks_at_s (last (map (requested_step c ts) [0..<nat n])) = real (nat n - 1) * (FIXED_DOWN_S + kill_gap c)"
    if "2 \<le> n" for ts
    using that by (simp add: last_map requested_step_def)
  show ?thesis
  proof (cases "c \<in> set KILL_CONDITIONS \<and> 2 \<le> n")
    case True
    show ?thesis
    proof (cases "kill_targets c nodes (nat n) tgt")
      case (Inl e)
      then show ?thesis by (simp add: build_kill_schedule_def)
    next
      case (Inr gt)
      obtain gap ts where gt: "gt = (gap, ts)" by (cases gt)
      with Inr kill_targets_Inr [of c nodes "nat n" tgt gap ts] have g: "gap = kill_gap c" "length ts = nat n" by auto
      have "build_kill_schedule c nodes n w tgt =
        (if w < real (nat n - 1) * (FIXED_DOWN_S + kill_gap c) + FIXED_DOWN_S
         then Inl (ValueError ''does not fit the chaos window'') else Inr (map (requested_step c ts) [0..<nat n]))"
        using True by (simp add: build_kill_schedule_def Inr gt g(1) sch [OF g(2)] lst Let_def)
      then show ?thesis using True by (auto simp: Inr gt g(1))
    qed
  qed (auto simp: build_kill_schedule_def)
qed



section \<open>What the scheduled loop records\<close>

definition kill_ok :: "sched_env \<Rightarrow> bool" where
  "kill_ok e \<longleftrightarrow> (case try_kill (se_io e) False of Answers _ \<Rightarrow> True | Raises _ \<Rightarrow> False)"

text \<open>When a node last came back, among the steps executed so far.\<close>

definition last_restart_of :: "(kill_step \<times> sched_env) list \<Rightarrow> string \<Rightarrow> real option" where
  "last_restart_of prior name =
     (let ts = map (\<lambda>(s, e). se_t1 e) (filter (\<lambda>(s, e). ks_target s = name \<and> kill_ok e) prior)
      in if ts = [] then None else Some (last ts))"

definition undisturbed :: "(string, container) dict \<Rightarrow> kill_step \<times> sched_env \<Rightarrow> bool" where
  "undisturbed cs se \<longleftrightarrow> map_of cs (ks_target (fst se)) \<noteq> None \<and>
     \<not> se_wait_stopped (snd se) \<and> \<not> se_stop_set (snd se) \<and> \<not> se_down_stopped (snd se)"

definition recorded :: "real \<Rightarrow> string \<Rightarrow> (string, container) dict \<Rightarrow> (kill_step \<times> sched_env) list \<Rightarrow> kill_step \<times> sched_env \<Rightarrow> sched_event" where
  "recorded started c cs prior se =
     (case se of (s, e) \<Rightarrow>
        sched_event_of started c (the (map_of cs (ks_target s))) s e (last_restart_of prior (ks_target s))
          (bindD (try_kill (se_io e) False) (\<lambda>(was_alive, alive). Answers (was_alive, the alive))))"

lemma bindD_eq [simp]:
  "bindD m f = Answers y \<longleftrightarrow> (\<exists>x. m = Answers x \<and> f x = Answers y)"
  "bindD m f = Raises t \<longleftrightarrow> m = Raises t \<or> (\<exists>x. m = Answers x \<and> f x = Raises t)"
  by (cases m; auto)+

lemma try_kill_running: "try_kill io False = Answers (a, r) \<Longrightarrow> \<exists>b. r = Some b"
  by (auto simp: try_kill_def)

lemma last_restart_of_snoc:
  "last_restart_of (prior @ [(s, e)]) =
     (if kill_ok e then (last_restart_of prior)(ks_target s \<mapsto> se_t1 e) else last_restart_of prior)"
  by (auto simp: last_restart_of_def Let_def fun_eq_iff)

lemma loop_records:
  assumes "list_all (undisturbed cs) rest" and "map_of lr = last_restart_of prior"
  shows "chaos_loop_scheduled started c cs rest lr events =
    (Inr (), events @ map (\<lambda>j. recorded started c cs (prior @ take j rest) (rest ! j)) [0..<length rest])"
  using assms
proof (induction rest arbitrary: lr prior events)
  case (Cons se rest)
  obtain s e where se: "se = (s, e)" by (cases se)
  let ?ev = "recorded started c cs prior se"
  from Cons.prems obtain k where k: "map_of cs (ks_target s) = Some k"
    and st: "\<not> se_wait_stopped e" "\<not> se_stop_set e" "\<not> se_down_stopped e"
    by (auto simp: undisturbed_def se)
  have rest: "map (\<lambda>j. recorded started c cs (prior @ take j (se # rest)) ((se # rest) ! j)) [0..<length (se # rest)] =
    ?ev # map (\<lambda>j. recorded started c cs ((prior @ [se]) @ take j rest) (rest ! j)) [0..<length rest]"
    by (simp only: list.size map_upt_Suc add_Suc_right add_0_right) simp
  have IH: "chaos_loop_scheduled started c cs rest lr' (events @ [?ev]) =
      (Inr (), events @ map (\<lambda>j. recorded started c cs (prior @ take j (se # rest)) ((se # rest) ! j)) [0..<length (se # rest)])"
    if "map_of lr' = last_restart_of (prior @ [se])" for lr'
    using Cons.IH [OF _ that] Cons.prems(1) unfolding rest by simp
  show ?case
  proof (cases "try_kill (se_io e) False")
    case (Raises t)
    then have "\<not> kill_ok e" by (simp add: kill_ok_def)
    then have "map_of lr = last_restart_of (prior @ [se])" using Cons.prems(2) by (simp add: se last_restart_of_snoc)
    from IH [OF this] show ?thesis
      by (simp add: se k st Raises Cons.prems(2) recorded_def Let_def del: upt_Suc)
  next
    case (Answers x)
    obtain a r where x: "x = (a, r)" by (cases x)
    with Answers try_kill_running obtain b where b: "r = Some b" by blast
    have "kill_ok e" using Answers by (simp add: kill_ok_def)
    then have "map_of (dict_set (ks_target s) (se_t1 e) lr) = last_restart_of (prior @ [se])"
      using Cons.prems(2) by (simp add: se last_restart_of_snoc)
    from IH [OF this] show ?thesis
      by (simp add: se k st Answers x b Cons.prems(2) recorded_def Let_def del: upt_Suc)
  qed
qed simp

lemma recorded_fields [simp]:
  "ev_seq (recorded started c cs prior (s, e)) = ks_seq s"
  "ev_target (recorded started c cs prior (s, e)) = ks_target s"
  "ev_down_for_s (recorded started c cs prior (s, e)) = ks_down_for_s s"
  "ev_condition (recorded started c cs prior (s, e)) = c"
  "ev_requested_at_s (recorded started c cs prior (s, e)) = ks_at_s s"
  "ev_requested_gap_s (recorded started c cs prior (s, e)) = ks_gap_s s"
  "ev_realized_at_s (recorded started c cs prior (s, e)) = py_round 3 (se_t0 e - started)"
  "ev_realized_gap_s (recorded started c cs prior (s, e)) =
     map_option (\<lambda>p. py_round 3 (se_t0 e - p)) (last_restart_of prior (ks_target s))"
  "ev_failed (recorded started c cs prior (s, e)) \<longleftrightarrow> \<not> kill_ok e"
  "ev_restart_count (recorded started c cs prior (s, e)) = mc_restart_count (the (map_of cs (ks_target s)))"
  by (auto simp: recorded_def sched_event_of_def kill_ok_def split: docker.splits)

lemma last_restart_of_Nil [simp]: "last_restart_of [] = Map.empty"
  by (simp add: last_restart_of_def fun_eq_iff)

lemma scheduled_run:
  assumes "build_kill_schedule c nodes n w tgt = Inr s" and "length envs = length s"
    and "set nodes \<subseteq> dom (map_of cs)"
    and "list_all (\<lambda>e. \<not> se_wait_stopped e \<and> \<not> se_stop_set e \<and> \<not> se_down_stopped e) envs"
  shows "chaos_loop_scheduled started c cs (zip s envs) [] [] =
    (Inr (), map (\<lambda>j. recorded started c cs (take j (zip s envs)) (s ! j, envs ! j)) [0..<nat n])"
proof -
  from assms(1) obtain ts where t: "kill_targets c nodes (nat n) tgt = Inr (kill_gap c, ts)"
    and s: "s = map (requested_step c ts) [0..<nat n]" unfolding build_kill_schedule_Inr by blast
  have ts: "length ts = nat n" "set ts \<subseteq> set nodes" using kill_targets_Inr [OF t] by auto
  have len: "length s = nat n" "length envs = nat n" using assms(2) by (simp_all add: s)
  have "undisturbed cs (s ! i, envs ! i)" if "i < nat n" for i
  proof -
    have "ts ! i \<in> set nodes" using that ts nth_mem [of i ts] by auto
    then have "map_of cs (ts ! i) \<noteq> None" using assms(3) by (auto simp: dom_def)
    with assms(4) that len show ?thesis by (simp add: undisturbed_def s requested_step_def list_all_length)
  qed
  then have "list_all (undisturbed cs) (zip s envs)" by (simp add: list_all_length len)
  note run = loop_records [OF this, of "[]" "[]" started c "[]", simplified last_restart_of_Nil map_of.simps append_Nil, OF refl]
  have "map (\<lambda>j. recorded started c cs (take j (zip s envs)) (zip s envs ! j)) [0..<length (zip s envs)] =
    map (\<lambda>j. recorded started c cs (take j (zip s envs)) (s ! j, envs ! j)) [0..<nat n]"
    by (rule map_cong) (simp_all add: len)
  with run show ?thesis by simp
qed


definition punctual_env :: "real \<Rightarrow> sched_env" where
  "punctual_env t = \<lparr>se_now = t, se_wait_stopped = False, se_stop_set = False, se_t0 = t,
     se_io = \<lparr>io_inspect = Answers (0, ''true''), io_kill = Answers (), io_start = Answers (),
              io_inspect_after = Answers (0, ''true'')\<rparr>, se_down_stopped = False, se_t1 = t + 6\<rparr>"

lemma build_two_kills:
  "build_kill_schedule ''short-gap-same-node'' [''a''] 2 60 None = Inr (map (requested_step ''short-gap-same-node'' [''a'', ''a'']) [0..<2])"
  by (simp add: build_kill_schedule_Inr KILL_CONDITIONS_def kill_targets_def kill_gap_def kill_consts numeral_2_eq_2)


end
