(* ===== verification/Kill_Check.thy ===== *)
theory Kill_Check
  imports Qdrant_Harness
begin

text \<open>
  The check of realised kill schedules, \<^verbatim>\<open>research/qdrant_kill_scheduler/check_realized_schedule.py\<close>: what it
  derives from the events of one run (\<^verbatim>\<open>check_run\<close>) and what \<^verbatim>\<open>main\<close> reports over all runs. Printed text
  is returned as values.
\<close>

section \<open>One run\<close>

text \<open>An entry of \<^verbatim>\<open>events.json\<close>: only the scheduled loop writes a \<^verbatim>\<open>condition\<close>.\<close>

datatype logged = Random_kill qchaos_event | Scheduled_kill sched_event

fun scheduled_event :: "logged \<Rightarrow> sched_event option" where
  "scheduled_event (Random_kill e) = None"
| "scheduled_event (Scheduled_kill e) = Some e"

record check_row =
  cw_seq :: nat
  cw_target :: string
  cw_req_at :: real
  cw_real_at :: real
  cw_at_drift :: real
  cw_req_gap :: "real option"
  cw_real_gap :: "real option"
  cw_gap_drift :: "real option"
  cw_down_for :: real
  cw_killed_while_down :: "bool option"
  cw_alive_after_restart :: "bool option"

definition gap_drift_of :: "sched_event \<Rightarrow> real option" where
  "gap_drift_of e =
     (case (ev_requested_gap_s e, ev_realized_gap_s e) of (Some req, Some real') \<Rightarrow> Some (real' - req) | _ \<Rightarrow> None)"

definition check_row_of :: "sched_event \<Rightarrow> check_row" where
  "check_row_of e = \<lparr>cw_seq = ev_seq e, cw_target = ev_target e, cw_req_at = ev_requested_at_s e,
     cw_real_at = ev_realized_at_s e, cw_at_drift = ev_realized_at_s e - ev_requested_at_s e,
     cw_req_gap = ev_requested_gap_s e, cw_real_gap = ev_realized_gap_s e, cw_gap_drift = gap_drift_of e,
     cw_down_for = ev_down_for_s e, cw_killed_while_down = ev_killed_while_down e,
     cw_alive_after_restart = ev_alive e\<rparr>"

record run_check =
  rc_condition :: string
  rc_rows :: "check_row list"
  rc_drifts :: "real list"
  rc_targets :: "string set"
  rc_n_killed_while_down :: nat
  rc_n_dead_after_restart :: nat

datatype checked = No_kills | Not_scheduled nat | Checked_run run_check

definition check_run :: "logged list \<Rightarrow> checked" where
  "check_run events =
     (if events = [] then No_kills
      else let scheduled = List.map_filter scheduled_event events
           in if scheduled = [] then Not_scheduled (length events)
              else Checked_run \<lparr>rc_condition = ev_condition (hd scheduled), rc_rows = map check_row_of scheduled,
                rc_drifts = List.map_filter gap_drift_of scheduled, rc_targets = set (map ev_target scheduled),
                rc_n_killed_while_down = length (filter (\<lambda>e. ev_killed_while_down e = Some True) scheduled),
                rc_n_dead_after_restart = length (filter (\<lambda>e. ev_alive e = Some False) scheduled)\<rparr>)"

section \<open>The report\<close>

text \<open>
  The restart latency implied by two consecutive kills: when the node must have come back, minus when
  the outage was over. \<^verbatim>\<open>by_seq.get(w["seq"] - 1)\<close> finds nothing for the first kill.
\<close>

definition latency_of :: "(nat, check_row) dict \<Rightarrow> check_row \<Rightarrow> real option" where
  "latency_of by_seq w =
     (case (if cw_seq w = 0 then None else map_of by_seq (cw_seq w - 1), cw_real_gap w) of
        (Some prev, Some gap) \<Rightarrow> Some (cw_real_at w - gap - (cw_real_at prev + cw_down_for prev))
      | _ \<Rightarrow> None)"

definition latencies :: "check_row list \<Rightarrow> real list" where
  "latencies rows =
     (let by_seq = foldl (\<lambda>d w. dict_set (cw_seq w) w d) [] rows in List.map_filter (latency_of by_seq) rows)"

definition targeting_ok :: "run_check \<Rightarrow> bool" where
  "targeting_ok r \<longleftrightarrow>
     (if rc_condition r = ''spread'' then card (rc_targets r) = length (rc_rows r) else card (rc_targets r) = 1)"

datatype problem = Problem_no_kills string | Problem_targeting string | Problem_killed_while_down string nat

fun problems_of :: "string \<times> checked \<Rightarrow> problem list" where
  "problems_of (name, No_kills) = [Problem_no_kills name]"
| "problems_of (name, Not_scheduled n) = []"
| "problems_of (name, Checked_run r) =
     (if targeting_ok r then [] else [Problem_targeting (rc_condition r)])
     @ (if rc_n_killed_while_down r \<noteq> 0 then [Problem_killed_while_down (rc_condition r) (rc_n_killed_while_down r)] else [])"

fun drifts_of :: "checked \<Rightarrow> real list" where
  "drifts_of (Checked_run r) = rc_drifts r"
| "drifts_of _ = []"

fun latencies_of :: "checked \<Rightarrow> real list" where
  "latencies_of (Checked_run r) = latencies (rc_rows r)"
| "latencies_of _ = []"

definition DRIFT_TOLERANCE_S :: real where "DRIFT_TOLERANCE_S = 2"

text \<open>\<^verbatim>\<open>max(xs, key=abs)\<close>: the first of the largest.\<close>

definition worst_drift :: "real list \<Rightarrow> real" where
  "worst_drift xs = foldl (\<lambda>m x. if \<bar>m\<bar> < \<bar>x\<bar> then x else m) (hd xs) (tl xs)"

record drift_summary =
  ds_n :: nat
  ds_mean :: real
  ds_worst :: real
  ds_within_tolerance :: bool

record schedule_report =
  sr_drift :: "drift_summary option"
  sr_latency :: "(real \<times> real) option"
  sr_problems :: "problem list"

text \<open>The run directories that hold an \<^verbatim>\<open>events.json\<close>, in sorted order; status 1 when there is none.\<close>

definition schedule_main :: "(string, logged list) dict \<Rightarrow> int \<times> schedule_report option" where
  "schedule_main dirs =
     (if dirs = [] then (1, None)
      else let runs = map (\<lambda>(name, events). (name, check_run events)) (sorted_items dirs);
               all_drift = concat (map (\<lambda>(_, r). drifts_of r) runs);
               all_latency = concat (map (\<lambda>(_, r). latencies_of r) runs)
           in (0, Some \<lparr>
             sr_drift = (if all_drift = [] then None
               else Some \<lparr>ds_n = length all_drift, ds_mean = mean all_drift, ds_worst = worst_drift all_drift,
                          ds_within_tolerance = (\<bar>worst_drift all_drift\<bar> \<le> DRIFT_TOLERANCE_S)\<rparr>),
             sr_latency = (if all_latency = [] then None else Some (Min (set all_latency), Max (set all_latency))),
             sr_problems = concat (map problems_of runs)\<rparr>))"

section \<open>The check measures what happened\<close>

lemma last_restart_same_node:
  assumes "0 < i" and "i \<le> length ss" "length envs = length ss" and "\<forall>j < length ss. ks_target (ss ! j) = name"
    and "list_all kill_ok envs"
  shows "last_restart_of (take i (zip ss envs)) name = Some (se_t1 (envs ! (i - 1)))"
proof -
  let ?z = "take i (zip ss envs)"
  have all: "filter (\<lambda>(s, e). ks_target s = name \<and> kill_ok e) ?z = ?z"
    using assms by (intro filter_True) (auto simp: set_zip list_all_length dest!: in_set_takeD)
  have ne: "?z \<noteq> []" using assms by auto
  have "last ?z = (ss ! (i - 1), envs ! (i - 1))"
    using assms by (simp add: last_conv_nth [OF ne] min_def)
  then show ?thesis unfolding last_restart_of_def all Let_def using ne by (simp add: last_map)
qed

lemma map_filter_Scheduled [simp]: "List.map_filter scheduled_event (map Scheduled_kill evs) = evs"
  by (induction evs) (simp_all add: map_filter_simps)

lemma by_seq_lookup:
  assumes "\<And>j. j < length rows \<Longrightarrow> cw_seq (rows ! j) = j" and "i < length rows"
  shows "map_of (foldl (\<lambda>d w. dict_set (cw_seq w) w d) [] rows) i = Some (rows ! i)"
proof -
  have "map_of (foldl (\<lambda>d w. dict_set (cw_seq w) w d) [] (take m rows)) i = Some (rows ! i)"
    if "i < m" "m \<le> length rows" for m
    using that
  proof (induction m)
    case (Suc m)
    then have "take (Suc m) rows = take m rows @ [rows ! m]" by (simp add: take_Suc_conv_app_nth)
    with Suc assms(1) [of m] show ?case by (cases "i = m") auto
  qed simp
  from this [of "length rows"] assms(2) show ?thesis by simp
qed

lemma map_filter_tail:
  assumes "f x = None" and "\<And>y. y \<in> set ys \<Longrightarrow> f y = Some (g y)"
  shows "List.map_filter f (x # ys) = map g ys"
  using assms(2) by (induction ys) (simp_all add: map_filter_simps assms(1))

lemma map_filter_upt:
  assumes "0 < n" and "f (h 0) = None" and "\<And>i. Suc i < n \<Longrightarrow> f (h (Suc i)) = Some (g i)"
  shows "List.map_filter f (map h [0..<n]) = map g [0..<n - 1]"
proof -
  have "[0..<n] = 0 # map Suc [0..<n - 1]" using assms(1) by (simp add: map_Suc_upt upt_conv_Cons)
  then have "List.map_filter f (map h [0..<n]) = List.map_filter f (h 0 # map h (map Suc [0..<n - 1]))" by simp
  also have "\<dots> = List.map_filter (\<lambda>i. f (h (Suc i))) [0..<n - 1]"
    by (simp add: map_filter_simps assms(2) map_filter_def filter_map o_def)
  also have "\<dots> = map g [0..<n - 1]"
  proof -
    have "filter (\<lambda>i. f (h (Suc i)) \<noteq> None) [0..<n - 1] = [0..<n - 1]" using assms(3) by (intro filter_True) auto
    then show ?thesis unfolding map_filter_def using assms(3) by (auto intro!: map_cong)
  qed
  finally show ?thesis .
qed

text \<open>The events of a same-node schedule in which every docker call answered.\<close>

lemma same_node_events:
  fixes started cs
  assumes "build_kill_schedule c nodes n w tgt = Inr s" and "c \<noteq> ''spread''" and "length envs = length s"
    and "list_all kill_ok envs"
  defines "ev \<equiv> \<lambda>j. recorded started c cs (take j (zip s envs)) (s ! j, envs ! j)"
  shows "2 \<le> nat n" and "length envs = nat n" and "\<exists>name. \<forall>j < nat n. ev_target (ev j) = name"
    and "\<And>j. j < nat n \<Longrightarrow> ev_seq (ev j) = j \<and> ev_condition (ev j) = c \<and> ev_down_for_s (ev j) = FIXED_DOWN_S \<and>
      ev_realized_at_s (ev j) = py_round 3 (se_t0 (envs ! j) - started)"
    and "ev_realized_gap_s (ev 0) = None"
    and "\<And>j. Suc j < nat n \<Longrightarrow> ev_requested_gap_s (ev (Suc j)) = Some (kill_gap c) \<and>
      ev_realized_gap_s (ev (Suc j)) = Some (py_round 3 (se_t0 (envs ! Suc j) - se_t1 (envs ! j)))"
proof -
  from assms(1) obtain ts where n: "2 \<le> n" and t: "kill_targets c nodes (nat n) tgt = Inr (kill_gap c, ts)"
    and s: "s = map (requested_step c ts) [0..<nat n]" unfolding build_kill_schedule_Inr by blast
  show "2 \<le> nat n" using n by simp
  show len: "length envs = nat n" using assms(3) by (simp add: s)
  from kill_targets_Inr [OF t] assms(2) obtain name where ts: "ts = replicate (nat n) name" by auto
  have step: "s ! j = requested_step c ts j" if "j < nat n" for j using that by (simp add: s)
  have tgt: "ks_target (s ! j) = name" if "j < nat n" for j using that by (simp add: step requested_step_def ts)
  show "\<exists>name. \<forall>j < nat n. ev_target (ev j) = name" using tgt by (auto simp: ev_def)
  show "ev_seq (ev j) = j \<and> ev_condition (ev j) = c \<and> ev_down_for_s (ev j) = FIXED_DOWN_S \<and>
      ev_realized_at_s (ev j) = py_round 3 (se_t0 (envs ! j) - started)" if "j < nat n" for j
    using step [OF that] by (simp add: ev_def requested_step_def)
  show "ev_realized_gap_s (ev 0) = None" by (simp add: ev_def)
  show "ev_requested_gap_s (ev (Suc j)) = Some (kill_gap c) \<and>
      ev_realized_gap_s (ev (Suc j)) = Some (py_round 3 (se_t0 (envs ! Suc j) - se_t1 (envs ! j)))" if "Suc j < nat n" for j
  proof -
    have "last_restart_of (take (Suc j) (zip s envs)) name = Some (se_t1 (envs ! (Suc j - 1)))"
      using that tgt assms(4) len by (intro last_restart_same_node) (simp_all add: s)
    with that show ?thesis by (simp add: ev_def step requested_step_def ts)
  qed
qed

lemma latencies_of_consecutive:
  assumes "0 < n" and "\<And>j. j < n \<Longrightarrow> ev_seq (ev j) = j" and "ev_realized_gap_s (ev 0) = None"
    and "\<And>j. Suc j < n \<Longrightarrow> ev_realized_gap_s (ev (Suc j)) = Some (gap j)"
  shows "latencies (map check_row_of (map ev [0..<n])) =
    map (\<lambda>j. ev_realized_at_s (ev (Suc j)) - gap j - (ev_realized_at_s (ev j) + ev_down_for_s (ev j))) [0..<n - 1]"
proof -
  let ?rows = "map (\<lambda>j. check_row_of (ev j)) [0..<n]"
  let ?by = "foldl (\<lambda>d w. dict_set (cw_seq w) w d) [] ?rows"
  have by_seq: "map_of ?by j = Some (check_row_of (ev j))" if "j < n" for j
    using by_seq_lookup [of ?rows j] that assms(2) by (simp add: check_row_of_def)
  have "List.map_filter (latency_of ?by) ?rows =
    map (\<lambda>j. ev_realized_at_s (ev (Suc j)) - gap j - (ev_realized_at_s (ev j) + ev_down_for_s (ev j))) [0..<n - 1]"
  proof (rule map_filter_upt)
    show "latency_of ?by (check_row_of (ev 0)) = None"
      using assms(1-3) by (simp add: latency_of_def check_row_of_def)
    fix i assume "Suc i < n"
    then show "latency_of ?by (check_row_of (ev (Suc i))) =
      Some (ev_realized_at_s (ev (Suc i)) - gap i - (ev_realized_at_s (ev i) + ev_down_for_s (ev i)))"
      using by_seq [of i] assms(2) [of "Suc i"] assms(4) [of i]
      by (simp add: latency_of_def check_row_of_def [of "ev (Suc i)"]) (simp add: check_row_of_def)
  qed (rule assms(1))
  then show ?thesis by (simp add: latencies_def comp_def)
qed



end
