(* ===== verification/Index_Gate.thy ===== *)
theory Index_Gate
  imports Py_Dict Py_Text
begin

text \<open>
  The indexing gate of the Qdrant harness, \<^verbatim>\<open>research/cross_system_replication/qdrant_index_gate.py\<close>: one
  poll of all nodes, the decision over the last polls, and the loop that waits until the gate
  closes or the time is over. What a node answers and the clock are inputs.
\<close>

section \<open>One poll\<close>

record poll_row =
  po_t :: real
  po_node :: nat
  po_reachable :: bool
  po_indexed :: "int option"
  po_points :: "int option"
  po_segments :: "int option"
  po_status :: "string option"
  po_optimizer_status :: "string option"

text \<open>The fields of a collection description; a missing one is \<open>None\<close>.\<close>

record collection_info =
  ci_indexed :: "int option"
  ci_points :: "int option"
  ci_segments :: "int option"
  ci_status :: "string option"
  ci_optimizer_status :: "string option"

definition poll_index_state :: "real \<Rightarrow> (nat \<Rightarrow> (int \<times> collection_info) option) \<Rightarrow> nat list \<Rightarrow> poll_row list" where
  "poll_index_state t answers node_ids =
     map (\<lambda>n.
       let row = \<lparr>po_t = t, po_node = n, po_reachable = False, po_indexed = None, po_points = None,
                  po_segments = None, po_status = None, po_optimizer_status = None\<rparr>
       in case answers n of
            None \<Rightarrow> row
          | Some (status, res) \<Rightarrow>
              if status = 200
              then row\<lparr>po_reachable := True, po_indexed := ci_indexed res, po_points := ci_points res,
                       po_segments := ci_segments res, po_status := ci_status res,
                       po_optimizer_status := ci_optimizer_status res\<rparr>
              else row) node_ids"

definition node_fraction :: "poll_row \<Rightarrow> real" where
  "node_fraction row =
     (if \<not> po_reachable row then 0
      else case (po_indexed row, po_points row) of
             (Some idx, Some pts) \<Rightarrow> if pts = 0 then 0 else min 1 (max 0 (real_of_int idx / real_of_int pts))
           | _ \<Rightarrow> 0)"

definition poll_min_fraction :: "poll_row list \<Rightarrow> real" where
  "poll_min_fraction poll = (if poll = [] then 0 else Min (set (map node_fraction poll)))"

section \<open>The decision\<close>

datatype gate_reason =
    Gate_ok
  | No_polls
  | Few_polls nat nat
  | No_nodes nat
  | Unreachable nat
  | Not_green nat "string option"
  | Not_indexed nat real

definition row_reason :: "real \<Rightarrow> poll_row \<Rightarrow> gate_reason option" where
  "row_reason threshold r =
     (if \<not> po_reachable r then Some (Unreachable (po_node r))
      else if po_status r \<noteq> Some ''green'' then Some (Not_green (po_node r) (po_status r))
      else if node_fraction r < threshold then Some (Not_indexed (po_node r) (node_fraction r))
      else None)"

text \<open>The first failing condition of a poll: \<open>ago\<close> is how far from the end of the history it is.\<close>

definition poll_reason :: "real \<Rightarrow> nat \<Rightarrow> poll_row list \<Rightarrow> gate_reason option" where
  "poll_reason threshold ago poll =
     (if poll = [] then Some (No_nodes ago)
      else case List.map_filter (row_reason threshold) poll of [] \<Rightarrow> None | x # _ \<Rightarrow> Some x)"

fun polls_reason :: "real \<Rightarrow> nat \<Rightarrow> poll_row list list \<Rightarrow> gate_reason option" where
  "polls_reason threshold ago [] = None"
| "polls_reason threshold ago (poll # polls) =
     (case poll_reason threshold ago poll of
        Some x \<Rightarrow> Some x
      | None \<Rightarrow> polls_reason threshold (ago - 1) polls)"

definition gate_decision :: "poll_row list list \<Rightarrow> real \<Rightarrow> nat \<Rightarrow> (bool \<times> real \<times> gate_reason) res" where
  "gate_decision history tol consecutive =
     (if consecutive < 1 then Inl (ValueError ''consecutive must be >= 1'')
      else if history = [] then Inr (False, 0, No_polls)
      else let last_min = poll_min_fraction (last history)
           in if length history < consecutive then Inr (False, last_min, Few_polls (length history) consecutive)
              else case polls_reason (1 - tol) consecutive (drop (length history - consecutive) history) of
                     Some reason \<Rightarrow> Inr (False, last_min, reason)
                   | None \<Rightarrow> Inr (True, last_min, Gate_ok))"

section \<open>Waiting\<close>

record gate_record =
  gr_closed :: bool
  gr_elapsed_s :: real
  gr_polls :: "nat option"
  gr_tol :: real
  gr_consecutive :: nat
  gr_timeout_s :: real
  gr_min_fraction_at_end :: real
  gr_last_reason :: gate_reason
  gr_per_node_at_end :: "poll_row list"

text \<open>\<^verbatim>\<open>history.append(poll)\<close>, then at most one \<^verbatim>\<open>history.pop(0)\<close>.\<close>

definition push_poll :: "nat \<Rightarrow> poll_row list list \<Rightarrow> poll_row list \<Rightarrow> poll_row list list" where
  "push_poll consecutive history poll =
     (let h = history @ [poll] in if max consecutive 3 < length h then tl h else h)"

text \<open>
  The loop over the polls taken and the time elapsed after each; \<open>None\<close> when neither the gate closed
  nor the time ran out in these rounds, so that the loop is still running.
\<close>

fun gate_loop ::
  "real \<Rightarrow> nat \<Rightarrow> real \<Rightarrow> (poll_row list \<times> real) list \<Rightarrow> poll_row list list \<Rightarrow> gate_record res option" where
  "gate_loop tol consecutive timeout_s [] history = None"
| "gate_loop tol consecutive timeout_s ((poll, elapsed) # rounds) history =
     (let h = push_poll consecutive history poll
      in case gate_decision h tol consecutive of
           Inl e \<Rightarrow> Some (Inl e)
         | Inr (ok, last_min, reason) \<Rightarrow>
             if ok \<or> timeout_s \<le> elapsed
             then Some (Inr \<lparr>gr_closed = ok, gr_elapsed_s = py_round 3 elapsed,
                    gr_polls = (if ok then Some (length h) else None), gr_tol = tol, gr_consecutive = consecutive,
                    gr_timeout_s = timeout_s, gr_min_fraction_at_end = py_round 6 last_min, gr_last_reason = reason,
                    gr_per_node_at_end = last h\<rparr>)
             else gate_loop tol consecutive timeout_s rounds h)"

definition wait_for_index_gate :: "real \<Rightarrow> nat \<Rightarrow> real \<Rightarrow> (poll_row list \<times> real) list \<Rightarrow> gate_record res option" where
  "wait_for_index_gate tol consecutive timeout_s rounds = gate_loop tol consecutive timeout_s rounds []"

section \<open>What closes the gate\<close>

definition row_ready :: "real \<Rightarrow> poll_row \<Rightarrow> bool" where
  "row_ready tol r \<longleftrightarrow> po_reachable r \<and> po_status r = Some ''green'' \<and> 1 - tol \<le> node_fraction r"

definition poll_ready :: "real \<Rightarrow> poll_row list \<Rightarrow> bool" where
  "poll_ready tol poll \<longleftrightarrow> poll \<noteq> [] \<and> list_all (row_ready tol) poll"

text \<open>The specification: the last \<open>c\<close> of all polls taken so far were ready.\<close>

definition gate_ready :: "real \<Rightarrow> nat \<Rightarrow> poll_row list list \<Rightarrow> bool" where
  "gate_ready tol c polls \<longleftrightarrow> c \<le> length polls \<and> list_all (poll_ready tol) (drop (length polls - c) polls)"

lemma row_reason_None: "row_reason (1 - tol) r = None \<longleftrightarrow> row_ready tol r"
  by (auto simp: row_reason_def row_ready_def)

lemma poll_reason_None: "poll_reason (1 - tol) ago poll = None \<longleftrightarrow> poll_ready tol poll"
proof -
  have "List.map_filter (row_reason (1 - tol)) poll = [] \<longleftrightarrow> list_all (row_ready tol) poll"
    by (induction poll) (auto simp: map_filter_simps row_reason_None [symmetric] split: option.splits)
  then show ?thesis by (auto simp: poll_reason_def poll_ready_def split: list.splits)
qed

lemma polls_reason_None: "polls_reason (1 - tol) ago polls = None \<longleftrightarrow> list_all (poll_ready tol) polls"
proof (induction polls arbitrary: ago)
  case (Cons poll polls)
  then show ?case using poll_reason_None [of tol ago poll] by (auto split: option.splits)
qed simp

lemma polls_reason_not_ok: "polls_reason t ago polls \<noteq> Some Gate_ok"
proof -
  have "x \<noteq> Gate_ok" if "x \<in> set (List.map_filter (row_reason t) poll)" for x poll
    using that by (auto simp: map_filter_def row_reason_def split: if_splits)
  then have "poll_reason t b poll \<noteq> Some Gate_ok" for b poll
    by (auto simp: poll_reason_def split: list.splits) (metis list.set_intros(1))
  then show ?thesis by (induction polls arbitrary: ago) (auto split: option.splits)
qed

lemma gate_decision_spec:
  assumes "1 \<le> c" and "h \<noteq> []"
  shows "\<exists>reason. gate_decision h tol c = Inr (gate_ready tol c h, poll_min_fraction (last h), reason) \<and>
    (reason = Gate_ok \<longleftrightarrow> gate_ready tol c h)"
proof (cases "length h < c")
  case False
  let ?p = "polls_reason (1 - tol) c (drop (length h - c) h)"
  have "?p = None \<longleftrightarrow> gate_ready tol c h" using False by (simp add: polls_reason_None gate_ready_def)
  then show ?thesis using assms False polls_reason_not_ok [of "1 - tol" c "drop (length h - c) h"]
    by (auto simp: gate_decision_def Let_def split: option.splits)
qed (use assms in \<open>auto simp: gate_decision_def gate_ready_def Let_def\<close>)

section \<open>Trimming the history changes nothing\<close>

definition recent :: "nat \<Rightarrow> 'a list \<Rightarrow> 'a list" where
  "recent k xs = drop (length xs - k) xs"

lemma recent_simps [simp]: "length (recent k xs) = min k (length xs)" "xs \<noteq> [] \<Longrightarrow> 0 < k \<Longrightarrow> last (recent k xs) = last xs"
  by (auto simp: recent_def)

lemma recent_Nil_iff: "0 < k \<Longrightarrow> recent k xs = [] \<longleftrightarrow> xs = []"
  by (cases xs) (auto simp: recent_def)

lemma push_poll_recent: "push_poll c (recent (max c 3) xs) x = recent (max c 3) (xs @ [x])"
proof (cases "length xs < max c 3")
  case False
  then have "length (recent (max c 3) xs) = max c 3" unfolding recent_simps by (simp only: min.absorb1 not_less)
  then have "max c 3 < length (recent (max c 3) xs @ [x])" by simp
  moreover have "tl (recent (max c 3) xs @ [x]) = recent (max c 3) (xs @ [x])"
  proof -
    have ne: "recent (max c 3) xs \<noteq> []" using False by (simp add: recent_def)
    have "length (xs @ [x]) - max c 3 = Suc (length xs - max c 3)" using False by simp
    then show ?thesis using ne False by (simp add: recent_def tl_append2 drop_Suc tl_drop)
  qed
  ultimately show ?thesis by (simp add: push_poll_def)
qed (auto simp: push_poll_def recent_def Let_def)

lemma gate_ready_recent: "c \<le> k \<Longrightarrow> gate_ready tol c (recent k xs) \<longleftrightarrow> gate_ready tol c xs"
  by (auto simp: gate_ready_def recent_def)

lemma gate_loop_step:
  assumes "1 \<le> c"
  shows "\<exists>reason. gate_loop tol c timeout ((poll, t) # rounds) (recent (max c 3) seen) =
    (let all = seen @ [poll]; ok = gate_ready tol c all
     in if ok \<or> timeout \<le> t
        then Some (Inr \<lparr>gr_closed = ok, gr_elapsed_s = py_round 3 t,
               gr_polls = (if ok then Some (min (max c 3) (length all)) else None), gr_tol = tol, gr_consecutive = c,
               gr_timeout_s = timeout, gr_min_fraction_at_end = py_round 6 (poll_min_fraction poll), gr_last_reason = reason,
               gr_per_node_at_end = poll\<rparr>)
        else gate_loop tol c timeout rounds (recent (max c 3) all)) \<and>
    (reason = Gate_ok \<longleftrightarrow> gate_ready tol c (seen @ [poll]))"
proof -
  have "recent (max c 3) (seen @ [poll]) \<noteq> []" by (subst recent_Nil_iff) auto
  from gate_decision_spec [OF assms this, of tol] obtain reason where
    d: "gate_decision (recent (max c 3) (seen @ [poll])) tol c = Inr (gate_ready tol c (seen @ [poll]), poll_min_fraction poll, reason)"
    and r: "reason = Gate_ok \<longleftrightarrow> gate_ready tol c (seen @ [poll])"
    by (auto simp: gate_ready_recent)
  then show ?thesis by (intro exI [of _ reason]) (simp add: push_poll_recent Let_def)
qed

text \<open>When the loop ends: the gate is ready or the time is over.\<close>

definition gate_stops :: "real \<Rightarrow> nat \<Rightarrow> real \<Rightarrow> poll_row list list \<Rightarrow> real \<Rightarrow> bool" where
  "gate_stops tol c timeout polls t \<longleftrightarrow> gate_ready tol c polls \<or> timeout \<le> t"

lemma gate_loop_spec:
  assumes "1 \<le> c"
  shows "case gate_loop tol c timeout rest (recent (max c 3) seen) of
      None \<Rightarrow> \<forall>i < length rest. \<not> gate_stops tol c timeout (seen @ map fst (take (Suc i) rest)) (snd (rest ! i))
    | Some r \<Rightarrow> \<exists>g i. r = Inr g \<and> i < length rest \<and> gate_stops tol c timeout (seen @ map fst (take (Suc i) rest)) (snd (rest ! i)) \<and>
        (\<forall>j < i. \<not> gate_stops tol c timeout (seen @ map fst (take (Suc j) rest)) (snd (rest ! j))) \<and>
        gr_closed g = gate_ready tol c (seen @ map fst (take (Suc i) rest)) \<and>
        (gr_last_reason g = Gate_ok \<longleftrightarrow> gr_closed g) \<and> gr_per_node_at_end g = fst (rest ! i) \<and>
        gr_min_fraction_at_end g = py_round 6 (poll_min_fraction (fst (rest ! i)))"
proof (induction rest arbitrary: seen)
  case (Cons pt rest)
  obtain poll t where pt: "pt = (poll, t)" by (cases pt)
  note st = gate_loop_step [OF assms, of tol timeout poll t rest seen]
  show ?case
  proof (cases "gate_stops tol c timeout (seen @ [poll]) t")
    case True
    with st show ?thesis by (auto simp: pt gate_stops_def Let_def intro!: exI [of _ 0])
  next
    case False
    with st have "gate_loop tol c timeout (pt # rest) (recent (max c 3) seen) = gate_loop tol c timeout rest (recent (max c 3) (seen @ [poll]))"
      by (auto simp: pt gate_stops_def Let_def)
    note eq = this and IH = Cons.IH [of "seen @ [poll]"]
    have shift: "(seen @ [poll]) @ map fst (take (Suc i) rest) = seen @ map fst (take (Suc (Suc i)) (pt # rest))"
      "rest ! i = (pt # rest) ! Suc i" for i by (simp_all add: pt)
    have zero: "\<not> gate_stops tol c timeout (seen @ map fst (take (Suc 0) (pt # rest))) (snd ((pt # rest) ! 0))" using False by (simp add: pt)
    show ?thesis
    proof (cases "gate_loop tol c timeout rest (recent (max c 3) (seen @ [poll]))")
      case None
      with IH zero show ?thesis unfolding eq shift by (auto simp: less_Suc_eq_0_disj)
    next
      case (Some r)
      with IH obtain g i where gi: "r = Inr g" "i < length rest" "gate_stops tol c timeout (seen @ map fst (take (Suc (Suc i)) (pt # rest))) (snd ((pt # rest) ! Suc i))"
        "\<forall>j < i. \<not> gate_stops tol c timeout (seen @ map fst (take (Suc (Suc j)) (pt # rest))) (snd ((pt # rest) ! Suc j))"
        "gr_closed g = gate_ready tol c (seen @ map fst (take (Suc (Suc i)) (pt # rest)))"
        "gr_last_reason g = Gate_ok \<longleftrightarrow> gr_closed g" "gr_per_node_at_end g = fst ((pt # rest) ! Suc i)"
        "gr_min_fraction_at_end g = py_round 6 (poll_min_fraction (fst ((pt # rest) ! Suc i)))"
        unfolding shift by auto
      have "\<forall>j < Suc i. \<not> gate_stops tol c timeout (seen @ map fst (take (Suc j) (pt # rest))) (snd ((pt # rest) ! j))"
        using gi(4) zero by (auto simp only: less_Suc_eq_0_disj)
      with gi show ?thesis unfolding eq Some
        by (simp only: option.simps) (intro exI [of _ g] exI [of _ "Suc i"] conjI; simp only: length_Cons Suc_less_eq)
    qed
  qed
qed simp

text \<open>A closed gate means that the last \<open>c\<close> polls were ready.\<close>

lemma closed_gate_ready:
  assumes "1 \<le> c" and "wait_for_index_gate tol c timeout rounds = Some (Inr g)" and "gr_closed g"
  shows "\<exists>i < length rounds. gate_ready tol c (map fst (take (Suc i) rounds))"
  using gate_loop_spec [OF assms(1), where tol = tol and timeout = timeout and rest = rounds and seen = "[]"] assms(2,3)
  by (auto simp: wait_for_index_gate_def recent_def)

text \<open>
  C33. Waiting for the index gate implements its specification over all polls taken, although only a
  bounded history is kept: the loop stops at the first poll after which the last \<open>c\<close> polls all
  showed every node reachable, green and indexed within the tolerance, or at which the time is
  over; it reports the gate as closed exactly in the former case, with the state of the last
  poll, and it keeps running only while neither has happened.
\<close>

theorem wait_for_index_gate_exact:
  fixes tol timeout :: real
  assumes "1 \<le> c"
  defines "stops \<equiv> \<lambda>rounds i. gate_ready tol c (map fst (take (Suc i) rounds)) \<or> timeout \<le> snd (rounds ! i)"
  shows "case wait_for_index_gate tol c timeout rounds of
      None \<Rightarrow> \<forall>i < length rounds. \<not> stops rounds i
    | Some r \<Rightarrow> \<exists>g i. r = Inr g \<and> i < length rounds \<and> stops rounds i \<and> (\<forall>j < i. \<not> stops rounds j) \<and>
        gr_closed g = gate_ready tol c (map fst (take (Suc i) rounds)) \<and>
        (gr_last_reason g = Gate_ok \<longleftrightarrow> gr_closed g) \<and> gr_per_node_at_end g = fst (rounds ! i) \<and>
        gr_min_fraction_at_end g = py_round 6 (poll_min_fraction (fst (rounds ! i)))"
  using gate_loop_spec [OF assms(1), where tol = tol and timeout = timeout and rest = rounds and seen = "[]"]
  unfolding wait_for_index_gate_def stops_def gate_stops_def recent_def append_Nil list.size diff_0_eq_0 drop_0 .

definition ready_row :: poll_row where
  "ready_row = \<lparr>po_t = 0, po_node = 0, po_reachable = True, po_indexed = Some 500, po_points = Some 500,
     po_segments = Some 2, po_status = Some ''green'', po_optimizer_status = Some ''ok''\<rparr>"

theorem wait_for_index_gate_exact_witness:
  "case wait_for_index_gate 0 1 600 [([], 0), ([ready_row], 1)] of
     None \<Rightarrow> False | Some r \<Rightarrow> \<exists>g. r = Inr g \<and> gr_closed g \<and> gr_per_node_at_end g = [ready_row]"
proof -
  let ?rs = "[([], 0), ([ready_row], 1)] :: (poll_row list \<times> real) list"
  have first: "\<not> gate_ready 0 1 [[]]" by (simp add: gate_ready_def poll_ready_def)
  have second: "gate_ready 0 1 [[], [ready_row]]"
    by (simp add: gate_ready_def poll_ready_def row_ready_def ready_row_def node_fraction_def)
  show ?thesis
    using wait_for_index_gate_exact [where c = 1 and tol = 0 and timeout = 600 and rounds = ?rs] first second
    by (auto simp: less_Suc_eq split: option.splits)
qed

text \<open>The reported number of polls is the length of the trimmed history, however long the wait was.\<close>

lemma reported_polls_capped:
  "gate_loop tol c timeout rounds history = Some (Inr g) \<Longrightarrow> length history \<le> max c 3 \<Longrightarrow>
   gr_polls g = Some n \<Longrightarrow> n \<le> max c 3"
proof (induction rounds arbitrary: history)
  case (Cons pt rounds)
  have "length (push_poll c history (fst pt)) \<le> max c 3" using Cons.prems(2) by (auto simp: push_poll_def Let_def)
  with Cons show ?case by (cases pt) (auto simp: Let_def split: sum.splits prod.splits if_splits)
qed simp

end
