(* ===== verification/Catchup.thy ===== *)
theory Catchup
  imports Analyze
begin

text \<open>
  The catch-up time of a killed node, \<^verbatim>\<open>research/qdrant_kill_scheduler/derive_catchup_time.py\<close>: how long
  after each kill the replicas a node hosts were level with their best peers again. The files of
  a run are inputs; a numeric cell is a finite number, as the sampler writes it.
\<close>

section \<open>Reading a run\<close>

text \<open>\<^verbatim>\<open>re.search(r"node(\d+)", s).group(1)\<close> as a number; \<open>None\<close> when nothing matches.\<close>

fun node_number :: "string \<Rightarrow> nat option" where
  "node_number [] = None"
| "node_number (c # s) =
     (let ds = takeWhile is_digit (drop 4 (c # s))
      in if starts_with ''node'' (c # s) \<and> ds \<noteq> [] then Some (undec ds) else node_number s)"

record logged_kill =
  lk_target :: string
  lk_t :: real
  lk_t_rel :: "real option"
  lk_down_for_s :: "real option"
  lk_alive_after_restart :: "bool option"

record node_kill =
  nk_node :: nat
  nk_t_rel :: real
  nk_down_for_s :: "real option"
  nk_alive :: "bool option"

text \<open>
  \<open>t0\<close> is \<^verbatim>\<open>meta.get("t_start") or meta.get("start_time")\<close>. A kill without any time is a \<^verbatim>\<open>TypeError\<close>, which
  Python raises when the kills are sorted or at the latest when the time is first used.
\<close>

definition kill_of :: "real option \<Rightarrow> logged_kill \<Rightarrow> node_kill res" where
  "kill_of t0 e =
     (case node_number (lk_target e) of
        None \<Rightarrow> Inl (AttributeError ''group'')
      | Some node \<Rightarrow>
          (case (lk_t_rel e, t0) of
             (Some t, _) \<Rightarrow> Inr \<lparr>nk_node = node, nk_t_rel = t, nk_down_for_s = lk_down_for_s e, nk_alive = lk_alive_after_restart e\<rparr>
           | (None, Some z) \<Rightarrow>
               Inr \<lparr>nk_node = node, nk_t_rel = lk_t e - z, nk_down_for_s = lk_down_for_s e, nk_alive = lk_alive_after_restart e\<rparr>
           | (None, None) \<Rightarrow> Inl (TypeError ''t_rel'')))"

definition load_run :: "real option \<Rightarrow> real option \<Rightarrow> logged_kill list \<Rightarrow> node_kill list res" where
  "load_run t_start start_time events =
     (let t0 = (if t_start \<noteq> None \<and> t_start \<noteq> Some 0 then t_start else start_time)
      in bindE (traverseE (kill_of t0) events) (\<lambda>kills. Inr (sort_key nk_t_rel kills)))"

record round_row =
  ro_shard :: int
  ro_replica :: int
  ro_completeness :: real

definition py_int :: "string \<Rightarrow> int res" where
  "py_int s =
     (let (sg, ds) = sign_of (strip s)
      in if ds \<noteq> [] \<and> list_all is_digit ds then Inr (if sg < 0 then - int (undec ds) else int (undec ds))
         else Inl (ValueError ''int''))"

definition py_number :: "string \<Rightarrow> real res" where
  "py_number s = (case py_float s of Some (Fl x) \<Rightarrow> Inr x | _ \<Rightarrow> Inl (ValueError ''float''))"

definition round_row_of :: "csv_row \<Rightarrow> (real \<times> round_row) res" where
  "round_row_of r =
     bindE (py_number (cell r ''t_rel'')) (\<lambda>t.
       bindE (py_int (cell r ''shard'')) (\<lambda>s.
         bindE (py_int (cell r ''replica'')) (\<lambda>p.
           bindE (py_number (cell r ''completeness'')) (\<lambda>c.
             Inr (t, \<lparr>ro_shard = s, ro_replica = p, ro_completeness = c\<rparr>)))))"

definition rounds_by_time :: "csv_row list \<Rightarrow> (real, round_row list) dict res" where
  "rounds_by_time samples =
     bindE (traverseE round_row_of (filter (\<lambda>r. cell r ''reachable'' = ''1'' \<and> cell r ''completeness'' \<noteq> []) samples))
       (\<lambda>rows. Inr (sorted_items (group_by fst snd rows)))"

section \<open>Catching up\<close>

text \<open>Every shard the node hosts is within \<open>eps\<close> of its best peer in the same round.\<close>

definition level :: "int \<Rightarrow> real \<Rightarrow> round_row list \<Rightarrow> bool" where
  "level node eps rows \<longleftrightarrow>
     list_all (\<lambda>r.
       let peers = map ro_completeness (filter (\<lambda>p. ro_shard p = ro_shard r \<and> ro_replica p \<noteq> node) rows)
       in peers = [] \<or> \<not> ro_completeness r < Max (set peers) - eps)
     (filter (\<lambda>r. ro_replica r = node) rows)"

fun catchup_loop ::
  "int \<Rightarrow> real \<Rightarrow> real option \<Rightarrow> real \<Rightarrow> (real, round_row list) dict \<Rightarrow> real \<Rightarrow> real \<times> bool" where
  "catchup_loop node t_k nxt eps [] last_seen = (last_seen - t_k, False)"
| "catchup_loop node t_k nxt eps ((t, rows) # rounds) last_seen =
     (if t \<le> t_k then catchup_loop node t_k nxt eps rounds last_seen
      else if (case nxt of None \<Rightarrow> False | Some nt \<Rightarrow> nt \<le> t) then (last_seen - t_k, False)
      else if filter (\<lambda>r. ro_replica r = node) rows = [] then catchup_loop node t_k nxt eps rounds t
      else if level node eps rows then (t - t_k, True)
      else catchup_loop node t_k nxt eps rounds t)"

text \<open>Seconds and whether they are a catch-up (\<^verbatim>\<open>'ok'\<close>) or only a lower bound (\<^verbatim>\<open>'censored'\<close>).\<close>

definition catchup_for_kill :: "node_kill \<Rightarrow> real option \<Rightarrow> (real, round_row list) dict \<Rightarrow> real \<Rightarrow> real \<times> bool" where
  "catchup_for_kill kill nxt rounds eps =
     catchup_loop (int (nk_node kill)) (nk_t_rel kill) nxt eps rounds (nk_t_rel kill)"

section \<open>The summary\<close>

fun kill_catchups :: "(real, round_row list) dict \<Rightarrow> real \<Rightarrow> node_kill list \<Rightarrow> (real \<times> bool) list" where
  "kill_catchups rounds eps [] = []"
| "kill_catchups rounds eps (k # ks) =
     catchup_for_kill k (map_option nk_t_rel (find (\<lambda>x. nk_node x = nk_node k) ks)) rounds eps # kill_catchups rounds eps ks"

record catchup_summary =
  cs_min :: real
  cs_median :: real
  cs_max :: real
  cs_mean :: real
  cs_sd :: real
  cs_p90 :: real

definition p90 :: "real list \<Rightarrow> real" where
  "p90 xs = xs ! nat (max 0 (half_even (0.9 * real (length xs)) - 1))"

definition summarize_catchups :: "real list \<Rightarrow> catchup_summary option" where
  "summarize_catchups ok =
     (if ok = [] then None
      else let s = sort ok
           in Some \<lparr>cs_min = hd s, cs_median = median s, cs_max = last s, cs_mean = mean s,
                    cs_sd = sqrt (variance s), cs_p90 = p90 s\<rparr>)"

record catchup_run =
  cu_name :: string
  cu_t_start :: "real option"
  cu_start_time :: "real option"
  cu_events :: "logged_kill list"
  cu_samples :: "csv_row list"

record catchup_report =
  ct_per_run :: "(string \<times> nat \<times> nat \<times> real option) list"
  ct_measured :: nat
  ct_censored :: nat
  ct_summary :: "catchup_summary option"
  ct_longest_censored :: "real option"

definition run_catchups :: "real \<Rightarrow> catchup_run \<Rightarrow> (string \<times> (real \<times> bool) list) res" where
  "run_catchups eps r =
     bindE (load_run (cu_t_start r) (cu_start_time r) (cu_events r)) (\<lambda>kills.
       bindE (rounds_by_time (cu_samples r)) (\<lambda>rounds. Inr (cu_name r, kill_catchups rounds eps kills)))"

definition derive_catchup :: "real \<Rightarrow> catchup_run list \<Rightarrow> catchup_report res" where
  "derive_catchup eps runs =
     bindE (traverseE (run_catchups eps) (sort_key cu_name runs)) (\<lambda>rs.
       let outcomes = concat (map snd rs);
           ok = map fst (filter snd outcomes); censored = map fst (filter (\<lambda>x. \<not> snd x) outcomes)
       in Inr \<lparr>ct_per_run = map (\<lambda>(name, cs). let m = map fst (filter snd cs)
                  in (name, length cs, length m, if m = [] then None else Some (median m))) rs,
               ct_measured = length ok, ct_censored = length censored, ct_summary = summarize_catchups ok,
               ct_longest_censored = (if censored = [] then None else Some (Max (set censored)))\<rparr>)"

section \<open>What is measured\<close>

text \<open>The specification: the node is observed, and no peer of a shard it hosts is ahead by more than \<open>eps\<close>.\<close>

definition caught_up :: "int \<Rightarrow> real \<Rightarrow> round_row list \<Rightarrow> bool" where
  "caught_up node eps rows \<longleftrightarrow>
     (\<exists>r \<in> set rows. ro_replica r = node) \<and>
     (\<forall>r \<in> set rows. \<forall>p \<in> set rows. ro_replica r = node \<and> ro_replica p \<noteq> node \<and> ro_shard p = ro_shard r \<longrightarrow>
        ro_completeness p \<le> ro_completeness r + eps)"

text \<open>The rounds in which a recovery from this kill can be observed.\<close>

definition observed :: "real \<Rightarrow> real option \<Rightarrow> (real, round_row list) dict \<Rightarrow> (real, round_row list) dict" where
  "observed t_k nxt rounds = filter (\<lambda>(t, rows). t_k < t \<and> (case nxt of None \<Rightarrow> True | Some nt \<Rightarrow> t < nt)) rounds"

lemma best_peer_within: "(ps = [] \<or> \<not> x < Max (set ps) - eps) \<longleftrightarrow> (\<forall>y \<in> set ps. y \<le> x + (eps :: real))"
proof (cases "ps = []")
  case False
  have "\<not> x < Max (set ps) - eps \<longleftrightarrow> Max (set ps) \<le> x + eps" by linarith
  also have "\<dots> \<longleftrightarrow> (\<forall>y \<in> set ps. y \<le> x + eps)" using False by (intro Max_le_iff) auto
  finally show ?thesis using False by blast
qed simp

lemma caught_up_iff:
  "caught_up node eps rows \<longleftrightarrow> filter (\<lambda>r. ro_replica r = node) rows \<noteq> [] \<and> level node eps rows"
proof -
  have "level node eps rows \<longleftrightarrow> (\<forall>r \<in> set rows. ro_replica r = node \<longrightarrow>
    (\<forall>y \<in> set (map ro_completeness (filter (\<lambda>p. ro_shard p = ro_shard r \<and> ro_replica p \<noteq> node) rows)). y \<le> ro_completeness r + eps))"
    unfolding level_def Let_def best_peer_within list_all_iff by auto
  moreover have "filter (\<lambda>r. ro_replica r = node) rows \<noteq> [] \<longleftrightarrow> (\<exists>r \<in> set rows. ro_replica r = node)"
    by (simp add: filter_empty_conv)
  ultimately show ?thesis unfolding caught_up_def by fastforce
qed

lemma catchup_loop_spec:
  assumes "sorted (map fst rounds)"
  shows "catchup_loop node t_k nxt eps rounds last_seen =
    (case find (\<lambda>(t, rows). caught_up node eps rows) (observed t_k nxt rounds) of
       Some (t, rows) \<Rightarrow> (t - t_k, True)
     | None \<Rightarrow> ((if observed t_k nxt rounds = [] then last_seen else fst (last (observed t_k nxt rounds))) - t_k, False))"
  using assms
proof (induction rounds arbitrary: last_seen)
  case (Cons tr rounds)
  obtain t rows where tr: "tr = (t, rows)" by (cases tr)
  note IH = Cons.IH [OF sorted_wrt.simps(2) [THEN iffD1, THEN conjunct2, OF Cons.prems [unfolded list.map]]]
  show ?case
  proof (cases "t \<le> t_k")
    case True
    then have obs: "observed t_k nxt (tr # rounds) = observed t_k nxt rounds" by (simp add: tr observed_def)
    show ?thesis unfolding obs using IH True by (simp add: tr)
  next
    case False
    show ?thesis
    proof (cases "case nxt of None \<Rightarrow> False | Some nt \<Rightarrow> nt \<le> t")
      case True
      then obtain nt where nt: "nxt = Some nt" "nt \<le> t" by (cases nxt) auto
      have "observed t_k nxt (tr # rounds) = []"
        using Cons.prems nt by (force simp: observed_def tr filter_empty_conv)
      with True False show ?thesis by (simp add: tr)
    next
      case False2: False
      have obs: "observed t_k nxt (tr # rounds) = tr # observed t_k nxt rounds"
        using False False2 by (auto simp: observed_def tr split: option.splits)
      show ?thesis
        unfolding obs using IH [of t] False False2 caught_up_iff [of node eps rows]
        by (auto simp: tr split: option.splits)
    qed
  qed
qed (simp add: observed_def)

lemma rounds_by_time_sorted: "rounds_by_time samples = Inr rounds \<Longrightarrow> sorted (map fst rounds)"
  by (auto simp: rounds_by_time_def err_simps sorted_items_def)

text \<open>
  C34. The catch-up time of a kill is measured peer-relative and never invented: it is the time to the
  first round after the kill and before the next kill of the same node in which the node was
  observed and no peer of a shard it hosts was ahead by more than \<open>eps\<close>. If there is no such round
  the result is marked as censored and is the time to the last round observed, so an interrupted
  recovery is never counted as a catch-up.
\<close>

theorem catchup_exact:
  fixes kill :: node_kill and nxt :: "real option"
  assumes "rounds_by_time samples = Inr rounds"
  defines "seen \<equiv> observed (nk_t_rel kill) nxt rounds"
  shows "catchup_for_kill kill nxt rounds eps =
    (case find (\<lambda>(t, rows). caught_up (int (nk_node kill)) eps rows) seen of
       Some (t, rows) \<Rightarrow> (t - nk_t_rel kill, True)
     | None \<Rightarrow> (if seen = [] then 0 else fst (last seen) - nk_t_rel kill, False))"
  unfolding catchup_for_kill_def seen_def catchup_loop_spec [OF rounds_by_time_sorted [OF assms(1)]]
  by (auto split: option.splits)

definition catchup_sample :: "string \<Rightarrow> string \<Rightarrow> string \<Rightarrow> csv_row" where
  "catchup_sample t replica c =
     [(''reachable'', ''1''), (''t_rel'', t), (''shard'', ''0''), (''replica'', replica), (''completeness'', c)]"

lemma py_number_small:
  "py_number ''5'' = Inr 5" "py_number ''9'' = Inr 9" "py_number ''1'' = Inr 1" "py_number ''0'' = Inr 0"
  by (simp_all add: py_number_def py_float_def strip_def strip_chars_def is_space_def lower_def lower_char_def
      is_digit_def undec_def digit_value_def exponent_of_def)

lemma py_int_small: "py_int ''0'' = Inr 0" "py_int ''1'' = Inr 1"
  by (simp_all add: py_int_def strip_def strip_chars_def is_space_def is_digit_def undec_def digit_value_def)

lemma demo_rounds:
  "rounds_by_time [catchup_sample ''5'' ''0'' ''0'', catchup_sample ''5'' ''1'' ''1'',
                   catchup_sample ''9'' ''0'' ''1'', catchup_sample ''9'' ''1'' ''1''] =
   Inr [(5, [\<lparr>ro_shard = 0, ro_replica = 0, ro_completeness = 0\<rparr>, \<lparr>ro_shard = 0, ro_replica = 1, ro_completeness = 1\<rparr>]),
        (9, [\<lparr>ro_shard = 0, ro_replica = 0, ro_completeness = 1\<rparr>, \<lparr>ro_shard = 0, ro_replica = 1, ro_completeness = 1\<rparr>])]"
  by (simp add: rounds_by_time_def round_row_of_def catchup_sample_def cell_def dict_get_def py_number_small py_int_small
      group_by_def dict_append_def sorted_items_def)

theorem catchup_exact_witness:
  "catchup_for_kill \<lparr>nk_node = 0, nk_t_rel = 2, nk_down_for_s = None, nk_alive = None\<rparr> None
     [(5, [\<lparr>ro_shard = 0, ro_replica = 0, ro_completeness = 0\<rparr>, \<lparr>ro_shard = 0, ro_replica = 1, ro_completeness = 1\<rparr>]),
      (9, [\<lparr>ro_shard = 0, ro_replica = 0, ro_completeness = 1\<rparr>, \<lparr>ro_shard = 0, ro_replica = 1, ro_completeness = 1\<rparr>])] (1 / 200)
   = (7, True)"
  unfolding catchup_exact [OF demo_rounds] by (simp add: observed_def caught_up_def)

text \<open>Every kill is accounted for, as measured or as censored, and the 90th percentile is one of the measurements.\<close>

lemma derive_accounts:
  assumes "derive_catchup eps runs = Inr rep"
  shows "\<exists>rs. traverseE (run_catchups eps) (sort_key cu_name runs) = Inr rs \<and>
    ct_measured rep + ct_censored rep = (\<Sum>(name, cs)\<leftarrow>rs. length cs)"
proof -
  from assms obtain rs where rs: "traverseE (run_catchups eps) (sort_key cu_name runs) = Inr rs"
    and rep: "ct_measured rep = length (filter snd (concat (map snd rs)))"
      "ct_censored rep = length (filter (\<lambda>x. \<not> snd x) (concat (map snd rs)))"
    by (auto simp: derive_catchup_def err_simps Let_def)
  have "length (concat (map snd rs)) = (\<Sum>(name, cs)\<leftarrow>rs. length cs)"
    by (induction rs) auto
  with rs rep sum_length_filter_compl [of snd "concat (map snd rs)"] show ?thesis by simp
qed

lemma p90_mem: "xs \<noteq> [] \<Longrightarrow> p90 xs \<in> set xs"
proof -
  assume "xs \<noteq> []"
  then have pos: "0 < length xs" by simp
  have "half_even (0.9 * real (length xs)) \<le> half_even (of_int (int (length xs)))" by (rule half_even_mono) simp
  then have "half_even (0.9 * real (length xs)) \<le> int (length xs)" by (simp only: half_even_of_int)
  with pos have "nat (max 0 (half_even (0.9 * real (length xs)) - 1)) < length xs" by linarith
  then show ?thesis unfolding p90_def by (rule nth_mem)
qed

end
