(* ===== verification/Detector_Score.thy ===== *)
theory Detector_Score
  imports Analyze Mann_Whitney
begin

text \<open>
  Scoring the detector on committed Qdrant runs,
  \<^verbatim>\<open>research/loo_agreement_qdrant/score_qdrant_detector.py\<close>: the condition of a run, the truth axis, a second
  implementation of the rank test, and the two tables of \<^verbatim>\<open>main\<close>. The runs found on disk and what
  the seeded generator shuffles are inputs; what is printed is returned.
\<close>

section \<open>Conditions\<close>

record detector_meta =
  dm_chaos :: "bool option"
  dm_quiesce :: bool
  dm_run :: run_meta

text \<open>\<^verbatim>\<open>os.path.basename(os.path.dirname(path))\<close>.\<close>

definition parent_name :: "string \<Rightarrow> string" where
  "parent_name path = (let parts = split_on CHR ''/'' path in if length parts < 2 then [] else parts ! (length parts - 2))"

definition nochaos_name :: "string \<Rightarrow> bool" where
  "nochaos_name d \<longleftrightarrow> list_ex (\<lambda>t. is_substring t d) [''nochaos'', ''no_chaos'', ''no-chaos'']"

definition condition_of :: "string \<Rightarrow> detector_meta \<Rightarrow> string" where
  "condition_of path meta =
     (case dm_chaos meta of
        Some c \<Rightarrow> if \<not> c then ''baseline'' else if dm_quiesce meta then ''quiesce'' else ''chaos''
      | None \<Rightarrow>
          let d = lower (parent_name path)
          in if nochaos_name d then ''baseline''
             else case find (\<lambda>c. is_substring c d) [''baseline'', ''quiesce'', ''chaos''] of
                    Some c \<Rightarrow> c
                  | None \<Rightarrow> ''other'')"

section \<open>Truth axes\<close>

definition AXES :: "string list" where
  "AXES = [''e2e_recall'', ''index_recall'', ''completeness'']"

definition rows_for_axis :: "csv_row list \<Rightarrow> string \<Rightarrow> csv_row list" where
  "rows_for_axis rows axis =
     (if axis = ''e2e_recall'' then rows else map (\<lambda>r. dict_set ''e2e_recall'' (cell r axis) r) rows)"

section \<open>The rank test\<close>

definition EXACT_LIMIT :: nat where "EXACT_LIMIT = 200000"
definition RESAMPLES :: nat where "RESAMPLES = 200000"

definition u_pairs :: "real list \<Rightarrow> real list \<Rightarrow> real" where
  "u_pairs xs ys = (\<Sum>x\<leftarrow>xs. \<Sum>y\<leftarrow>ys. (if x > y then 1 else 0) + 0.5 * (if x = y then 1 else 0))"

datatype test_method = No_test | Exact_test | Perm_test nat

text \<open>\<open>shuffled\<close> are the successive states of the pool under \<^verbatim>\<open>rng.shuffle\<close>.\<close>

definition detector_mann_whitney :: "real list list \<Rightarrow> real list \<Rightarrow> real list \<Rightarrow> flt \<times> flt \<times> test_method" where
  "detector_mann_whitney shuffled a b =
     (let n1 = length a; n2 = length b
      in if n1 = 0 \<or> n2 = 0 then (NaN, NaN, No_test)
         else let u = u_pairs a b; nn = real (n1 * n2); obs = min u (nn - u); pool = a @ b;
                  extreme = (\<lambda>g1 g2. let uu = u_pairs g1 g2 in min uu (nn - uu) \<le> obs + 1 / 10 ^ 9)
              in if (n1 + n2) choose n1 \<le> EXACT_LIMIT
                 then let combos = combinations [0..<n1 + n2] n1;
                          ex = length (filter (\<lambda>idx. extreme (map ((!) pool) idx)
                                 (map ((!) pool) (filter (\<lambda>i. i \<notin> set idx) [0..<n1 + n2]))) combos)
                      in (Fl u, Fl (real ex / real (length combos)), Exact_test)
                 else let ex = length (filter (\<lambda>p. extreme (take n1 p) (drop n1 p)) (take RESAMPLES shuffled))
                      in (Fl u, Fl ((real ex + 1) / (real RESAMPLES + 1)), Perm_test RESAMPLES))"

section \<open>The tables\<close>

record scored_run =
  sc_run :: string
  sc_condition :: string
  sc_rows :: nat
  sc_eps :: real
  sc_axes :: "(string, detection option) dict"

definition score_run :: "numpy \<Rightarrow> string \<times> csv_row list \<times> detector_meta \<Rightarrow> scored_run" where
  "score_run np r =
     (case r of (path, rows, meta) \<Rightarrow>
        let eps = resolution_eps (dm_run meta)
        in \<lparr>sc_run = path, sc_condition = condition_of path meta, sc_rows = length rows, sc_eps = eps,
            sc_axes = map (\<lambda>axis. (axis, detection_stats np (rows_for_axis rows axis) eps)) AXES\<rparr>)"

definition assert_no_nochaos_in_chaos :: "scored_run list \<Rightarrow> unit res" where
  "assert_no_nochaos_in_chaos records =
     (if list_ex (\<lambda>r. sc_condition r = ''chaos'' \<and> nochaos_name (lower (sc_run r))) records
      then Inl (AssertionError ''runs named nochaos were classified as chaos'') else Inr ())"

definition axis_stats :: "string \<Rightarrow> scored_run list \<Rightarrow> detection list" where
  "axis_stats axis rs = List.map_filter (\<lambda>r. dict_get (sc_axes r) axis None) rs"

definition usable_stats :: "detection list \<Rightarrow> detection list" where
  "usable_stats stats = filter (\<lambda>s. 5 \<le> det_groups s \<and> \<not> isnan (det_hit_rate s)) stats"

record axis_line =
  al_condition :: string
  al_runs :: nat
  al_scoreable :: nat
  al_rates :: "(flt \<times> flt) option"
  al_groups :: nat
  al_tied_frac :: flt

definition axis_line_of :: "scored_run list \<Rightarrow> string \<Rightarrow> string \<Rightarrow> axis_line" where
  "axis_line_of records axis c =
     (let rs = filter (\<lambda>r. sc_condition r = c) records; stats = axis_stats axis rs; usable = usable_stats stats;
          cand = sum_list (map det_candidates stats); tied = sum_list (map det_tied_excluded stats)
      in \<lparr>al_condition = c, al_runs = length rs, al_scoreable = length usable,
          al_rates = (if usable = [] then None else Some (fmean (map det_hit_rate usable), fmean (map det_chance usable))),
          al_groups = sum_list (map det_groups usable),
          al_tied_frac = (if cand \<noteq> 0 then Fl (real tied / real cand) else NaN)\<rparr>)"

datatype control_flag = No_flag | Separates | Wrong_direction

datatype control_line =
    Not_scoreable string nat nat
  | Control string "real \<times> nat" "real \<times> nat" flt flt test_method control_flag

definition hit_rates :: "scored_run list \<Rightarrow> string \<Rightarrow> string \<Rightarrow> real list" where
  "hit_rates records axis c =
     numbers (map det_hit_rate (usable_stats (axis_stats axis (filter (\<lambda>r. sc_condition r = c) records))))"

definition control_line_of :: "real list list \<Rightarrow> scored_run list \<Rightarrow> string \<Rightarrow> control_line" where
  "control_line_of shuffled records axis =
     (let b = hit_rates records axis ''baseline''; c = hit_rates records axis ''chaos''
      in if b = [] \<or> c = [] then Not_scoreable axis (length b) (length c)
         else let (u, p, how) = detector_mann_whitney shuffled c b;
                  flag = (if flt_lt p (Fl 0.05) then if mean b < mean c then Separates else Wrong_direction else No_flag)
              in Control axis (mean b, length b) (mean c, length c) u p how flag)"

record detector_report =
  dp_scored :: nat
  dp_sample_rows :: nat
  dp_lines :: "(string \<times> axis_line list) list"
  dp_control :: "control_line list"

definition detector_main ::
  "numpy \<Rightarrow> (string \<Rightarrow> real list list) \<Rightarrow> (string \<times> csv_row list \<times> detector_meta) list \<Rightarrow> (int \<times> detector_report option) res" where
  "detector_main np shuffled paths =
     (if paths = [] then Inr (1, None)
      else let records = map (score_run np) paths;
               conds = sorted_list_of_set (set (map sc_condition records))
           in bindE (assert_no_nochaos_in_chaos records) (\<lambda>_.
                Inr (0, Some \<lparr>dp_scored = length records, dp_sample_rows = sum_list (map sc_rows records),
                  dp_lines = map (\<lambda>axis. (axis, map (axis_line_of records axis) conds)) AXES,
                  dp_control = map (\<lambda>axis. control_line_of (shuffled axis) records axis) AXES\<rparr>)))"

section \<open>The two rank tests agree\<close>

lemma u_pairs_u_stat: "u_pairs xs ys = u_stat xs ys"
proof -
  have "(if x > y then 1 else 0) + 0.5 * (if x = y then 1 else 0) = score x y" for x y :: real by (simp add: score_def)
  then show ?thesis by (simp add: u_pairs_def u_stat_score)
qed

text \<open>Statistics are multiples of one half, so neither tolerance matters.\<close>

lemma u_set_half: "\<exists>k :: int. 2 * u_set pool S T = of_int k"
proof -
  define s :: "nat \<Rightarrow> nat \<Rightarrow> int" where
    "s i j = (if pool ! i > pool ! j then 2 else if pool ! i = pool ! j then 1 else 0)" for i j
  have s: "2 * score (pool ! i) (pool ! j) = of_int (s i j)" for i j by (simp add: s_def score_def)
  have "2 * u_set pool S T = (\<Sum>i\<in>S. \<Sum>j\<in>T. 2 * score (pool ! i) (pool ! j))"
    by (simp add: u_set_def sum_distrib_left)
  also have "\<dots> = of_int (\<Sum>i\<in>S. \<Sum>j\<in>T. s i j)" by (simp add: s)
  finally show ?thesis by blast
qed

lemma half_tolerance:
  fixes u v c :: real
  assumes "2 * u = of_int i" "2 * v = of_int j" "2 * c = of_int k" and "0 \<le> eps" "eps < 1 / 2"
  shows "\<bar>v - c\<bar> - eps \<le> \<bar>u - c\<bar> \<longleftrightarrow> \<bar>v - c\<bar> \<le> \<bar>u - c\<bar>"
proof -
  have u: "\<bar>u - c\<bar> = of_int \<bar>i - k\<bar> / 2" and v: "\<bar>v - c\<bar> = of_int \<bar>j - k\<bar> / 2"
    using assms(1-3) by (simp_all only: abs_if of_int_minus of_int_diff of_int_less_iff split: if_split) (auto simp: field_simps)
  have *: "of_int p / 2 - eps \<le> (of_int q / 2 :: real) \<longleftrightarrow> of_int p / 2 \<le> (of_int q / 2 :: real)" for p q :: int
  proof (cases "p \<le> q")
    case True
    then have "(of_int p :: real) \<le> of_int q" by simp
    then show ?thesis using True assms(4) by simp
  next
    case False
    then have "(of_int (q + 1) :: real) \<le> of_int p" by (subst of_int_le_iff) simp
    then show ?thesis using False assms(5) by simp
  qed
  show ?thesis unfolding u v by (rule *)
qed

lemma min_dev: "min u (n - u) = n / 2 - \<bar>u - n / 2\<bar>" for u n :: real
  by (simp add: min_def abs_if)

definition at_least_as_far :: "real list \<Rightarrow> nat \<Rightarrow> nat \<Rightarrow> real \<Rightarrow> nat set set" where
  "at_least_as_far pool n1 n2 dev =
     {S. S \<subseteq> {0..<n1 + n2} \<and> card S = n1 \<and> dev \<le> \<bar>u_set pool S ({0..<n1 + n2} - S) - real (n1 * n2) / 2\<bar>}"

lemma at_least_as_far_perm:
  assumes "bij_betw f {0..<n1 + n2} {0..<n1 + n2}" and "\<forall>i < n1 + n2. pool ! i = pool' ! f i"
  shows "card (at_least_as_far pool n1 n2 dev) = card (at_least_as_far pool' n1 n2 dev)"
proof -
  let ?N = "{0..<n1 + n2}"
  have inj: "inj_on f ?N" and img: "f ` ?N = ?N" using assms(1) by (simp_all add: bij_betw_def)
  have diff: "f ` (?N - S) = ?N - f ` S" if "S \<subseteq> ?N" for S
    using inj_on_image_set_diff [OF inj, of ?N S] img that by simp
  have sub: "inj_on f S" if "S \<subseteq> ?N" for S using inj that by (rule inj_on_subset)
  have u: "u_set pool' (f ` S) (f ` T) = u_set pool S T" if "S \<subseteq> ?N" "T \<subseteq> ?N" for S T
    unfolding u_set_def sum.reindex [OF sub [OF that(1)]] sum.reindex [OF sub [OF that(2)]] comp_def
    using that assms(2) by (intro sum.cong refl) (auto simp: subset_iff)
  have iff: "f ` S \<in> at_least_as_far pool' n1 n2 dev \<longleftrightarrow> S \<in> at_least_as_far pool n1 n2 dev" if "S \<subseteq> ?N" for S
  proof -
    have "f ` S \<subseteq> ?N" using that img by blast
    moreover have "u_set pool' (f ` S) (?N - f ` S) = u_set pool S (?N - S)" using u [of S "?N - S"] diff [OF that] that by simp
    ultimately show ?thesis using that by (simp add: at_least_as_far_def card_image [OF sub [OF that]])
  qed
  have "at_least_as_far pool' n1 n2 dev = (`) f ` at_least_as_far pool n1 n2 dev"
  proof (intro set_eqI iffI)
    fix T assume T: "T \<in> at_least_as_far pool' n1 n2 dev"
    then have "T \<subseteq> f ` ?N" by (simp add: at_least_as_far_def img)
    then obtain S where "S \<subseteq> ?N" "T = f ` S" using subset_imageE by metis
    with T iff show "T \<in> (`) f ` at_least_as_far pool n1 n2 dev" by blast
  next
    fix T assume "T \<in> (`) f ` at_least_as_far pool n1 n2 dev"
    then show "T \<in> at_least_as_far pool' n1 n2 dev" using iff by (auto simp: at_least_as_far_def)
  qed
  moreover have "inj_on ((`) f) (at_least_as_far pool n1 n2 dev)"
    by (rule inj_on_subset [OF inj_on_image_Pow [OF inj]]) (auto simp: at_least_as_far_def)
  ultimately show ?thesis by (simp add: card_image)
qed

lemma exact_p_far:
  "exact_p a b = real (card (at_least_as_far (sort (a @ b)) (length a) (length b) \<bar>u_stat a b - real (length a * length b) / 2\<bar>))
     / real ((length a + length b) choose length a)"
proof -
  let ?n1 = "length a" and ?n2 = "length b" and ?c = "real (length a * length b) / 2"
  obtain S where "u_set (sort (a @ b)) S ({0..<?n1 + ?n2} - S) = u_stat a b" using observed_split [of a b] by blast
  with u_set_half [of "sort (a @ b)" S "{0..<?n1 + ?n2} - S"] obtain j where j: "2 * u_stat a b = of_int j" by auto
  have c: "2 * ?c = of_int (int (?n1 * ?n2))" by simp
  have "extreme_sets (sort (a @ b)) ?n1 ?n2 \<bar>u_stat a b - ?c\<bar> = at_least_as_far (sort (a @ b)) ?n1 ?n2 \<bar>u_stat a b - ?c\<bar>"
    unfolding extreme_sets_def at_least_as_far_def
  proof (intro Collect_cong conj_cong refl)
    fix S
    obtain i where "2 * u_set (sort (a @ b)) S ({0..<?n1 + ?n2} - S) = of_int i" using u_set_half by blast
    from half_tolerance [OF this j c, of "1 / 10 ^ 12"]
    show "(\<bar>u_stat a b - ?c\<bar> - 1 / 10 ^ 12 \<le> \<bar>u_set (sort (a @ b)) S ({0..<?n1 + ?n2} - S) - ?c\<bar>) =
      (\<bar>u_stat a b - ?c\<bar> \<le> \<bar>u_set (sort (a @ b)) S ({0..<?n1 + ?n2} - S) - ?c\<bar>)" by simp
  qed
  then show ?thesis unfolding exact_p_eq by simp
qed

lemma detector_exact:
  assumes "a \<noteq> []" "b \<noteq> []" and "(length a + length b) choose length a \<le> EXACT_LIMIT"
  shows "detector_mann_whitney shuffled a b =
    (Fl (u_stat a b), Fl (real (card (at_least_as_far (a @ b) (length a) (length b) \<bar>u_stat a b - real (length a * length b) / 2\<bar>))
       / real ((length a + length b) choose length a)), Exact_test)"
proof -
  let ?n1 = "length a" and ?n2 = "length b" and ?c = "real (length a * length b) / 2" and ?pool = "a @ b"
  let ?nn = "real (?n1 * ?n2)" and ?dev = "\<bar>u_stat a b - real (length a * length b) / 2\<bar>"
  let ?P = "\<lambda>idx. min (u_stat (map ((!) ?pool) idx) (map ((!) ?pool) (filter (\<lambda>i. i \<notin> set idx) [0..<?n1 + ?n2])))
     (?nn - u_stat (map ((!) ?pool) idx) (map ((!) ?pool) (filter (\<lambda>i. i \<notin> set idx) [0..<?n1 + ?n2])))
     \<le> min (u_stat a b) (?nn - u_stat a b) + 1 / 10 ^ 9"
  let ?Q = "\<lambda>S. ?dev \<le> \<bar>u_set ?pool S ({0..<?n1 + ?n2} - S) - ?c\<bar>"
  have c: "2 * ?c = of_int (int (?n1 * ?n2))" by simp
  obtain S0 where "u_set (sort (a @ b)) S0 ({0..<?n1 + ?n2} - S0) = u_stat a b" using observed_split [of a b] by blast
  with u_set_half [of "sort (a @ b)" S0 "{0..<?n1 + ?n2} - S0"] obtain j where j: "2 * u_stat a b = of_int j" by auto
  have "?P idx \<longleftrightarrow> ?Q (set idx)" if "idx \<in> set (combinations [0..<?n1 + ?n2] ?n1)" for idx
  proof -
    have d: "distinct idx" using combinations_distinct [OF that] by simp
    have "set (filter (\<lambda>i. i \<notin> set idx) [0..<?n1 + ?n2]) = {0..<?n1 + ?n2} - set idx" by auto
    with u_stat_positions [OF d, of "filter (\<lambda>i. i \<notin> set idx) [0..<?n1 + ?n2]" ?pool]
    have u: "u_stat (map ((!) ?pool) idx) (map ((!) ?pool) (filter (\<lambda>i. i \<notin> set idx) [0..<?n1 + ?n2])) =
      u_set ?pool (set idx) ({0..<?n1 + ?n2} - set idx)" by simp
    obtain i where i: "2 * u_set ?pool (set idx) ({0..<?n1 + ?n2} - set idx) = of_int i" using u_set_half by blast
    have "?P idx \<longleftrightarrow> ?dev - 1 / 10 ^ 9 \<le> \<bar>u_set ?pool (set idx) ({0..<?n1 + ?n2} - set idx) - ?c\<bar>"
      unfolding u min_dev by linarith
    with half_tolerance [OF i j c, of "1 / 10 ^ 9"] show ?thesis by simp
  qed
  from count_combinations [of "[0..<?n1 + ?n2]" ?n1 ?P ?Q, OF distinct_upt this]
  have count: "length (filter ?P (combinations [0..<?n1 + ?n2] ?n1)) = card (at_least_as_far ?pool ?n1 ?n2 ?dev)"
    by (simp add: at_least_as_far_def)
  show ?thesis
    using assms unfolding detector_mann_whitney_def u_pairs_u_stat Let_def count
    by (simp add: length_combinations del: of_nat_mult)
qed

lemma small_binomial: "n \<le> 20 \<Longrightarrow> n choose k \<le> EXACT_LIMIT"
proof -
  assume "n \<le> 20"
  then have "n choose k \<le> 20 choose k" by (rule binomial_right_mono)
  also have "\<dots> \<le> 20 choose (20 div 2)" by (rule binomial_maximum)
  also have "\<dots> = 184756" by (simp add: binomial_fact' fact_numeral)
  finally show ?thesis by (simp add: EXACT_LIMIT_def)
qed

text \<open>
  C35. The detector's rank test and the one of the sweep report are the same test: for up to twenty
  runs, on samples without NaN, both enumerate all splits and return the same statistic and the
  same p-value, although they order the pool differently and compare with different tolerances.
\<close>

theorem rank_tests_agree:
  assumes "a \<noteq> []" and "b \<noteq> []" and "length a + length b \<le> 20"
  shows "detector_mann_whitney shuffled a b =
    (fst (mann_whitney erfc (map Fl a) (map Fl b)), snd (mann_whitney erfc (map Fl a) (map Fl b)), Exact_test)"
proof -
  let ?n = "length a + length b"
  obtain f where "bij_betw f {0..<?n} {0..<?n}" "\<forall>i < ?n. (a @ b) ! i = sort (a @ b) ! f i"
    using sort_positions [of "a @ b"] by auto
  from at_least_as_far_perm [OF this, of "\<bar>u_stat a b - real (length a * length b) / 2\<bar>"]
  have "detector_mann_whitney shuffled a b = (Fl (u_stat a b), Fl (exact_p a b), Exact_test)"
    using detector_exact [OF assms(1,2) small_binomial [OF assms(3)]] unfolding exact_p_far by simp
  with assms show ?thesis by (simp add: mann_whitney_def Let_def)
qed

theorem rank_tests_agree_witness:
  "detector_mann_whitney [] [1, 2] [3] = (Fl 0, snd (mann_whitney (\<lambda>x. x) (map Fl [1, 2]) (map Fl [3])), Exact_test)"
proof -
  have "fst (mann_whitney (\<lambda>x. x) (map Fl [1, 2]) (map Fl [3])) = Fl 0" by (simp add: mann_whitney_def Let_def u_stat_def)
  with rank_tests_agree [of "[1, 2]" "[3]" "[]" "\<lambda>x. x"] show ?thesis by simp
qed

text \<open>Without flags in the metadata, a run whose directory says there was no chaos is never filed under chaos.\<close>

lemma nochaos_by_name:
  "condition_of path meta = ''chaos'' \<Longrightarrow> nochaos_name (lower (parent_name path)) \<Longrightarrow> dm_chaos meta = Some True"
  by (auto simp: condition_of_def Let_def split: option.splits if_splits)

end
