(* ===== verification/Writer.thy ===== *)
theory Writer
  imports Recall_Metrics Py_Text
begin

text \<open>
  The writer of \<^verbatim>\<open>research/replica_recall/run_experiment.py\<close>, class \<^verbatim>\<open>RetainingWriter\<close>: the ids it
  mints, the vectors it confirms, the contiguous corpus it grows under its lock, the snapshots
  it hands to the sampler, and the query sets it draws. Arrays live in an explicit store,
  because a snapshot keeps a reference to the array that is current when it is taken. Writer
  threads are a step relation over their program counters. What a numpy generator draws is an
  input of the operation that draws it.
\<close>

section \<open>State\<close>

datatype source =
    Uniform
  | Lowdim "vec list" nat real
  | Sift "vec list" "vec list" "nat list"

record writer =
  w_dim :: nat
  w_source :: source
  loo_query_mode :: string
  loo_pool_size :: nat
  loo_pool_idx :: "nat list option"
  loo_draw_count :: nat
  loo_seen_idx :: "nat set"
  vector_of :: "(ident, vec) dict"
  confirmed_at :: "(ident, real) dict"
  attempted :: nat
  failed :: nat
  next_id :: nat
  corpus_ids :: "ident list"
  arrays :: "vec list list"
  corpus_mat :: nat
  corpus_row :: "(ident, nat) dict"
  corpus_n :: nat
  exhausted :: bool

text \<open>
  \<^verbatim>\<open>RetainingWriter.__init__\<close>. \<open>proj_draw\<close> is the projection the \<^verbatim>\<open>lowdim\<close> generator draws,
  \<open>loaded\<close> the result of \<^verbatim>\<open>sift.load\<close> and \<open>perm\<close> the permutation of the loaded pool.
\<close>

definition writer_init ::
  "nat \<Rightarrow> string \<Rightarrow> nat \<Rightarrow> real \<Rightarrow> vec list \<Rightarrow> (vec list \<times> vec list) res \<Rightarrow> nat list \<Rightarrow> string \<Rightarrow> nat \<Rightarrow>
   writer res" where
  "writer_init dm dst intrinsic_dim nse proj_draw loaded perm mode pool_size =
     (let mk = (\<lambda>src. \<lparr>w_dim = dm, w_source = src, loo_query_mode = mode, loo_pool_size = pool_size,
                  loo_pool_idx = None, loo_draw_count = 0, loo_seen_idx = {},
                  vector_of = [], confirmed_at = [], attempted = 0, failed = 0, next_id = 0,
                  corpus_ids = [], arrays = [[]], corpus_mat = 0, corpus_row = [], corpus_n = 0,
                  exhausted = False\<rparr>)
      in if dst = ''lowdim'' then Inr (mk (Lowdim proj_draw intrinsic_dim nse))
         else if dst = ''sift'' then bindE loaded (\<lambda>(b, q). Inr (mk (Sift b q perm)))
         else if dst = ''uniform'' then Inr (mk Uniform)
         else Inl (ValueError ''unknown --dist''))"

section \<open>Minting vectors\<close>

text \<open>What one call draws: \<^verbatim>\<open>rng.random\<close>, and the two \<^verbatim>\<open>rng.standard_normal\<close> calls.\<close>

record draw =
  d_random :: vec
  d_normal :: vec
  d_noise :: vec

definition uniform_vec :: "vec \<Rightarrow> vec" where
  "uniform_vec u = map (\<lambda>x. x * 2 - 1) u"

text \<open>\<^verbatim>\<open>(z @ proj) / intrinsic\<close>, then \<^verbatim>\<open>+= eps * noise\<close>.\<close>

definition vecmat :: "vec \<Rightarrow> vec list \<Rightarrow> nat \<Rightarrow> vec" where
  "vecmat z m d = map (\<lambda>j. sum_list (map2 (\<lambda>x row. x * row ! j) z m)) [0..<d]"

definition lowdim_vec :: "vec list \<Rightarrow> nat \<Rightarrow> real \<Rightarrow> nat \<Rightarrow> vec \<Rightarrow> vec \<Rightarrow> vec" where
  "lowdim_vec m intr nse d z eps =
     map2 (\<lambda>x e. x / real intr + e * nse) (vecmat z m d) eps"

definition vid_of :: "nat \<Rightarrow> ident" where
  "vid_of idx = ''rr-'' @ dec idx"

definition make_vec :: "draw \<Rightarrow> writer \<Rightarrow> (ident \<times> vec) option \<times> writer" where
  "make_vec d w =
     (let idx = next_id w; vid = vid_of idx; w1 = w\<lparr>next_id := idx + 1\<rparr>
      in case w_source w of
           Sift b q ord \<Rightarrow>
             if length ord \<le> idx then (None, w1\<lparr>exhausted := True\<rparr>)
             else (Some (vid, b ! (ord ! idx)), w1)
         | Uniform \<Rightarrow> (Some (vid, uniform_vec (d_random d)), w1)
         | Lowdim m intr nse \<Rightarrow>
             (Some (vid, lowdim_vec m intr nse (w_dim w) (d_normal d) (d_noise d)), w1))"

section \<open>The corpus\<close>

text \<open>
  \<^verbatim>\<open>_append_corpus\<close>. A full array is replaced by one of twice the capacity (at least 1024) whose
  first \<open>n\<close> rows are copied; the other rows of \<^verbatim>\<open>np.empty\<close> hold whatever \<open>junk\<close> says.
\<close>

definition grow :: "(nat \<Rightarrow> vec) \<Rightarrow> writer \<Rightarrow> writer" where
  "grow junk w =
     (let mat = arrays w ! corpus_mat w
      in if corpus_n w = length mat
         then let new_cap = max 1024 (length mat * 2);
                  grown = take (corpus_n w) mat @ map junk [corpus_n w..<new_cap]
              in w\<lparr>arrays := arrays w @ [grown], corpus_mat := length (arrays w)\<rparr>
         else w)"

definition append_corpus :: "(nat \<Rightarrow> vec) \<Rightarrow> ident \<Rightarrow> vec \<Rightarrow> writer \<Rightarrow> writer" where
  "append_corpus junk vid v w =
     (let w1 = grow junk w; a = corpus_mat w1; n = corpus_n w1
      in w1\<lparr>arrays := (arrays w1)[a := (arrays w1 ! a)[n := v]],
            corpus_row := dict_set vid n (corpus_row w1),
            corpus_ids := corpus_ids w1 @ [vid],
            corpus_n := n + 1\<rparr>)"

text \<open>
  \<^verbatim>\<open>snapshot_corpus\<close>: the row count and a reference to the current array. The id list and the
  row index are shared with the writer, so what a snapshot shows depends on the later state.
\<close>

record snapshot =
  snap_mat :: nat
  snap_n :: nat

definition snapshot_corpus :: "writer \<Rightarrow> snapshot" where
  "snapshot_corpus w = \<lparr>snap_mat = corpus_mat w, snap_n = corpus_n w\<rparr>"

definition view :: "writer \<Rightarrow> snapshot \<Rightarrow> corpus" where
  "view w s = \<lparr>c_ids = corpus_ids w, c_mat = arrays w ! snap_mat s,
               c_row_of = corpus_row w, c_n = snap_n s\<rparr>"

definition intended_set :: "real \<Rightarrow> real \<Rightarrow> writer \<Rightarrow> ident set" where
  "intended_set now settle_s w =
     (let cutoff = now - settle_s
      in set (map fst (filter (\<lambda>(i, t). t \<le> cutoff) (confirmed_at w))))"

section \<open>The write loop\<close>

text \<open>
  One thread runs \<^verbatim>\<open>loop\<close>. Its program counter says what it does next; an event supplies what
  the environment decides: the draw, the coordinator's answer (or an exception), the clock.
\<close>

datatype wpc = Idle | Made ident vec | Posted ident vec | Stopped

datatype wevent =
    Minted draw
  | Attempt
  | Answer int real "nat \<Rightarrow> vec"
  | Raised
  | StopSet

fun thread_step :: "wevent \<Rightarrow> wpc \<Rightarrow> writer \<Rightarrow> (wpc \<times> writer) option" where
  "thread_step StopSet Idle w = Some (Stopped, w)"
| "thread_step (Minted d) Idle w =
     (case make_vec d w of
        (None, w') \<Rightarrow> Some (Stopped, w')
      | (Some (vid, v), w') \<Rightarrow> Some (Made vid v, w'))"
| "thread_step Attempt (Made vid v) w = Some (Posted vid v, w\<lparr>attempted := attempted w + 1\<rparr>)"
| "thread_step (Answer status now junk) (Posted vid v) w =
     (if status = 201
      then Some (Idle, append_corpus junk vid v
             (w\<lparr>vector_of := dict_set vid v (vector_of w),
                confirmed_at := dict_set vid now (confirmed_at w)\<rparr>))
      else Some (Idle, w\<lparr>failed := failed w + 1\<rparr>))"
| "thread_step Raised (Posted vid v) w = Some (Idle, w\<lparr>failed := failed w + 1\<rparr>)"
| "thread_step _ _ w = None"

type_synonym wconfig = "wpc list \<times> writer"

inductive wstep :: "wconfig \<Rightarrow> wconfig \<Rightarrow> bool" where
  step: "thread_step e pc w = Some (pc', w') \<Longrightarrow> wstep (xs @ pc # ys, w) (xs @ pc' # ys, w')"

inductive_cases wstepE: "wstep (ts, w) (ts', w')"

section \<open>Query sets\<close>

text \<open>
  \<^verbatim>\<open>Generator.choice(xs, size=n, replace=False)\<close> of numpy is a parameter \<open>ch\<close> of the query
  operations; \<open>rng_choice\<close> states what numpy documents of it.
\<close>

locale rng_choice =
  fixes ch :: "nat list \<Rightarrow> nat \<Rightarrow> nat list"
  assumes choice_length: "n \<le> length xs \<Longrightarrow> length (ch xs n) = n"
    and choice_distinct: "n \<le> length xs \<Longrightarrow> distinct xs \<Longrightarrow> distinct (ch xs n)"
    and choice_subset: "n \<le> length xs \<Longrightarrow> set (ch xs n) \<subseteq> set xs"

text \<open>The two draws of \<^verbatim>\<open>make_queries\<close> come from one generator in different states: \<open>ch\<close>, \<open>ch'\<close>.\<close>

definition make_queries ::
  "(nat list \<Rightarrow> nat \<Rightarrow> nat list) \<Rightarrow> (nat list \<Rightarrow> nat \<Rightarrow> nat list) \<Rightarrow> draw list \<Rightarrow> nat \<Rightarrow> writer \<Rightarrow>
   (vec list \<times> writer) res" where
  "make_queries ch ch' ds n w =
     (case w_source w of
        Sift b p ord \<Rightarrow>
          let need = n + (if loo_query_mode w = ''nonpinned'' then loo_pool_size w else 0)
          in if length p < need then Inl (ValueError ''exceeds the SIFT query vectors'')
             else let pick = ch [0..<length p] n;
                      w' = (if loo_query_mode w = ''nonpinned''
                            then let remaining = filter (\<lambda>i. i \<notin> set pick) [0..<length p]
                                 in w\<lparr>loo_pool_idx := Some (ch' remaining (loo_pool_size w))\<rparr>
                            else w)
                  in Inr (map ((!) p) (sort pick), w')
      | Uniform \<Rightarrow> Inr (map (\<lambda>d. uniform_vec (d_random d)) (take n ds), w)
      | Lowdim m intr nse \<Rightarrow>
          Inr (map (\<lambda>d. lowdim_vec m intr nse (w_dim w) (d_normal d) (d_noise d)) (take n ds), w))"

definition make_loo_queries ::
  "(nat list \<Rightarrow> nat \<Rightarrow> nat list) \<Rightarrow> draw list \<Rightarrow> nat \<Rightarrow> writer \<Rightarrow> (vec list \<times> writer) res" where
  "make_loo_queries ch ds n w =
     (if loo_query_mode w \<noteq> ''nonpinned'' then Inl (RuntimeError ''loo_query_mode is pinned'')
      else case w_source w of
        Sift b p ord \<Rightarrow>
          (case loo_pool_idx w of
             None \<Rightarrow> Inl (RuntimeError ''make_queries() must be called first'')
           | Some pool_idx \<Rightarrow>
               if length pool_idx < n then Inl (ValueError ''exceeds --loo-pool-size'')
               else let pick = ch [0..<length pool_idx] n;
                        idx = map ((!) pool_idx) pick
                    in Inr (map ((!) p) idx,
                            w\<lparr>loo_draw_count := loo_draw_count w + 1,
                              loo_seen_idx := loo_seen_idx w \<union> set idx\<rparr>))
      | Uniform \<Rightarrow> Inr (map (\<lambda>d. uniform_vec (d_random d)) (take n ds), w\<lparr>loo_draw_count := loo_draw_count w + 1\<rparr>)
      | Lowdim m intr nse \<Rightarrow>
          Inr (map (\<lambda>d. lowdim_vec m intr nse (w_dim w) (d_normal d) (d_noise d)) (take n ds),
               w\<lparr>loo_draw_count := loo_draw_count w + 1\<rparr>))"

record coverage =
  cov_pool_size :: nat
  cov_rounds :: nat
  cov_unique :: nat
  cov_fraction :: flt

definition loo_pool_coverage :: "writer \<Rightarrow> coverage option" where
  "loo_pool_coverage w =
     (case loo_pool_idx w of
        None \<Rightarrow> None
      | Some idx \<Rightarrow> Some \<lparr>cov_pool_size = length idx, cov_rounds = loo_draw_count w,
          cov_unique = card (loo_seen_idx w),
          cov_fraction = (if length idx \<noteq> 0
            then Fl (real (card (loo_seen_idx w)) / real (length idx)) else NaN)\<rparr>)"

section \<open>Invariant of the writer\<close>

fun in_flight :: "wpc \<Rightarrow> ident list" where
  "in_flight (Made vid v) = [vid]"
| "in_flight (Posted vid v) = [vid]"
| "in_flight _ = []"

fun posted :: "wpc \<Rightarrow> nat" where
  "posted (Posted vid v) = 1"
| "posted _ = 0"

definition minted :: "wpc list \<Rightarrow> writer \<Rightarrow> ident list" where
  "minted ts w = corpus_ids w @ concat (map in_flight ts)"

definition corpus_inv :: "writer \<Rightarrow> bool" where
  "corpus_inv w \<longleftrightarrow>
     length (corpus_ids w) = corpus_n w \<and> distinct (corpus_ids w) \<and>
     corpus_mat w < length (arrays w) \<and> corpus_n w \<le> length (arrays w ! corpus_mat w) \<and>
     corpus_row w = zip (corpus_ids w) [0..<corpus_n w] \<and>
     vector_of w = zip (corpus_ids w) (take (corpus_n w) (arrays w ! corpus_mat w)) \<and>
     map fst (confirmed_at w) = corpus_ids w"

definition writer_inv :: "wpc list \<Rightarrow> writer \<Rightarrow> bool" where
  "writer_inv ts w \<longleftrightarrow>
     corpus_inv w \<and> distinct (minted ts w) \<and> set (minted ts w) \<subseteq> vid_of ` {..<next_id w} \<and>
     attempted w = corpus_n w + failed w + sum_list (map posted ts)"

lemma vid_of_inj [simp]: "vid_of i = vid_of j \<longleftrightarrow> i = j"
  by (simp add: vid_of_def)

lemma grow_sel [simp]:
  "corpus_ids (grow junk w) = corpus_ids w" "corpus_n (grow junk w) = corpus_n w"
  "corpus_row (grow junk w) = corpus_row w" "vector_of (grow junk w) = vector_of w"
  "confirmed_at (grow junk w) = confirmed_at w" "next_id (grow junk w) = next_id w"
  "attempted (grow junk w) = attempted w" "failed (grow junk w) = failed w"
  by (simp_all add: grow_def Let_def)

lemma grow_arrays:
  fixes junk
  assumes "corpus_inv w"
  defines "g \<equiv> grow junk w"
  shows "corpus_mat g < length (arrays g)" and "corpus_n w < length (arrays g ! corpus_mat g)"
    and "take (corpus_n w) (arrays g ! corpus_mat g) = take (corpus_n w) (arrays w ! corpus_mat w)"
  using assms(1) unfolding g_def by (auto simp: grow_def corpus_inv_def Let_def nth_append)

lemma append_corpus_sel [simp]:
  "corpus_ids (append_corpus junk vid v w) = corpus_ids w @ [vid]"
  "corpus_n (append_corpus junk vid v w) = corpus_n w + 1"
  "corpus_row (append_corpus junk vid v w) = dict_set vid (corpus_n w) (corpus_row w)"
  "corpus_mat (append_corpus junk vid v w) = corpus_mat (grow junk w)"
  "vector_of (append_corpus junk vid v w) = vector_of w"
  "confirmed_at (append_corpus junk vid v w) = confirmed_at w"
  "next_id (append_corpus junk vid v w) = next_id w"
  "attempted (append_corpus junk vid v w) = attempted w"
  "failed (append_corpus junk vid v w) = failed w"
  "arrays (append_corpus junk vid v w) = (arrays (grow junk w))
     [corpus_mat (grow junk w) := (arrays (grow junk w) ! corpus_mat (grow junk w))[corpus_n w := v]]"
  by (simp_all add: append_corpus_def Let_def)

definition confirm :: "real \<Rightarrow> (nat \<Rightarrow> vec) \<Rightarrow> ident \<Rightarrow> vec \<Rightarrow> writer \<Rightarrow> writer" where
  "confirm now junk vid v w =
     (append_corpus junk vid v w)\<lparr>vector_of := dict_set vid v (vector_of w),
        confirmed_at := dict_set vid now (confirmed_at w)\<rparr>"

lemma confirm_eq:
  "append_corpus junk vid v (w\<lparr>vector_of := dict_set vid v (vector_of w),
      confirmed_at := dict_set vid now (confirmed_at w)\<rparr>) = confirm now junk vid v w"
  by (simp add: confirm_def append_corpus_def grow_def Let_def)

lemma confirm_inv:
  assumes inv: "corpus_inv w" and fresh: "vid \<notin> set (corpus_ids w)"
  shows "corpus_inv (confirm now junk vid v w)"
proof -
  have keys: "vid \<notin> set (map fst (confirmed_at w))"
    using fresh inv by (simp add: corpus_inv_def)
  let ?a = "arrays (grow junk w) ! corpus_mat (grow junk w)"
  have tk: "take (Suc (corpus_n w)) (?a[corpus_n w := v]) = take (corpus_n w) (arrays w ! corpus_mat w) @ [v]"
    using grow_arrays [OF inv, of junk] by (simp add: take_Suc_conv_app_nth)
  show ?thesis
    using inv fresh grow_arrays(1,2) [OF inv, of junk] unfolding corpus_inv_def confirm_def
    by (simp add: dict_set_zip_fresh dict_set_fresh [OF keys] tk)
qed

lemma thread_step_cases:
  assumes "thread_step e pc w = Some (pc', w')"
  obtains (stop) "pc = Idle" "pc' = Stopped" "w' = w"
  | (out) "pc = Idle" "pc' = Stopped" "w' = w\<lparr>next_id := next_id w + 1, exhausted := True\<rparr>"
  | (mint) v where "pc = Idle" "pc' = Made (vid_of (next_id w)) v" "w' = w\<lparr>next_id := next_id w + 1\<rparr>"
  | (post) vid v where "pc = Made vid v" "pc' = Posted vid v" "w' = w\<lparr>attempted := attempted w + 1\<rparr>"
  | (ok) vid v now junk where "pc = Posted vid v" "pc' = Idle" "w' = confirm now junk vid v w"
  | (lost) vid v where "pc = Posted vid v" "pc' = Idle" "w' = w\<lparr>failed := failed w + 1\<rparr>"
proof -
  show thesis
    using assms
    by (cases "(e, pc, w)" rule: thread_step.cases)
       (auto simp: make_vec_def Let_def confirm_eq split: source.splits if_splits intro: that)
qed

lemma writer_step_inv:
  assumes st: "thread_step e pc w = Some (pc', w')" and inv: "writer_inv (xs @ pc # ys) w"
  shows "writer_inv (xs @ pc' # ys) w'"
  using st
proof (cases rule: thread_step_cases)
  case (mint v)
  have "vid_of (next_id w) \<notin> set (minted (xs @ pc # ys) w)"
    using inv by (auto simp: writer_inv_def)
  with mint inv show ?thesis
    by (auto simp: writer_inv_def minted_def corpus_inv_def less_Suc_eq)
next
  case (ok vid v now junk)
  have "vid \<notin> set (corpus_ids w)" using inv ok(1) by (simp add: writer_inv_def minted_def)
  then have "corpus_inv w'" unfolding ok(3) using inv by (intro confirm_inv) (simp_all add: writer_inv_def)
  with ok inv show ?thesis
    by (auto simp: writer_inv_def minted_def confirm_def)
qed (use inv in \<open>auto simp: writer_inv_def minted_def corpus_inv_def less_Suc_eq\<close>)

lemma wstep_inv: "wstep (ts, w) (ts', w') \<Longrightarrow> writer_inv ts w \<Longrightarrow> writer_inv ts' w'"
  by (erule wstepE) (simp add: writer_step_inv)

lemma wsteps_inv: "wstep\<^sup>*\<^sup>* (ts, w) (ts', w') \<Longrightarrow> writer_inv ts w \<Longrightarrow> writer_inv ts' w'"
  by (induction rule: rtranclp_induct2) (auto dest: wstep_inv)

lemma writer_init_inv:
  "writer_init dm dst intr nse pr ld perm mode sz = Inr w \<Longrightarrow> writer_inv (replicate n Idle) w"
  by (auto simp: writer_init_def Let_def err_simps writer_inv_def corpus_inv_def minted_def
      sum_list_replicate split: if_splits)

section \<open>Snapshots are stable\<close>

text \<open>Two corpora that agree on the first \<open>n\<close> rows score every replica alike.\<close>

definition same_prefix :: "corpus \<Rightarrow> corpus \<Rightarrow> bool" where
  "same_prefix c c' \<longleftrightarrow>
     corpus_ok c \<and> corpus_ok c' \<and> c_n c = c_n c' \<and>
     take (c_n c) (c_ids c) = take (c_n c) (c_ids c') \<and> take (c_n c) (c_mat c) = take (c_n c) (c_mat c')"

lemma same_prefix_nth:
  assumes "same_prefix c c'" and "r < c_n c"
  shows "nth_or_raise (c_ids c) r = nth_or_raise (c_ids c') r"
    and "nth_or_raise (c_mat c) r = nth_or_raise (c_mat c') r"
    and "c_ids c ! r = c_ids c' ! r"
proof -
  have len: "c_n c \<le> length (c_ids c)" "c_n c \<le> length (c_mat c)"
      "c_n c \<le> length (c_ids c')" "c_n c \<le> length (c_mat c')"
    using assms(1) corpus_okD(1,2) unfolding same_prefix_def by metis+
  have "take (c_n c) (c_ids c) ! r = take (c_n c) (c_ids c') ! r"
       "take (c_n c) (c_mat c) ! r = take (c_n c) (c_mat c') ! r"
    using assms(1) unfolding same_prefix_def by metis+
  with assms(2) len show "nth_or_raise (c_ids c) r = nth_or_raise (c_ids c') r"
    and "nth_or_raise (c_mat c) r = nth_or_raise (c_mat c') r" and "c_ids c ! r = c_ids c' ! r"
    by (simp_all add: nth_or_raise_def)
qed

lemma same_prefix_rows:
  assumes "same_prefix c c'" and "finite W"
  shows "rows_for c W = rows_for c' W"
proof -
  have ok: "corpus_ok c" "corpus_ok c'" "c_n c = c_n c'" using assms(1) by (auto simp: same_prefix_def)
  have "set (rows_for c W) = set (rows_for c' W)"
    using rows_for_facts(1) [OF ok(1) assms(2)] rows_for_facts(1) [OF ok(2) assms(2)]
      same_prefix_nth(3) [OF assms(1)] ok(3) by auto
  then show ?thesis
    using rows_for_facts(2,3) [OF ok(1) assms(2)] rows_for_facts(2,3) [OF ok(2) assms(2)]
    by (intro sorted_distinct_set_unique)
qed

lemma mean_recall_same_prefix:
  assumes sp: "same_prefix c c'" and rows: "set rows \<subseteq> {0..<c_n c}"
  shows "mean_recall np queries observed c k metric rows r = mean_recall np queries observed c' k metric rows r"
proof -
  have mat: "traverseE (nth_or_raise (c_mat c)) rows = traverseE (nth_or_raise (c_mat c')) rows"
    using same_prefix_nth(2) [OF sp] rows by (intro traverseE_cong) auto
  have ids: "bindE (nth_or_raise rows j) (nth_or_raise (c_ids c)) = bindE (nth_or_raise rows j) (nth_or_raise (c_ids c'))" for j
  proof (cases "j < length rows")
    case True
    then have "rows ! j < c_n c" using rows nth_mem by fastforce
    then show ?thesis using same_prefix_nth(1) [OF sp] True by (simp add: nth_or_raise_def)
  qed (simp add: nth_or_raise_def)
  show ?thesis by (simp only: mean_recall_def mat ids)
qed

lemma score_replica_same_prefix:
  assumes sp: "same_prefix c c'" and fin: "finite L" "finite I"
  shows "score_replica np queries observed L I c k metric None = score_replica np queries observed L I c' k metric None"
proof -
  have ok: "corpus_ok c" using sp by (simp add: same_prefix_def)
  have "set (rows_for c L) \<subseteq> {0..<c_n c}" "set (rows_for c I) \<subseteq> {0..<c_n c}"
    using rows_for_facts(1) [OF ok] fin by auto
  then show ?thesis
    using same_prefix_rows [OF sp] fin mean_recall_same_prefix [OF sp]
    by (simp add: score_replica_def Let_def)
qed

text \<open>What a snapshot \<open>s\<close> of ids \<open>is\<close> and rows \<open>m\<close> still shows in a later state.\<close>

definition snap_shows :: "snapshot \<Rightarrow> ident list \<Rightarrow> vec list \<Rightarrow> writer \<Rightarrow> bool" where
  "snap_shows s is m w \<longleftrightarrow>
     corpus_inv w \<and> snap_n s \<le> corpus_n w \<and> take (snap_n s) (corpus_ids w) = is \<and>
     snap_mat s < length (arrays w) \<and> snap_n s \<le> length (arrays w ! snap_mat s) \<and>
     take (snap_n s) (arrays w ! snap_mat s) = m"

lemma snapshot_shows:
  "corpus_inv w \<Longrightarrow> snap_shows (snapshot_corpus w) (corpus_ids w) (take (corpus_n w) (arrays w ! corpus_mat w)) w"
  by (auto simp: snap_shows_def snapshot_corpus_def corpus_inv_def)

lemma grow_keeps: "a < length (arrays w) \<Longrightarrow> arrays (grow junk w) ! a = arrays w ! a"
  "length (arrays w) \<le> length (arrays (grow junk w))"
  by (auto simp: grow_def Let_def nth_append)

lemma confirm_snap_shows:
  assumes s: "snap_shows s is m w" and fresh: "vid \<notin> set (corpus_ids w)"
  shows "snap_shows s is m (confirm now junk vid v w)"
proof -
  have inv: "corpus_inv w" using s by (simp add: snap_shows_def)
  have n: "snap_n s \<le> corpus_n w" "snap_mat s < length (arrays w)" "snap_n s \<le> length (corpus_ids w)"
    using s by (auto simp: snap_shows_def corpus_inv_def)
  let ?a = "arrays (confirm now junk vid v w)"
  have "?a ! snap_mat s = (if snap_mat s = corpus_mat (grow junk w)
      then (arrays w ! snap_mat s)[corpus_n w := v] else arrays w ! snap_mat s)"
    using n(2) grow_keeps(1) [of "snap_mat s" w junk] grow_keeps(2) [of w junk] by (auto simp: confirm_def nth_list_update)
  then have "take (snap_n s) (?a ! snap_mat s) = take (snap_n s) (arrays w ! snap_mat s)"
    "length (?a ! snap_mat s) = length (arrays w ! snap_mat s)"
    using n(1) by auto
  moreover have "snap_mat s < length ?a"
    using n(2) grow_keeps(2) [of w junk] by (simp add: confirm_def)
  ultimately show ?thesis
    using s n(3) confirm_inv [OF inv fresh, of now junk v] unfolding snap_shows_def
    by (simp add: confirm_def)
qed

lemma step_snap_shows:
  assumes st: "thread_step e pc w = Some (pc', w')" and inv: "writer_inv (xs @ pc # ys) w"
    and s: "snap_shows s is m w"
  shows "snap_shows s is m w'"
  using st
proof (cases rule: thread_step_cases)
  case (ok vid v now junk)
  have "vid \<notin> set (corpus_ids w)" using inv ok(1) by (simp add: writer_inv_def minted_def)
  then show ?thesis unfolding ok(3) by (rule confirm_snap_shows [OF s])
qed (use s in \<open>auto simp: snap_shows_def corpus_inv_def\<close>)

lemma wsteps_snap_shows:
  assumes "wstep\<^sup>*\<^sup>* (ts, w) (ts', w')" and "writer_inv ts w" and "snap_shows s is m w"
  shows "snap_shows s is m w'"
  using assms
proof (induction rule: rtranclp_induct2)
  case (step ts1 w1 ts2 w2)
  have "writer_inv ts1 w1" using wsteps_inv [OF step.hyps(1) step.prems(1)] .
  with step show ?case by (auto elim!: wstepE intro: step_snap_shows)
qed

lemma view_corpus_ok:
  assumes "snap_shows s is m w"
  shows "corpus_ok (view w s)"
proof -
  have inv: "corpus_row w = zip (corpus_ids w) [0..<corpus_n w]" "distinct (corpus_ids w)"
      "length (corpus_ids w) = corpus_n w" "snap_n s \<le> corpus_n w"
    using assms by (auto simp: snap_shows_def corpus_inv_def)
  have "map_of (corpus_row w) (corpus_ids w ! r) = Some r" if "r < corpus_n w" for r
    using that inv map_of_zip_nth [of "corpus_ids w" "[0..<corpus_n w]" r] by simp
  moreover have "corpus_ids w ! r = i" if "(i, r) \<in> set (corpus_row w)" for i r
    using that inv by (auto simp: set_zip)
  ultimately show ?thesis
    using assms inv by (auto simp: corpus_ok_def view_def snap_shows_def list_all_iff)
qed

lemma snapshot_same_prefix:
  assumes run: "wstep\<^sup>*\<^sup>* (ts, w) (ts', w')" and inv: "writer_inv ts w"
  shows "same_prefix (view w' (snapshot_corpus w)) (view w (snapshot_corpus w))"
proof -
  have "corpus_inv w" using inv by (simp add: writer_inv_def)
  note now = snapshot_shows [OF this]
  note later = wsteps_snap_shows [OF run inv now]
  show ?thesis
    using view_corpus_ok [OF now] view_corpus_ok [OF later] now later
    by (simp add: same_prefix_def view_def snap_shows_def)
qed

text \<open>
  C2. Snapshots need no copy: whatever the writer threads do after a snapshot is taken, in any
  interleaving and across reallocations of the array, the snapshot remains a sound corpus and
  every replica scores exactly as it would have scored at the instant it was taken.
\<close>

theorem snapshot_stable:
  assumes "writer_init dm dst intr nse pr ld perm mode sz = Inr w0"
    and "wstep\<^sup>*\<^sup>* (replicate threads Idle, w0) (ts, w)" and "wstep\<^sup>*\<^sup>* (ts, w) (ts', w')"
    and "finite local_ids" and "finite intended_ids"
  shows "corpus_ok (view w' (snapshot_corpus w)) \<and>
    score_replica np queries observed local_ids intended_ids (view w' (snapshot_corpus w)) k metric None =
    score_replica np queries observed local_ids intended_ids (view w (snapshot_corpus w)) k metric None"
proof -
  have "writer_inv ts w" using wsteps_inv [OF assms(2) writer_init_inv [OF assms(1)]] .
  note sp = snapshot_same_prefix [OF assms(3) this]
  show ?thesis
    using sp score_replica_same_prefix [OF sp assms(4,5)] by (simp add: same_prefix_def)
qed

text \<open>One complete write by a thread that is alone.\<close>

lemma write_steps:
  fixes d :: draw
  assumes "w_source w = Uniform"
  shows "wstep\<^sup>*\<^sup>* ([Idle], w) ([Idle], confirm now junk (vid_of (next_id w)) (uniform_vec (d_random d))
      (w\<lparr>next_id := next_id w + 1, attempted := attempted w + 1\<rparr>))"
proof -
  have s1: "wstep\<^sup>*\<^sup>* ([] @ Idle # [], w)
      ([] @ Made (vid_of (next_id w)) (uniform_vec (d_random d)) # [], w\<lparr>next_id := next_id w + 1\<rparr>)"
    using assms by (intro r_into_rtranclp wstep.step [where e = "Minted d"]) (simp add: make_vec_def Let_def)
  have s2: "wstep\<^sup>*\<^sup>* ([] @ Made vid v # [], u) ([] @ Posted vid v # [], u\<lparr>attempted := attempted u + 1\<rparr>)" for vid v u
    by (intro r_into_rtranclp wstep.step [where e = Attempt]) simp
  have s3: "wstep\<^sup>*\<^sup>* ([] @ Posted vid v # [], u) ([] @ Idle # [], confirm now junk vid v u)" for vid v u
    by (intro r_into_rtranclp wstep.step [where e = "Answer 201 now junk"]) (simp add: confirm_eq)
  let ?u = "w\<lparr>next_id := next_id w + 1\<rparr>"
  note s1
  also note s2 [of "vid_of (next_id w)" "uniform_vec (d_random d)" ?u]
  also note s3 [of "vid_of (next_id w)" "uniform_vec (d_random d)" "?u\<lparr>attempted := attempted ?u + 1\<rparr>"]
  finally show ?thesis by simp
qed

definition idle_writer :: writer where
  "idle_writer = \<lparr>w_dim = 1, w_source = Uniform, loo_query_mode = ''pinned'', loo_pool_size = 0,
     loo_pool_idx = None, loo_draw_count = 0, loo_seen_idx = {}, vector_of = [], confirmed_at = [],
     attempted = 0, failed = 0, next_id = 0, corpus_ids = [], arrays = [[]], corpus_mat = 0,
     corpus_row = [], corpus_n = 0, exhausted = False\<rparr>"

definition one_write :: "real \<Rightarrow> writer \<Rightarrow> writer" where
  "one_write x w = confirm x (\<lambda>_. []) (vid_of (next_id w)) (uniform_vec [x])
     (w\<lparr>next_id := next_id w + 1, attempted := attempted w + 1\<rparr>)"

lemma idle_init:
  "writer_init 1 ''uniform'' 12 0 [] (Inl IndexError) [] ''pinned'' 0 = Inr idle_writer"
  by (simp add: writer_init_def idle_writer_def)

lemma one_write_steps:
  "w_source w = Uniform \<Longrightarrow> wstep\<^sup>*\<^sup>* ([Idle], w) ([Idle], one_write x w)"
  using write_steps [of w x "\<lambda>_. []" "\<lparr>d_random = [x], d_normal = [], d_noise = []\<rparr>"]
  by (simp add: one_write_def)

lemma one_write_sel [simp]:
  "w_source (one_write x w) = w_source w" "corpus_n (one_write x w) = corpus_n w + 1"
  "corpus_ids (one_write x w) = corpus_ids w @ [vid_of (next_id w)]" "next_id (one_write x w) = next_id w + 1"
  by (simp_all add: one_write_def confirm_def append_corpus_def grow_def Let_def)

lemma demo_runs:
  "wstep\<^sup>*\<^sup>* (replicate 1 Idle, idle_writer) ([Idle], one_write 1 idle_writer)"
  "wstep\<^sup>*\<^sup>* ([Idle], one_write 1 idle_writer) ([Idle], one_write 0 (one_write 1 idle_writer))"
  using one_write_steps [of idle_writer 1] one_write_steps [of "one_write 1 idle_writer" 0]
  by (simp_all add: idle_writer_def)

theorem snapshot_stable_witness:
  "corpus_n (one_write 0 (one_write 1 idle_writer)) = 2 \<and>
   corpus_ok (view (one_write 0 (one_write 1 idle_writer)) (snapshot_corpus (one_write 1 idle_writer))) \<and>
   score_replica numpy_ref [[1]] [[''rr-0'']] {''rr-0''} {''rr-0''}
     (view (one_write 0 (one_write 1 idle_writer)) (snapshot_corpus (one_write 1 idle_writer))) 1 ''l2'' None =
   score_replica numpy_ref [[1]] [[''rr-0'']] {''rr-0''} {''rr-0''}
     (view (one_write 1 idle_writer) (snapshot_corpus (one_write 1 idle_writer))) 1 ''l2'' None"
  using snapshot_stable [OF idle_init demo_runs, of "{''rr-0''}" "{''rr-0''}"]
  by (simp add: idle_writer_def)

text \<open>
  C8. What the sampler holds against a replica: in every reachable state of the writer threads
  no id was ever confirmed twice, every attempt is accounted for as confirmed, failed or still
  in flight, and every settled id has exactly one row in the snapshot, holding the vector that
  was confirmed under that id, so no intended id is dropped from the ground truth.
\<close>

theorem settled_ids_scorable:
  assumes "writer_init dm dst intr nse pr ld perm mode sz = Inr w0"
    and "wstep\<^sup>*\<^sup>* (replicate threads Idle, w0) (ts, w)"
  shows "distinct (corpus_ids w) \<and>
    attempted w = length (corpus_ids w) + failed w + sum_list (map posted ts) \<and>
    length (rows_for (view w (snapshot_corpus w)) (intended_set now settle w)) = card (intended_set now settle w) \<and>
    (\<forall>r \<in> set (rows_for (view w (snapshot_corpus w)) (intended_set now settle w)).
       map_of (vector_of w) (c_ids (view w (snapshot_corpus w)) ! r) = Some (c_mat (view w (snapshot_corpus w)) ! r))"
proof -
  let ?c = "view w (snapshot_corpus w)" and ?I = "intended_set now settle w"
  have inv: "writer_inv ts w" using wsteps_inv [OF assms(2) writer_init_inv [OF assms(1)]] .
  then have ci: "corpus_inv w" by (simp add: writer_inv_def)
  have ok: "corpus_ok ?c" using view_corpus_ok [OF snapshot_shows [OF ci]] .
  have sel: "c_ids ?c = corpus_ids w" "c_n ?c = corpus_n w" "c_mat ?c = arrays w ! corpus_mat w"
    by (simp_all add: view_def snapshot_corpus_def)
  have fin: "finite ?I" by (simp add: intended_set_def Let_def)
  have "?I \<subseteq> set (map fst (confirmed_at w))" by (auto simp: intended_set_def Let_def)
  then have sub: "?I \<subseteq> set (corpus_ids w)" using ci unfolding corpus_inv_def by metis
  have rows: "set (rows_for ?c ?I) = {r. r < corpus_n w \<and> corpus_ids w ! r \<in> ?I}"
    using rows_for_facts(1) [OF ok fin] by (simp add: sel)
  have d: "distinct (corpus_ids w)" "length (corpus_ids w) = corpus_n w" using ci by (auto simp: corpus_inv_def)
  have "(!) (corpus_ids w) ` set (rows_for ?c ?I) = ?I"
    using sub d(2) by (auto simp: rows image_iff in_set_conv_nth subset_eq)
  moreover have "inj_on ((!) (corpus_ids w)) (set (rows_for ?c ?I))"
    using d by (auto simp: inj_on_def rows nth_eq_iff_index_eq)
  ultimately have "length (rows_for ?c ?I) = card ?I"
    using rows_for_facts(2) [OF ok fin] by (metis card_image distinct_card)
  moreover have "map_of (vector_of w) (corpus_ids w ! r) = Some ((arrays w ! corpus_mat w) ! r)" if "r < corpus_n w" for r
    using that ci map_of_zip_nth [of "corpus_ids w" "take (corpus_n w) (arrays w ! corpus_mat w)" r]
    by (simp add: corpus_inv_def)
  ultimately show ?thesis
    using inv d by (auto simp: sel rows writer_inv_def)
qed

theorem settled_ids_scorable_witness:
  "attempted (one_write 1 idle_writer) = 1 + failed (one_write 1 idle_writer) \<and>
   length (rows_for (view (one_write 1 idle_writer) (snapshot_corpus (one_write 1 idle_writer)))
      (intended_set 10 2 (one_write 1 idle_writer))) = card (intended_set 10 2 (one_write 1 idle_writer)) \<and>
   intended_set 10 2 (one_write 1 idle_writer) = {''rr-0''}"
proof -
  have "intended_set 10 2 (one_write 1 idle_writer) = {''rr-0''}"
    by (simp add: intended_set_def one_write_def confirm_def idle_writer_def vid_of_def dec.simps digit_def)
       code_simp
  then show ?thesis
    using settled_ids_scorable [OF idle_init demo_runs(1), of 10 2] by (simp add: idle_writer_def)
qed

section \<open>Held-out queries\<close>

text \<open>Consecutive rounds of the sampler, each with the generator in a state of its own.\<close>

fun loo_rounds :: "(nat list \<Rightarrow> nat \<Rightarrow> nat list) list \<Rightarrow> nat \<Rightarrow> writer \<Rightarrow> (vec list list \<times> writer) res" where
  "loo_rounds [] n w = Inr ([], w)"
| "loo_rounds (ch # chs) n w =
     bindE (make_loo_queries ch [] n w) (\<lambda>(q, w').
     bindE (loo_rounds chs n w') (\<lambda>(qs, w''). Inr (q # qs, w'')))"

definition choice_ref :: "nat list \<Rightarrow> nat \<Rightarrow> nat list" where
  "choice_ref xs n = take n xs"

interpretation chr: rng_choice choice_ref
  by unfold_locales (auto simp: choice_ref_def dest: in_set_takeD)

lemma loo_round:
  assumes "rng_choice ch" and "loo_query_mode w = ''nonpinned''" and "w_source w = Sift b p ord"
    and "loo_pool_idx w = Some idx" and "n \<le> length idx"
  shows "\<exists>is. set is \<subseteq> set idx \<and> length is = n \<and>
    make_loo_queries ch [] n w = Inr (map ((!) p) is,
      w\<lparr>loo_draw_count := loo_draw_count w + 1, loo_seen_idx := loo_seen_idx w \<union> set is\<rparr>)"
proof -
  let ?pick = "ch [0..<length idx] n"
  have "set ?pick \<subseteq> {0..<length idx}" "length ?pick = n"
    using rng_choice.choice_subset [OF assms(1), of n "[0..<length idx]"]
      rng_choice.choice_length [OF assms(1), of n "[0..<length idx]"] assms(5) by auto
  then have "set (map ((!) idx) ?pick) \<subseteq> set idx" "length (map ((!) idx) ?pick) = n" by auto
  then show ?thesis
    using assms(2-5) by (intro exI [of _ "map ((!) idx) ?pick"]) (simp add: make_loo_queries_def Let_def)
qed

lemma loo_rounds_spec:
  assumes "\<forall>ch \<in> set chs. rng_choice ch" and "loo_query_mode w = ''nonpinned''" and "w_source w = Sift b p ord"
    and "loo_pool_idx w = Some idx" and "n \<le> length idx" and "loo_seen_idx w \<subseteq> set idx"
  shows "\<exists>qs w'. loo_rounds chs n w = Inr (qs, w') \<and> length qs = length chs \<and>
    loo_pool_idx w' = Some idx \<and> loo_draw_count w' = loo_draw_count w + length chs \<and>
    loo_seen_idx w' \<subseteq> set idx \<and> loo_seen_idx w \<subseteq> loo_seen_idx w' \<and>
    (\<forall>q \<in> set qs. length q = n \<and> set q \<subseteq> (!) p ` loo_seen_idx w')"
  using assms
proof (induction chs arbitrary: w)
  case (Cons ch chs)
  obtain "is" where is': "set is \<subseteq> set idx" "length is = n"
    "make_loo_queries ch [] n w = Inr (map ((!) p) is,
      w\<lparr>loo_draw_count := loo_draw_count w + 1, loo_seen_idx := loo_seen_idx w \<union> set is\<rparr>)"
    using loo_round [of ch w b p ord idx n] Cons.prems by auto
  let ?w = "w\<lparr>loo_draw_count := loo_draw_count w + 1, loo_seen_idx := loo_seen_idx w \<union> set is\<rparr>"
  obtain qs w' where "loo_rounds chs n ?w = Inr (qs, w')" "length qs = length chs"
    "loo_pool_idx w' = Some idx" "loo_draw_count w' = loo_draw_count w + 1 + length chs"
    "loo_seen_idx w' \<subseteq> set idx" "loo_seen_idx w \<union> set is \<subseteq> loo_seen_idx w'"
    "\<forall>q \<in> set qs. length q = n \<and> set q \<subseteq> (!) p ` loo_seen_idx w'"
    using Cons.IH [of ?w] Cons.prems is'(1) by auto
  with is' show ?case by auto
qed simp



end
