(* ===== verification/Probe.thy ===== *)
theory Probe
  imports Recall_Metrics Py_Text
begin

text \<open>
  The direct client of one shard replica, \<^verbatim>\<open>research/replica_recall/probe.py\<close>. The gRPC stubs are
  generated code, so a remote call is an input of the operation that makes it: it raises, or it
  returns an \<^verbatim>\<open>ok\<close> flag with a payload. The state of a probe is whether it holds a channel.
\<close>

record probe =
  p_name :: ident
  p_shard_id :: nat
  p_replica_id :: nat
  p_addr :: string
  p_timeout_s :: real
  p_connected :: bool

datatype 'a rpc = Rpc_raises | Rpc_returns bool 'a

text \<open>\<^verbatim>\<open>ReplicaProbe.__init__\<close>, \<^verbatim>\<open>_stub_or_connect\<close> and \<^verbatim>\<open>_reset\<close> (a failing \<^verbatim>\<open>close\<close> is swallowed).\<close>

definition new_probe :: "ident \<Rightarrow> nat \<Rightarrow> nat \<Rightarrow> string \<Rightarrow> nat \<Rightarrow> real \<Rightarrow> probe" where
  "new_probe name shard replica host port timeout_s =
     \<lparr>p_name = name, p_shard_id = shard, p_replica_id = replica, p_addr = host @ '':'' @ dec port,
      p_timeout_s = timeout_s, p_connected = False\<rparr>"

definition stub_or_connect :: "probe \<Rightarrow> probe" where
  "stub_or_connect p = p\<lparr>p_connected := True\<rparr>"

definition reset :: "probe \<Rightarrow> probe" where
  "reset p = p\<lparr>p_connected := False\<rparr>"

fun list_local_ids :: "ident list rpc \<Rightarrow> probe \<Rightarrow> (bool \<times> ident set) \<times> probe" where
  "list_local_ids Rpc_raises p = ((False, {}), reset p)"
| "list_local_ids (Rpc_returns ok ids) p =
     ((if \<not> ok then (False, {}) else (True, set ids)), stub_or_connect p)"

fun search :: "ident list rpc \<Rightarrow> probe \<Rightarrow> (bool \<times> ident list) \<times> probe" where
  "search Rpc_raises p = ((False, []), reset p)"
| "search (Rpc_returns ok res) p =
     ((if \<not> ok then (False, []) else (True, res)), stub_or_connect p)"

text \<open>
  \<^verbatim>\<open>search_batch\<close>: \<open>srv\<close> answers the calls, one per query, with \<open>k\<close>; the loop returns at the first
  failure and drops what it had collected.
\<close>

fun search_loop :: "(vec \<Rightarrow> nat \<Rightarrow> ident list rpc) \<Rightarrow> vec list \<Rightarrow> nat \<Rightarrow> ident list list \<Rightarrow> probe \<Rightarrow>
    (bool \<times> ident list list) \<times> probe" where
  "search_loop srv [] k out p = ((True, out), p)"
| "search_loop srv (q # qs) k out p =
     (let ((ok, res), p') = search (srv q k) p
      in if \<not> ok then ((False, []), p') else search_loop srv qs k (out @ [res]) p')"

definition search_batch :: "(vec \<Rightarrow> nat \<Rightarrow> ident list rpc) \<Rightarrow> vec list \<Rightarrow> nat \<Rightarrow> probe \<Rightarrow>
    (bool \<times> ident list list) \<times> probe" where
  "search_batch srv queries k p = search_loop srv queries k [] p"

definition probe_close :: "probe \<Rightarrow> probe" where
  "probe_close p = reset p"

definition build_probes :: "nat \<Rightarrow> nat \<Rightarrow> (nat \<Rightarrow> nat \<Rightarrow> nat) \<Rightarrow> string \<Rightarrow> real \<Rightarrow> probe list" where
  "build_probes num_shards replicas_per_shard port_fn host timeout_s =
     [new_probe (''shard-'' @ dec s @ ''-'' @ dec r) s r host (port_fn s r) timeout_s.
        s \<leftarrow> [0..<num_shards], r \<leftarrow> [0..<replicas_per_shard]]"

section \<open>What a batch returns\<close>

definition rpc_ok :: "'a rpc \<Rightarrow> bool" where
  "rpc_ok r \<longleftrightarrow> (\<exists>x. r = Rpc_returns True x)"

fun rpc_payload :: "'a list rpc \<Rightarrow> 'a list" where
  "rpc_payload (Rpc_returns True x) = x"
| "rpc_payload _ = []"

lemma search_eq: "fst (search r p) = (rpc_ok r, rpc_payload r)"
  by (cases "(r, p)" rule: search.cases) (auto simp: rpc_ok_def)

lemma search_loop_eq:
  "fst (search_loop srv qs k out p) =
     (if \<forall>q \<in> set qs. rpc_ok (srv q k) then (True, out @ map (\<lambda>q. rpc_payload (srv q k)) qs) else (False, []))"
proof (induction qs arbitrary: out p)
  case (Cons q qs)
  then show ?case
    using search_eq [of "srv q k" p] by (auto simp: Let_def split: prod.splits)
qed simp

lemma search_loop_identity:
  "p_name (snd (search_loop srv qs k out p)) = p_name p \<and> p_shard_id (snd (search_loop srv qs k out p)) = p_shard_id p \<and>
   p_replica_id (snd (search_loop srv qs k out p)) = p_replica_id p"
proof (induction qs arbitrary: out p)
  case (Cons q qs)
  have id: "p_name (snd (search r p)) = p_name p \<and> p_shard_id (snd (search r p)) = p_shard_id p \<and>
      p_replica_id (snd (search r p)) = p_replica_id p" for r
    by (cases "(r, p)" rule: search.cases) (auto simp: reset_def stub_or_connect_def)
  show ?case
    using Cons.IH id [of "srv q k"] by (auto simp: Let_def split: prod.splits)
qed simp

text \<open>
  A batch is all or nothing: \<^verbatim>\<open>search_batch\<close> reports success exactly when every single search
  succeeded, and then returns one answer per query, in query order; otherwise it returns no
  partial sample. The replica it talks to never changes, whatever happens to its channel.
\<close>

theorem search_batch_all_or_nothing:
  "fst (search_batch srv queries k p) =
     (if list_all (\<lambda>q. rpc_ok (srv q k)) queries then (True, map (\<lambda>q. rpc_payload (srv q k)) queries) else (False, [])) \<and>
   p_name (snd (search_batch srv queries k p)) = p_name p"
  using search_loop_eq [of srv queries k "[]" p] search_loop_identity [of srv queries k "[]" p]
  by (simp add: search_batch_def list_all_iff)

section \<open>The probes of a cluster\<close>

lemma dec_no_dash: "CHR ''-'' \<notin> set (dec n)"
proof (induction n rule: dec.induct)
  case (1 n)
  have "CHR ''-'' \<noteq> digit d" if "d < 10" for d
  proof
    assume "CHR ''-'' = digit d"
    then have "of_char (digit d) = (of_char CHR ''-'' :: nat)" by (simp only:)
    then show False using that by (simp add: digit_def)
  qed
  from this [of n] this [of "n mod 10"] 1 show ?case by (cases "n < 10") (simp_all add: dec.simps [of n])
qed

lemma replica_name_inj:
  assumes "''shard-'' @ dec s @ ''-'' @ dec r = ''shard-'' @ dec s' @ ''-'' @ dec r'"
  shows "s = s' \<and> r = r'"
proof -
  have eq: "dec s @ CHR ''-'' # dec r = dec s' @ CHR ''-'' # dec r'" using assms by simp
  have "takeWhile (\<lambda>c. c \<noteq> CHR ''-'') (dec a @ CHR ''-'' # b) = dec a" for a b
    using dec_no_dash [of a] by (subst takeWhile_append2) auto
  from arg_cong [OF eq, of "takeWhile (\<lambda>c. c \<noteq> CHR ''-'')"] this have "dec s = dec s'" by simp
  with eq show ?thesis by simp
qed

lemma build_probes_distinct: "distinct (map p_name (build_probes m n f h t))"
proof -
  have "map p_name (build_probes m n f h t) =
      map (\<lambda>(s, r). ''shard-'' @ dec s @ ''-'' @ dec r) (List.product [0..<m] [0..<n])"
    by (simp add: build_probes_def new_probe_def product_concat_map map_concat comp_def)
  moreover have "inj_on (\<lambda>(s, r). ''shard-'' @ dec s @ ''-'' @ dec r) A" for A
  proof (rule inj_onI)
    fix x y :: "nat \<times> nat"
    assume "(case x of (s, r) \<Rightarrow> ''shard-'' @ dec s @ ''-'' @ dec r) = (case y of (s, r) \<Rightarrow> ''shard-'' @ dec s @ ''-'' @ dec r)"
    then have "''shard-'' @ dec (fst x) @ ''-'' @ dec (snd x) = ''shard-'' @ dec (fst y) @ ''-'' @ dec (snd y)"
      by (simp only: case_prod_unfold)
    from replica_name_inj [OF this] show "x = y" by (simp add: prod_eq_iff)
  qed
  ultimately show ?thesis by (simp add: distinct_map distinct_product)
qed

lemma length_build_probes: "length (build_probes m n f h t) = m * n"
  by (simp add: build_probes_def length_concat comp_def sum_list_triv)

end
