(* ===== verification/Sampler.thy ===== *)
theory Sampler
  imports Writer Probe
begin

text \<open>
  One sampling round of \<^verbatim>\<open>research/replica_recall/run_experiment.py\<close>: \<^verbatim>\<open>sample_once\<close> probes every
  replica, derives what each shard should hold from the settled writes, scores every reachable
  replica and emits one row per replica; \<^verbatim>\<open>sampler_loop\<close> repeats it and records exceptions. The
  answers of the replicas and the clock readings are inputs.
\<close>

section \<open>Phase 1: probing\<close>

record raw_rec =
  rr_probe :: probe
  rr_reachable :: bool
  rr_local :: "ident set"
  rr_obs :: "ident list list"
  rr_loo_obs :: "ident list list option"

record replica_io =
  io_list :: "ident list rpc"
  io_search :: "vec \<Rightarrow> nat \<Rightarrow> ident list rpc"
  io_loo :: "vec \<Rightarrow> nat \<Rightarrow> ident list rpc"

definition probe_one ::
  "replica_io \<Rightarrow> vec list \<Rightarrow> vec list option \<Rightarrow> nat \<Rightarrow> nat \<Rightarrow> probe \<Rightarrow> ident \<times> raw_rec" where
  "probe_one io queries loo_queries k k_fetch p =
     (let ((ok_ids, local), p1) = list_local_ids (io_list io) p;
          ((ok_search, obs), p2) =
            (if ok_ids then search_batch (io_search io) queries k_fetch p1 else ((False, []), p1));
          (ok_loo, loo_obs, p3) =
            (case loo_queries of
               None \<Rightarrow> (None, None, p2)
             | Some lq \<Rightarrow>
                 if ok_ids then (let ((ok, res), p') = search_batch (io_loo io) lq k p2 in (Some ok, Some res, p'))
                 else (Some False, Some [], p2))
      in (p_name p, \<lparr>rr_probe = p3,
            rr_reachable = (ok_ids \<and> ok_search \<and> (ok_loo = None \<or> ok_loo = Some True)),
            rr_local = local, rr_obs = obs, rr_loo_obs = loo_obs\<rparr>))"

section \<open>Phase 2: scoring\<close>

text \<open>A row of the sample file; an empty cell is \<open>None\<close>.\<close>

record sample_row =
  s_t :: real
  s_shard :: nat
  s_replica :: nat
  s_name :: ident
  s_reachable :: bool
  s_index_recall :: "real option"
  s_e2e_recall :: "real option"
  s_completeness :: "real option"
  s_n_local :: "nat option"
  s_n_intended :: nat
  s_shard_agreement :: "real option"
  s_loo_agreement :: "real option"
  s_n_confirmed_settled :: nat
  s_probe_s :: "real option"
  s_score_s :: "real option"

text \<open>\<^verbatim>\<open>"" if np.isnan(x) else round(x, 6)\<close>, and the local function \<^verbatim>\<open>fmt\<close>.\<close>

fun fmt :: "flt \<Rightarrow> real option" where
  "fmt NaN = None"
| "fmt (Fl x) = Some (py_round 6 x)"

definition int_of_flt :: "flt \<Rightarrow> nat" where
  "int_of_flt x = nat \<lfloor>fval x\<rfloor>"

text \<open>The clock: start of the sweep, duration of the probe phase, and the elapsed scoring time.\<close>

record sweep_clock =
  sc_t :: real
  sc_probe_s :: real
  sc_score_s :: "ident \<Rightarrow> real"

definition shard_union :: "(ident, raw_rec) dict \<Rightarrow> ident list \<Rightarrow> ident set" where
  "shard_union raw live = \<Union> (set (map (\<lambda>n. rr_local (the (map_of raw n))) live))"

definition replica_row ::
  "numpy \<Rightarrow> sweep_clock \<Rightarrow> vec list \<Rightarrow> nat \<Rightarrow> string \<Rightarrow> ident set \<Rightarrow> corpus \<Rightarrow> nat \<Rightarrow>
   flt \<Rightarrow> (ident, flt) dict \<Rightarrow> ident set \<Rightarrow> nat list \<Rightarrow> ident \<Rightarrow> raw_rec \<Rightarrow> sample_row res" where
  "replica_row np clk queries k metric intended_all c shard agreement loo intended_s intended_rows n r =
     (if \<not> rr_reachable r then
        Inr \<lparr>s_t = sc_t clk, s_shard = shard, s_replica = p_replica_id (rr_probe r), s_name = n,
             s_reachable = False, s_index_recall = None, s_e2e_recall = None, s_completeness = None,
             s_n_local = None, s_n_intended = card intended_s, s_shard_agreement = fmt agreement,
             s_loo_agreement = None, s_n_confirmed_settled = card intended_all,
             s_probe_s = None, s_score_s = None\<rparr>
      else bindE (score_replica np queries (rr_obs r) (rr_local r) intended_s c k metric (Some intended_rows)) (\<lambda>m.
        Inr \<lparr>s_t = sc_t clk, s_shard = shard, s_replica = p_replica_id (rr_probe r), s_name = n,
             s_reachable = True, s_index_recall = fmt (index_recall m), s_e2e_recall = fmt (e2e_recall m),
             s_completeness = fmt (completeness m), s_n_local = Some (int_of_flt (n_local m)),
             s_n_intended = int_of_flt (n_intended m), s_shard_agreement = fmt agreement,
             s_loo_agreement = fmt (dict_get loo n NaN), s_n_confirmed_settled = card intended_all,
             s_probe_s = Some (py_round 3 (sc_probe_s clk)), s_score_s = Some (py_round 3 (sc_score_s clk n))\<rparr>))"

definition shard_rows ::
  "numpy \<Rightarrow> sweep_clock \<Rightarrow> vec list \<Rightarrow> bool \<Rightarrow> nat \<Rightarrow> string \<Rightarrow> ident set \<Rightarrow> corpus \<Rightarrow>
   (ident, raw_rec) dict \<Rightarrow> nat \<times> ident list \<Rightarrow> sample_row list res" where
  "shard_rows np clk queries loo_on k metric intended_all c raw sn =
     (let (shard, names) = sn;
          rec = (\<lambda>n. the (map_of raw n));
          live = filter (\<lambda>n. rr_reachable (rec n)) names;
          intended_s = shard_union raw live \<inter> intended_all;
          live_obs = map (\<lambda>n. (n, map (take k) (if loo_on then the (rr_loo_obs (rec n)) else rr_obs (rec n)))) live;
          agreement = (if 2 \<le> length live then pairwise_agreement np live_obs k else NaN);
          loo = (if 3 \<le> length live then leave_one_out_agreement np live_obs k else []);
          intended_rows = rows_for c intended_s
      in traverseE (\<lambda>n. replica_row np clk queries k metric intended_all c shard agreement loo intended_s intended_rows n (rec n)) names)"

definition score_sweep ::
  "numpy \<Rightarrow> sweep_clock \<Rightarrow> vec list \<Rightarrow> bool \<Rightarrow> nat \<Rightarrow> string \<Rightarrow> ident set \<Rightarrow> corpus \<Rightarrow> (ident, raw_rec) dict \<Rightarrow>
   sample_row list res" where
  "score_sweep np clk queries loo_on k metric intended_all c raw =
     (let by_shard = group_by (\<lambda>(name, r). p_shard_id (rr_probe r)) fst raw
      in bindE (traverseE (shard_rows np clk queries loo_on k metric intended_all c raw) (sorted_items by_shard))
           (\<lambda>rss. Inr (concat rss)))"

definition sample_once ::
  "numpy \<Rightarrow> sweep_clock \<Rightarrow> (ident \<Rightarrow> replica_io) \<Rightarrow> probe list \<Rightarrow> writer \<Rightarrow> vec list \<Rightarrow> nat \<Rightarrow> real \<Rightarrow> real \<Rightarrow>
   string \<Rightarrow> vec list option \<Rightarrow> sample_row list res" where
  "sample_once np clk io probes w queries k now settle_s metric loo_queries =
     (let intended_all = intended_set now settle_s w;
          c = view w (snapshot_corpus w);
          k_fetch = k * 3;
          raw = foldl (\<lambda>d p. (let (name, rec) = probe_one (io (p_name p)) queries loo_queries k k_fetch p
                               in dict_set name rec d)) [] probes
      in score_sweep np clk queries (loo_queries \<noteq> None) k metric intended_all c raw)"

text \<open>
  \<^verbatim>\<open>sampler_loop\<close>: rounds until the stop event; an exception is recorded and the loop goes on. A
  round says what the environment does: \<open>rd_env\<close> is what the writer threads did since the last
  round, \<open>rd_choice\<close> and \<open>rd_draws\<close> what the agreement generator draws.
\<close>

record round =
  rd_env :: "writer \<Rightarrow> writer"
  rd_choice :: "nat list \<Rightarrow> nat \<Rightarrow> nat list"
  rd_draws :: "draw list"
  rd_clock :: sweep_clock
  rd_io :: "ident \<Rightarrow> replica_io"
  rd_now :: real

definition sample_round ::
  "numpy \<Rightarrow> probe list \<Rightarrow> vec list \<Rightarrow> nat \<Rightarrow> real \<Rightarrow> string \<Rightarrow> nat option \<Rightarrow> round \<Rightarrow> writer \<Rightarrow>
   sample_row list res \<times> writer" where
  "sample_round np probes queries k settle_s metric loo_queries_n rd w =
     (case loo_queries_n of
        None \<Rightarrow> (sample_once np (rd_clock rd) (rd_io rd) probes w queries k (rd_now rd) settle_s metric None, w)
      | Some n \<Rightarrow>
          (case make_loo_queries (rd_choice rd) (rd_draws rd) n w of
             Inl e \<Rightarrow> (Inl e, w)
           | Inr (lq, w') \<Rightarrow>
               (sample_once np (rd_clock rd) (rd_io rd) probes w' queries k (rd_now rd) settle_s metric (Some lq), w')))"

fun sampler_loop ::
  "numpy \<Rightarrow> probe list \<Rightarrow> vec list \<Rightarrow> nat \<Rightarrow> real \<Rightarrow> string \<Rightarrow> nat option \<Rightarrow> round list \<Rightarrow> writer \<Rightarrow>
   sample_row list \<times> pyerr list \<Rightarrow> writer \<times> sample_row list \<times> pyerr list" where
  "sampler_loop np probes queries k settle_s metric lqn [] w out = (w, out)"
| "sampler_loop np probes queries k settle_s metric lqn (rd # rounds) w (rows_out, errors_out) =
     (case sample_round np probes queries k settle_s metric lqn rd (rd_env rd w) of
        (Inr rows, w') \<Rightarrow> sampler_loop np probes queries k settle_s metric lqn rounds w' (rows_out @ rows, errors_out)
      | (Inl e, w') \<Rightarrow> sampler_loop np probes queries k settle_s metric lqn rounds w' (rows_out, errors_out @ [e]))"

section \<open>One row per replica\<close>

lemma probe_one_name [simp]: "fst (probe_one io queries lq k kf p) = p_name p"
  by (simp add: probe_one_def Let_def split: prod.splits)

lemma list_local_ids_identity:
  "p_shard_id (snd (list_local_ids r p)) = p_shard_id p \<and> p_replica_id (snd (list_local_ids r p)) = p_replica_id p"
  by (cases "(r, p)" rule: list_local_ids.cases) (auto simp: reset_def stub_or_connect_def)

lemma search_batch_identity:
  "p_shard_id (snd (search_batch srv qs k p)) = p_shard_id p \<and> p_replica_id (snd (search_batch srv qs k p)) = p_replica_id p"
  using search_loop_identity [of srv qs k "[]" p] by (simp add: search_batch_def)

lemma probe_one_identity:
  "p_shard_id (rr_probe (snd (probe_one io queries lq k kf p))) = p_shard_id p"
proof -
  obtain ok l p1 where 1: "list_local_ids (io_list io) p = ((ok, l), p1)" by (metis surj_pair)
  have s1: "p_shard_id p1 = p_shard_id p" using list_local_ids_identity [of "io_list io" p] 1 by simp
  have sb: "p_shard_id (snd (search_batch srv qs n q)) = p_shard_id q" for srv qs n q
    using search_batch_identity by simp
  show ?thesis
    using s1 sb [of "io_search io" queries kf p1] sb [of "io_loo io" "the lq" k]
    by (auto simp: probe_one_def 1 Let_def split: prod.splits option.splits)
       (metis snd_conv)+
qed

definition raw_of :: "(ident \<Rightarrow> replica_io) \<Rightarrow> vec list \<Rightarrow> vec list option \<Rightarrow> nat \<Rightarrow> probe list \<Rightarrow> (ident, raw_rec) dict" where
  "raw_of io queries lq k probes = map (\<lambda>p. probe_one (io (p_name p)) queries lq k (k * 3) p) probes"

lemma raw_foldl:
  assumes "distinct (map p_name probes)"
  shows "foldl (\<lambda>d p. (let (name, rec) = probe_one (io (p_name p)) queries lq k (k * 3) p in dict_set name rec d)) [] probes =
     raw_of io queries lq k probes"
  using assms
proof (induction probes rule: rev_induct)
  case (snoc p ps)
  let ?r = "probe_one (io (p_name p)) queries lq k (k * 3) p"
  have "p_name p \<notin> set (map fst (raw_of io queries lq k ps))"
    using snoc.prems by (auto simp: raw_of_def comp_def)
  with snoc show ?case
    using probe_one_name [of "io (p_name p)" queries lq k "k * 3" p]
    by (auto simp: raw_of_def dict_set_fresh case_prod_unfold Let_def simp del: probe_one_name) (metis prod.collapse)
qed (simp add: raw_of_def)

text \<open>The record of a probe, and what its shard should hold, read off the probes themselves.\<close>

definition rec_of :: "(ident \<Rightarrow> replica_io) \<Rightarrow> vec list \<Rightarrow> vec list option \<Rightarrow> nat \<Rightarrow> probe \<Rightarrow> raw_rec" where
  "rec_of io queries lq k p = snd (probe_one (io (p_name p)) queries lq k (k * 3) p)"

text \<open>A replica answers a sweep when every call made to it succeeds; what it holds is its listing.\<close>

definition answers_all :: "replica_io \<Rightarrow> vec list \<Rightarrow> vec list option \<Rightarrow> nat \<Rightarrow> bool" where
  "answers_all io queries lq k \<longleftrightarrow>
     rpc_ok (io_list io) \<and> list_all (\<lambda>q. rpc_ok (io_search io q (k * 3))) queries \<and>
     (case lq of None \<Rightarrow> True | Some qs \<Rightarrow> list_all (\<lambda>q. rpc_ok (io_loo io q k)) qs)"

definition held :: "replica_io \<Rightarrow> ident set" where
  "held io = set (rpc_payload (io_list io))"

definition shard_intended ::
  "(ident \<Rightarrow> replica_io) \<Rightarrow> vec list \<Rightarrow> vec list option \<Rightarrow> nat \<Rightarrow> probe list \<Rightarrow> ident set \<Rightarrow> nat \<Rightarrow> ident set" where
  "shard_intended io queries lq k probes settled shard =
     {i \<in> settled. \<exists>p \<in> set probes. p_shard_id p = shard \<and> answers_all (io (p_name p)) queries lq k \<and> i \<in> held (io (p_name p))}"

lemma list_local_ids_eq: "fst (list_local_ids r p) = (rpc_ok r, set (rpc_payload r))"
  by (cases "(r, p)" rule: list_local_ids.cases) (auto simp: rpc_ok_def)

lemma search_batch_ok: "fst (fst (search_batch srv qs n p)) \<longleftrightarrow> list_all (\<lambda>q. rpc_ok (srv q n)) qs"
  by (simp add: search_batch_def search_loop_eq list_all_iff)

lemma rec_of_reachable: "rr_reachable (rec_of io queries lq k p) \<longleftrightarrow> answers_all (io (p_name p)) queries lq k"
  by (cases lq) (simp_all add: rec_of_def probe_one_def Let_def case_prod_unfold list_local_ids_eq search_batch_ok
        answers_all_def)

lemma rec_of_local: "rr_local (rec_of io queries lq k p) = held (io (p_name p))"
  by (simp add: rec_of_def probe_one_def Let_def case_prod_unfold list_local_ids_eq held_def)

lemmas rec_of_answers = rec_of_reachable rec_of_local

lemma raw_of_eq: "raw_of io queries lq k probes = map (\<lambda>p. (p_name p, rec_of io queries lq k p)) probes"
  by (simp add: raw_of_def rec_of_def prod_eq_iff)

lemma map_of_raw:
  assumes "distinct (map p_name probes)" and "p \<in> set probes"
  shows "map_of (raw_of io queries lq k probes) (p_name p) = Some (rec_of io queries lq k p)"
  using assms by (intro map_of_is_SomeI) (auto simp: raw_of_eq comp_def)

lemma rec_of_shard [simp]: "p_shard_id (rr_probe (rec_of io queries lq k p)) = p_shard_id p"
  by (simp add: rec_of_def probe_one_identity)

lemma rec_of_local_finite: "finite (rr_local (rec_of io queries lq k p))"
  by (simp add: rec_of_answers held_def)

text \<open>What a shard should hold, read off the records of a sweep: settled ids some reachable replica holds.\<close>

definition sweep_intended :: "(ident, raw_rec) dict \<Rightarrow> ident set \<Rightarrow> nat \<Rightarrow> ident set" where
  "sweep_intended raw settled shard =
     {i \<in> settled. \<exists>r \<in> snd ` set raw. p_shard_id (rr_probe r) = shard \<and> rr_reachable r \<and> i \<in> rr_local r}"

lemma by_shard_names:
  assumes "(shard, names) \<in> set (group_by (\<lambda>(name, r). p_shard_id (rr_probe r)) fst raw)"
  shows "names = map fst (filter (\<lambda>(n, r). p_shard_id (rr_probe r) = shard) raw)"
  using assms by (auto simp: group_by_items case_prod_unfold)

lemma keys_lookup:
  assumes "distinct (map fst raw)"
  shows "map (\<lambda>n. g (the (map_of raw n))) (filter (\<lambda>n. Q (the (map_of raw n))) (map fst (filter P raw))) =
    map (\<lambda>x. g (snd x)) (filter (\<lambda>x. Q (snd x)) (filter P raw))"
proof -
  have m: "the (map_of raw (fst x)) = snd x" if "x \<in> set raw" for x
    using map_of_is_SomeI [OF assms, of "fst x" "snd x"] that by simp
  have "filter (\<lambda>x. Q (the (map_of raw (fst x)))) (filter P raw) = filter (\<lambda>x. Q (snd x)) (filter P raw)"
    by (rule filter_cong) (simp_all add: m)
  then show ?thesis by (simp only: filter_map comp_def map_map) (auto simp: m)
qed

lemma shard_union_eq:
  assumes "distinct (map fst raw)"
  shows "shard_union raw (filter (\<lambda>n. rr_reachable (the (map_of raw n)))
      (map fst (filter (\<lambda>(n, r). p_shard_id (rr_probe r) = shard) raw))) \<inter> settled = sweep_intended raw settled shard"
  unfolding shard_union_def keys_lookup [OF assms] sweep_intended_def by (auto simp: case_prod_unfold)

lemma sweep_intended_raw_of:
  "sweep_intended (raw_of io queries lq k probes) settled shard = shard_intended io queries lq k probes settled shard"
  by (auto simp: sweep_intended_def shard_intended_def raw_of_eq image_image rec_of_answers)

lemma score_replica_rows_given:
  "score_replica np queries observed L I c k metric (Some (rows_for c I)) = score_replica np queries observed L I c k metric None"
  by (simp add: score_replica_def Let_def)

definition cell_unit :: "real option \<Rightarrow> bool" where
  "cell_unit x \<longleftrightarrow> (case x of None \<Rightarrow> True | Some v \<Rightarrow> 0 \<le> v \<and> v \<le> 1)"

lemma fmt_unit: "x = NaN \<or> in_unit x \<Longrightarrow> cell_unit (fmt x)"
  using py_round_mono [of 0 _ 6] py_round_mono [of _ 1 6] by (auto simp: in_unit_def cell_unit_def)

text \<open>What a row must say about the replica behind probe \<open>p\<close>, given what its shard should hold.\<close>

definition row_of_replica :: "bool \<Rightarrow> ident set \<Rightarrow> ident set \<Rightarrow> sample_row \<Rightarrow> bool" where
  "row_of_replica reach L I row \<longleftrightarrow>
     s_reachable row = reach \<and> s_n_intended row = card I \<and>
     (if reach
      then cell_unit (s_index_recall row) \<and> cell_unit (s_e2e_recall row) \<and>
           s_n_local row = Some (card L) \<and>
           s_completeness row = (if I = {} then None
             else Some (py_round 6 (real (card (L \<inter> I)) / real (card I))))
      else s_index_recall row = None \<and> s_e2e_recall row = None \<and> s_completeness row = None \<and>
           s_n_local row = None \<and> s_loo_agreement row = None)"

lemma replica_row_total:
  assumes np: "numpy_api np" and wp: "well_posed c queries k metric"
    and fin: "finite (rr_local r)" "finite I"
  shows "\<exists>row. replica_row np clk queries k metric settled c shard agreement loo I (rows_for c I) n r = Inr row \<and>
    s_name row = n \<and> s_shard row = shard \<and> row_of_replica (rr_reachable r) (rr_local r) I row"
proof (cases "rr_reachable r")
  case True
  obtain s where s: "score_replica np queries (rr_obs r) (rr_local r) I c k metric None = Inr s"
    "index_recall s = NaN \<or> in_unit (index_recall s)" "e2e_recall s = NaN \<or> in_unit (e2e_recall s)"
    "completeness s = set_completeness (rr_local r) I"
    using score_replica_cases [OF np wp fin, of "rr_obs r"] by (metis (full_types))
  have "n_local s = Fl (real (card (rr_local r)))" "n_intended s = Fl (real (card I))"
    using s(1) by (auto simp: score_replica_def Let_def err_simps)
  then show ?thesis
    using True s fmt_unit [OF s(2)] fmt_unit [OF s(3)]
    by (auto simp: replica_row_def score_replica_rows_given row_of_replica_def int_of_flt_def set_completeness_def)
qed (simp add: replica_row_def row_of_replica_def)

lemma score_sweep_list_all2:
  fixes raw :: "(ident, raw_rec) dict"
  assumes np: "numpy_api np" and dist: "distinct (map fst raw)" and wp: "well_posed c queries k metric"
    and fin: "finite settled" "list_all (\<lambda>(n, r). finite (rr_local r)) raw"
  defines "groups \<equiv> sorted_items (group_by (\<lambda>(name, r). p_shard_id (rr_probe r)) fst raw)"
  shows "\<exists>rss. score_sweep np clk queries loo_on k metric settled c raw = Inr (concat rss) \<and>
    list_all2 (\<lambda>(shard, names) rs. list_all2 (\<lambda>n row. s_name row = n \<and> s_shard row = shard \<and>
        row_of_replica (rr_reachable (the (map_of raw n))) (rr_local (the (map_of raw n))) (sweep_intended raw settled shard) row) names rs)
      groups rss"
proof -
  let ?I = "sweep_intended raw settled"
  have tot: "\<exists>rs. shard_rows np clk queries loo_on k metric settled c raw g = Inr rs \<and>
      (case g of (shard, names) \<Rightarrow> list_all2 (\<lambda>n row. s_name row = n \<and> s_shard row = shard \<and>
        row_of_replica (rr_reachable (the (map_of raw n))) (rr_local (the (map_of raw n))) (?I shard) row) names rs)"
    if "g \<in> set groups" for g
  proof -
    obtain shard names where g: "g = (shard, names)" by (cases g)
    have names: "names = map fst (filter (\<lambda>(n, r). p_shard_id (rr_probe r) = shard) raw)"
      using that by (intro by_shard_names) (simp add: g groups_def)
    have I: "shard_union raw (filter (\<lambda>n. rr_reachable (the (map_of raw n))) names) \<inter> settled = ?I shard"
      unfolding names by (rule shard_union_eq [OF dist])
    have finI: "finite (?I shard)" using fin(1) by (simp add: sweep_intended_def)
    have "finite (rr_local (the (map_of raw n)))" if "n \<in> set names" for n
      using that fin(2) dist by (auto simp: names list_all_iff)
    then show ?thesis
      using replica_row_total [OF np wp _ finI] unfolding g shard_rows_def Let_def I prod.case
      by (intro traverseE_total) blast
  qed
  obtain rss where "traverseE (shard_rows np clk queries loo_on k metric settled c raw) groups = Inr rss"
    "list_all2 (\<lambda>g rs. case g of (shard, names) \<Rightarrow> list_all2 (\<lambda>n row. s_name row = n \<and> s_shard row = shard \<and>
        row_of_replica (rr_reachable (the (map_of raw n))) (rr_local (the (map_of raw n))) (?I shard) row) names rs) groups rss"
    using traverseE_total [where xs = groups and f = "shard_rows np clk queries loo_on k metric settled c raw", OF tot]
    by blast
  then show ?thesis
    unfolding score_sweep_def Let_def
    by (intro exI [of _ rss]) (simp add: groups_def case_prod_unfold)
qed

lemma list_all2_set2: "list_all2 P xs ys \<Longrightarrow> y \<in> set ys \<Longrightarrow> \<exists>x \<in> set xs. P x y"
  by (induction rule: list_all2_induct) auto

lemma grouped_names:
  assumes "list_all2 (\<lambda>(a, ns) rs. list_all2 (\<lambda>n row. s_name row = n \<and> Q a n row) ns rs) gs rss"
  shows "map (map s_name) rss = map snd gs"
  using assms
proof (induction rule: list_all2_induct)
  case (Cons g gs rs rss)
  then have "map s_name rs = snd g" by (auto simp: list_all2_conv_all_nth intro!: nth_equalityI)
  with Cons show ?case by simp
qed simp

text \<open>Scoring a sweep: one row per record, each saying what \<open>row_of_replica\<close> demands.\<close>

lemma score_sweep_total:
  assumes "numpy_api np" and dist: "distinct (map fst raw)" and "well_posed c queries k metric"
    and "finite settled" "list_all (\<lambda>(n, r). finite (rr_local r)) raw"
  shows "\<exists>rows. score_sweep np clk queries loo_on k metric settled c raw = Inr rows \<and>
    mset (map s_name rows) = mset (map fst raw) \<and>
    (\<forall>row \<in> set rows. \<exists>r. (s_name row, r) \<in> set raw \<and> s_shard row = p_shard_id (rr_probe r) \<and>
       row_of_replica (rr_reachable r) (rr_local r) (sweep_intended raw settled (p_shard_id (rr_probe r))) row)"
proof -
  let ?by = "group_by (\<lambda>(name, r). p_shard_id (rr_probe r)) fst raw"
  let ?I = "sweep_intended raw settled"
  obtain rss where run: "score_sweep np clk queries loo_on k metric settled c raw = Inr (concat rss)"
    and rel: "list_all2 (\<lambda>(shard, names) rs. list_all2 (\<lambda>n row. s_name row = n \<and> s_shard row = shard \<and>
        row_of_replica (rr_reachable (the (map_of raw n))) (rr_local (the (map_of raw n))) (?I shard) row) names rs)
        (sorted_items ?by) rss"
    using score_sweep_list_all2 [OF assms] by blast
  have "map s_name (concat rss) = concat (map snd (sorted_items ?by))"
    using grouped_names [OF rel] by (simp add: map_concat)
  then have "mset (map s_name (concat rss)) = mset (concat (map snd ?by))"
    using mset_concat_perm [of "sorted_items ?by" ?by snd] by (simp only: sorted_items_perm)
  then have names: "mset (map s_name (concat rss)) = mset (map fst raw)" by (simp only: group_by_mset)
  have "\<exists>r. (s_name row, r) \<in> set raw \<and> s_shard row = p_shard_id (rr_probe r) \<and>
       row_of_replica (rr_reachable r) (rr_local r) (?I (p_shard_id (rr_probe r))) row" if row: "row \<in> set (concat rss)" for row
  proof -
    obtain rs where rs: "rs \<in> set rss" "row \<in> set rs" using row by auto
    obtain shard ns where g: "(shard, ns) \<in> set (sorted_items ?by)"
      "list_all2 (\<lambda>n row. s_name row = n \<and> s_shard row = shard \<and>
         row_of_replica (rr_reachable (the (map_of raw n))) (rr_local (the (map_of raw n))) (?I shard) row) ns rs"
      using list_all2_set2 [OF rel rs(1)] by auto
    obtain n where n: "n \<in> set ns" "s_name row = n" "s_shard row = shard"
      "row_of_replica (rr_reachable (the (map_of raw n))) (rr_local (the (map_of raw n))) (?I shard) row"
      using list_all2_set2 [OF g(2) rs(2)] by auto
    have "ns = map fst (filter (\<lambda>(n, r). p_shard_id (rr_probe r) = shard) raw)"
      using g(1) by (intro by_shard_names) simp
    with n(1) obtain r where r: "(n, r) \<in> set raw" "p_shard_id (rr_probe r) = shard" by auto
    with dist have "map_of raw n = Some r" by simp
    with n r show ?thesis by (intro exI [of _ r]) simp
  qed
  with run names show ?thesis by blast
qed

lemma sample_once_rows:
  fixes now settle_s :: real
  assumes "numpy_api np" and dist: "distinct (map p_name probes)"
    and "well_posed (view w (snapshot_corpus w)) queries k metric"
  defines "settled \<equiv> intended_set now settle_s w"
  shows "\<exists>rows. sample_once np clk io probes w queries k now settle_s metric lq = Inr rows \<and>
    mset (map s_name rows) = mset (map p_name probes) \<and>
    (\<forall>row \<in> set rows. \<exists>p \<in> set probes. s_name row = p_name p \<and> s_shard row = p_shard_id p \<and>
       row_of_replica (answers_all (io (p_name p)) queries lq k) (held (io (p_name p)))
         (shard_intended io queries lq k probes settled (p_shard_id p)) row)"
proof -
  let ?raw = "raw_of io queries lq k probes"
  have keys: "map fst ?raw = map p_name probes" by (simp add: raw_of_eq comp_def)
  have "finite settled" by (simp add: settled_def intended_set_def Let_def)
  moreover have "distinct (map fst ?raw)" "list_all (\<lambda>(n, r). finite (rr_local r)) ?raw"
    unfolding keys using dist rec_of_local_finite by (auto simp: raw_of_eq list_all_iff)
  ultimately obtain rows where
    r: "score_sweep np clk queries (lq \<noteq> None) k metric settled (view w (snapshot_corpus w)) ?raw = Inr rows"
    "mset (map s_name rows) = mset (map p_name probes)"
    "\<forall>row \<in> set rows. \<exists>r. (s_name row, r) \<in> set ?raw \<and> s_shard row = p_shard_id (rr_probe r) \<and>
       row_of_replica (rr_reachable r) (rr_local r) (sweep_intended ?raw settled (p_shard_id (rr_probe r))) row"
    using score_sweep_total [OF assms(1) _ assms(3), of ?raw settled clk "lq \<noteq> None"] unfolding keys by blast
  have "\<exists>p \<in> set probes. s_name row = p_name p \<and> s_shard row = p_shard_id p \<and>
       row_of_replica (answers_all (io (p_name p)) queries lq k) (held (io (p_name p)))
         (shard_intended io queries lq k probes settled (p_shard_id p)) row" if "row \<in> set rows" for row
  proof -
    from r(3) that obtain r where x: "(s_name row, r) \<in> set ?raw" "s_shard row = p_shard_id (rr_probe r)"
      "row_of_replica (rr_reachable r) (rr_local r) (sweep_intended ?raw settled (p_shard_id (rr_probe r))) row" by blast
    from x(1) obtain p where p: "p \<in> set probes" "s_name row = p_name p" "r = rec_of io queries lq k p"
      by (auto simp: raw_of_eq)
    with x(2,3) show ?thesis by (intro bexI [OF _ p(1)]) (simp add: rec_of_answers sweep_intended_raw_of)
  qed
  with r(1,2) show ?thesis
    unfolding sample_once_def Let_def raw_foldl [OF dist, unfolded Let_def] settled_def by blast
qed

text \<open>
  C4. A sweep is complete and honest: on a well-posed measurement \<^verbatim>\<open>sample_once\<close> never raises and
  emits exactly one row per probed replica. A row is marked reachable exactly when every call to
  the replica succeeded; an unreachable replica contributes no metric at all. For a reachable
  one every recall cell is empty or in \<open>[0, 1]\<close>, and completeness is the fraction it holds of the
  settled ids that some reachable replica of its own shard holds, empty only if there are none.
\<close>

theorem sample_once_complete:
  assumes "numpy_api np" and "distinct (map p_name probes)"
    and "well_posed (view w (snapshot_corpus w)) queries k metric"
  shows "\<exists>rows. sample_once np clk io probes w queries k now settle_s metric lq = Inr rows \<and>
    mset (map s_name rows) = mset (map p_name probes) \<and>
    (\<forall>row \<in> set rows. \<exists>p \<in> set probes. s_name row = p_name p \<and> s_shard row = p_shard_id p \<and>
       row_of_replica (answers_all (io (p_name p)) queries lq k) (held (io (p_name p)))
         (shard_intended io queries lq k probes (intended_set now settle_s w) (p_shard_id p)) row)"
  using assms by (rule sample_once_rows)

text \<open>Two replicas of one shard; the second has missed the only settled write, a third is down.\<close>

definition demo_io :: "ident \<Rightarrow> replica_io" where
  "demo_io n =
     (if n = ''shard-0-2'' then \<lparr>io_list = Rpc_raises, io_search = (\<lambda>_ _. Rpc_raises), io_loo = (\<lambda>_ _. Rpc_raises)\<rparr>
      else if n = ''shard-0-1'' then \<lparr>io_list = Rpc_returns True [], io_search = (\<lambda>_ _. Rpc_returns True []), io_loo = (\<lambda>_ _. Rpc_raises)\<rparr>
      else \<lparr>io_list = Rpc_returns True [''rr-0''], io_search = (\<lambda>_ _. Rpc_returns True [''rr-0'']), io_loo = (\<lambda>_ _. Rpc_raises)\<rparr>)"

lemma demo_view_well_posed: "well_posed (view idle_writer (snapshot_corpus idle_writer)) [[1]] 1 ''l2''"
  by (simp add: well_posed_def view_def snapshot_corpus_def idle_writer_def corpus_ok_def matmul_ok_def)

theorem sample_once_complete_witness:
  "\<exists>rows. sample_once numpy_ref \<lparr>sc_t = 0, sc_probe_s = 0, sc_score_s = (\<lambda>_. 0)\<rparr> demo_io
     (build_probes 1 3 (\<lambda>s r. r) ''h'' 2) idle_writer [[1]] 1 10 2 ''l2'' None = Inr rows \<and>
   mset (map s_name rows) = mset (map p_name (build_probes 1 3 (\<lambda>s r. r) ''h'' 2))"
  using sample_once_complete [OF npr.numpy_api_axioms build_probes_distinct demo_view_well_posed] by blast

section \<open>A whole run of the sampler\<close>

text \<open>What every round needs of the writer: a well-posed snapshot and, for held-out queries, a pool.\<close>

definition sampler_ready :: "vec list \<Rightarrow> nat \<Rightarrow> string \<Rightarrow> nat option \<Rightarrow> writer \<Rightarrow> bool" where
  "sampler_ready queries k metric lqn w \<longleftrightarrow>
     well_posed (view w (snapshot_corpus w)) queries k metric \<and>
     (case lqn of None \<Rightarrow> True
      | Some n \<Rightarrow> loo_query_mode w = ''nonpinned'' \<and>
          (case w_source w of
             Sift b p ord \<Rightarrow> (case loo_pool_idx w of None \<Rightarrow> False | Some idx \<Rightarrow> n \<le> length idx)
           | _ \<Rightarrow> True))"

lemma make_loo_queries_ready:
  assumes "sampler_ready queries k metric (Some n) w"
  obtains lq w' where "make_loo_queries ch ds n w = Inr (lq, w')"
    "view w' (snapshot_corpus w') = view w (snapshot_corpus w)" "sampler_ready queries k metric (Some n) w'"
proof -
  let ?seen = "\<lambda>s. w\<lparr>loo_draw_count := loo_draw_count w + 1, loo_seen_idx := s\<rparr>"
  have same: "view (?seen s) (snapshot_corpus (?seen s)) = view w (snapshot_corpus w)"
      "sampler_ready queries k metric (Some n) (?seen s)" for s
    using assms by (auto simp: view_def snapshot_corpus_def sampler_ready_def split: source.splits)
  have "\<exists>lq s. make_loo_queries ch ds n w = Inr (lq, ?seen s)"
  proof (cases "w_source w")
    case (Sift b p ord)
    then obtain idx where "loo_pool_idx w = Some idx" "n \<le> length idx"
      using assms by (auto simp: sampler_ready_def split: option.splits)
    with Sift assms show ?thesis
      by (auto simp: make_loo_queries_def sampler_ready_def Let_def)
  next
    case Uniform
    then have "make_loo_queries ch ds n w =
        Inr (map (\<lambda>d. uniform_vec (d_random d)) (take n ds), ?seen (loo_seen_idx w))"
      using assms by (simp add: make_loo_queries_def sampler_ready_def)
    then show ?thesis by blast
  next
    case (Lowdim m intr nse)
    then have "make_loo_queries ch ds n w =
        Inr (map (\<lambda>d. lowdim_vec m intr nse (w_dim w) (d_normal d) (d_noise d)) (take n ds), ?seen (loo_seen_idx w))"
      using assms by (simp add: make_loo_queries_def sampler_ready_def)
    then show ?thesis by blast
  qed
  with same that show ?thesis by metis
qed

lemma sample_once_names:
  assumes "numpy_api np" and "distinct (map p_name probes)"
    and "well_posed (view w (snapshot_corpus w)) queries k metric"
  shows "\<exists>rows. sample_once np clk io probes w queries k now settle_s metric lq = Inr rows \<and>
    mset (map s_name rows) = mset (map p_name probes)"
  using sample_once_rows [OF assms] by blast

lemma sample_round_total:
  assumes np: "numpy_api np" and dist: "distinct (map p_name probes)" and ready: "sampler_ready queries k metric lqn w"
  shows "\<exists>rows w'. sample_round np probes queries k settle_s metric lqn rd w = (Inr rows, w') \<and>
    mset (map s_name rows) = mset (map p_name probes) \<and> sampler_ready queries k metric lqn w'"
proof (cases lqn)
  case None
  then show ?thesis
    using sample_once_names [OF np dist] ready by (fastforce simp: sample_round_def sampler_ready_def)
next
  case (Some n)
  with ready obtain lq w' where q: "make_loo_queries (rd_choice rd) (rd_draws rd) n w = Inr (lq, w')"
    "view w' (snapshot_corpus w') = view w (snapshot_corpus w)" "sampler_ready queries k metric (Some n) w'"
    using make_loo_queries_ready by metis
  have "well_posed (view w' (snapshot_corpus w')) queries k metric" using q(3) by (simp add: sampler_ready_def)
  from sample_once_names [OF np dist this] q Some show ?thesis
    by (fastforce simp: sample_round_def)
qed



end
