(* ===== verification/Qdrant_Probe.thy ===== *)
theory Qdrant_Probe
  imports Probe Qdrant_Topology
begin

text \<open>
  The direct client of one Qdrant replica, \<^verbatim>\<open>research/cross_system_replication/qdrant_probe.py\<close>. The
  internal gRPC service is a parameter: a function from requests to answers, where \<open>None\<close> is a
  call that raises. The locale \<open>scroll_api\<close> states what Qdrant documents of the Scroll call.
\<close>

section \<open>Point ids\<close>

datatype point_id = Num nat | Uuid string

fun point_id_to_ext :: "point_id \<Rightarrow> ident" where
  "point_id_to_ext (Uuid u) = u"
| "point_id_to_ext (Num n) = dec n"

text \<open>\<^verbatim>\<open>str.isdigit\<close> is false of the empty string.\<close>

definition isdigit :: "string \<Rightarrow> bool" where
  "isdigit s \<longleftrightarrow> s \<noteq> [] \<and> list_all is_digit s"

definition ext_to_point_id :: "ident \<Rightarrow> point_id" where
  "ext_to_point_id ext_id = (if isdigit ext_id then Num (undec ext_id) else Uuid ext_id)"

section \<open>The probe\<close>

record qprobe = probe +
  p_collection :: string

definition new_qprobe :: "ident \<Rightarrow> nat \<Rightarrow> nat \<Rightarrow> string \<Rightarrow> string \<Rightarrow> nat \<Rightarrow> real \<Rightarrow> qprobe" where
  "new_qprobe name shard replica coll host port timeout_s =
     \<lparr>p_name = name, p_shard_id = shard, p_replica_id = replica, p_addr = host @ '':'' @ dec port,
      p_timeout_s = timeout_s, p_connected = False, p_collection = coll\<rparr>"

definition q_stub_or_connect :: "qprobe \<Rightarrow> qprobe" where
  "q_stub_or_connect p = p\<lparr>p_connected := True\<rparr>"

definition q_reset :: "qprobe \<Rightarrow> qprobe" where
  "q_reset p = p\<lparr>p_connected := False\<rparr>"

record scroll_request =
  sr_collection :: string
  sr_limit :: nat
  sr_offset :: "point_id option"
  sr_shard_id :: nat

type_synonym scroll_server = "scroll_request \<Rightarrow> (point_id list \<times> point_id option) option"

fun scroll_pages :: "scroll_server \<Rightarrow> qprobe \<Rightarrow> nat \<Rightarrow> nat \<Rightarrow> point_id option \<Rightarrow> ident set \<Rightarrow> ident set option" where
  "scroll_pages srv p page_size 0 offset out = Some out"
| "scroll_pages srv p page_size (Suc pages) offset out =
     (case srv \<lparr>sr_collection = p_collection p, sr_limit = page_size, sr_offset = offset, sr_shard_id = p_shard_id p\<rparr> of
        None \<Rightarrow> None
      | Some (result, next_page_offset) \<Rightarrow>
          (let out' = out \<union> set (map point_id_to_ext result)
           in case next_page_offset of
                None \<Rightarrow> Some out'
              | Some off \<Rightarrow> scroll_pages srv p page_size pages (Some off) out'))"

definition q_list_local_ids :: "scroll_server \<Rightarrow> nat \<Rightarrow> nat \<Rightarrow> qprobe \<Rightarrow> (bool \<times> ident set) \<times> qprobe" where
  "q_list_local_ids srv page_size max_pages p =
     (case scroll_pages srv p page_size max_pages None {} of
        Some out \<Rightarrow> ((True, out), q_stub_or_connect p)
      | None \<Rightarrow> ((False, {}), q_reset p))"

record core_search =
  cs_collection :: string
  cs_query :: vec
  cs_limit :: nat
  cs_exact :: bool

type_synonym search_server = "string \<Rightarrow> core_search list \<Rightarrow> nat \<Rightarrow> point_id list list option"

definition q_search_batch :: "search_server \<Rightarrow> vec list \<Rightarrow> nat \<Rightarrow> bool \<Rightarrow> qprobe \<Rightarrow> (bool \<times> ident list list) \<times> qprobe" where
  "q_search_batch srv queries k exact p =
     (let search_points = map (\<lambda>q. \<lparr>cs_collection = p_collection p, cs_query = q, cs_limit = k, cs_exact = exact\<rparr>) queries
      in case srv (p_collection p) search_points (p_shard_id p) of
           Some result \<Rightarrow> ((True, map (map point_id_to_ext) result), q_stub_or_connect p)
         | None \<Rightarrow> ((False, []), q_reset p))"

definition q_close :: "qprobe \<Rightarrow> qprobe" where
  "q_close p = q_reset p"

definition q_build_probes :: "nat \<Rightarrow> nat \<Rightarrow> string \<Rightarrow> (nat \<Rightarrow> nat \<Rightarrow> nat) \<Rightarrow> string \<Rightarrow> real \<Rightarrow> qprobe list" where
  "q_build_probes num_shards replicas_per_shard coll port_fn host timeout_s =
     [new_qprobe (''shard-'' @ dec s @ ''-'' @ dec r) s r coll host (port_fn s r) timeout_s.
        s \<leftarrow> [0..<num_shards], r \<leftarrow> [0..<replicas_per_shard]]"

section \<open>Ids survive the round trip\<close>

lemma isdigit_dec: "isdigit (dec n)"
proof (induction n rule: dec.induct)
  case (1 n)
  have "is_digit (digit d)" if "d < 10" for d
    using that by (simp add: is_digit_def digit_def)
  with 1 show ?case by (cases "n < 10") (simp_all add: dec.simps [of n] isdigit_def)
qed

lemma point_id_roundtrip: "ext_to_point_id (point_id_to_ext (Num n)) = Num n"
  by (simp add: ext_to_point_id_def isdigit_dec)

lemma ext_id_roundtrip: "\<not> isdigit s \<or> s = dec n \<Longrightarrow> point_id_to_ext (ext_to_point_id s) = s"
  by (auto simp: ext_to_point_id_def isdigit_dec)

section \<open>The listing is complete\<close>

text \<open>
  Scroll returns the points of the shard in a fixed order, at most \<open>limit\<close> of them from the offset on,
  and names the next point as \<^verbatim>\<open>next_page_offset\<close> unless there is none.
\<close>

locale scroll_api =
  fixes srv :: scroll_server and held_by :: "string \<Rightarrow> nat \<Rightarrow> point_id list"
  assumes scroll_first: "srv \<lparr>sr_collection = c, sr_limit = l, sr_offset = None, sr_shard_id = s\<rparr> =
      Some (take l (held_by c s), if l < length (held_by c s) then Some (held_by c s ! l) else None)"
    and scroll_next: "i < length (held_by c s) \<Longrightarrow>
      srv \<lparr>sr_collection = c, sr_limit = l, sr_offset = Some (held_by c s ! i), sr_shard_id = s\<rparr> =
      Some (take l (drop i (held_by c s)), if i + l < length (held_by c s) then Some (held_by c s ! (i + l)) else None)"
begin

lemma pages_from:
  assumes "i < length (held_by (p_collection p) (p_shard_id p))" "0 < l"
  shows "scroll_pages srv p l m (Some (held_by (p_collection p) (p_shard_id p) ! i)) out =
    Some (out \<union> point_id_to_ext ` set (take (l * m) (drop i (held_by (p_collection p) (p_shard_id p)))))"
  using assms(1)
proof (induction m arbitrary: i out)
  case (Suc m)
  let ?ids = "held_by (p_collection p) (p_shard_id p)"
  have split: "take (l * Suc m) (drop i ?ids) = take l (drop i ?ids) @ take (l * m) (drop (i + l) ?ids)"
    by (simp add: take_add add.commute)
  show ?case
  proof (cases "i + l < length ?ids")
    case True
    then show ?thesis
      unfolding split using scroll_next [OF Suc.prems, of l] Suc.IH [OF True] by (simp add: image_Un Un_assoc)
  next
    case False
    then show ?thesis
      unfolding split using scroll_next [OF Suc.prems, of l] by simp
  qed
qed simp

lemma pages_all:
  assumes "0 < l" "0 < m"
  shows "scroll_pages srv p l m None {} =
    Some (point_id_to_ext ` set (take (l * m) (held_by (p_collection p) (p_shard_id p))))"
proof -
  let ?ids = "held_by (p_collection p) (p_shard_id p)"
  obtain m' where m: "m = Suc m'" using assms(2) by (cases m) auto
  have split: "take (l * Suc m') ?ids = take l ?ids @ take (l * m') (drop l ?ids)"
    by (simp add: take_add)
  show ?thesis
  proof (cases "l < length ?ids")
    case True
    then show ?thesis
      unfolding m split using pages_from [OF True assms(1), of m'] by (simp add: scroll_first image_Un)
  next
    case False
    then show ?thesis unfolding m split by (simp add: scroll_first)
  qed
qed

lemma listing:
  assumes "0 < l" "0 < m"
  shows "fst (q_list_local_ids srv l m p) =
    (True, point_id_to_ext ` set (take (l * m) (held_by (p_collection p) (p_shard_id p))))"
  by (simp add: q_list_local_ids_def pages_all [OF assms])

end

text \<open>A server that holds the ids given to it.\<close>

definition scroll_ref :: "(string \<Rightarrow> nat \<Rightarrow> point_id list) \<Rightarrow> scroll_server" where
  "scroll_ref held_by r =
     (let ids = held_by (sr_collection r) (sr_shard_id r);
          i = (case sr_offset r of None \<Rightarrow> 0 | Some off \<Rightarrow> length (takeWhile (\<lambda>x. x \<noteq> off) ids))
      in Some (take (sr_limit r) (drop i ids), if i + sr_limit r < length ids then Some (ids ! (i + sr_limit r)) else None))"

lemma takeWhile_until_nth: "distinct xs \<Longrightarrow> i < length xs \<Longrightarrow> length (takeWhile (\<lambda>x. x \<noteq> xs ! i) xs) = i"
proof (induction xs arbitrary: i)
  case (Cons x xs)
  then show ?case by (cases i) auto
qed simp

definition demo_held :: "string \<Rightarrow> nat \<Rightarrow> point_id list" where
  "demo_held c s = map (\<lambda>i. Num (100000000 + i)) [0..<3]"

interpretation demo_scroll: scroll_api "scroll_ref demo_held" demo_held
proof
  fix c s l i
  show "scroll_ref demo_held \<lparr>sr_collection = c, sr_limit = l, sr_offset = None, sr_shard_id = s\<rparr> =
      Some (take l (demo_held c s), if l < length (demo_held c s) then Some (demo_held c s ! l) else None)"
    by (simp add: scroll_ref_def Let_def)
  have d: "distinct (demo_held c s)" by (simp add: demo_held_def distinct_map inj_on_def)
  assume "i < length (demo_held c s)"
  from takeWhile_until_nth [OF d this]
  show "scroll_ref demo_held \<lparr>sr_collection = c, sr_limit = l, sr_offset = Some (demo_held c s ! i), sr_shard_id = s\<rparr> =
      Some (take l (drop i (demo_held c s)),
        if i + l < length (demo_held c s) then Some (demo_held c s ! (i + l)) else None)"
    by (simp add: scroll_ref_def Let_def)
qed

text \<open>
  C39. Listing a replica page by page returns exactly the ids it holds, whatever the page size, as long
  as they fit into the allowed number of pages. Beyond that the listing is cut off and still
  reported as successful.
\<close>

theorem q_listing_complete:
  fixes p :: qprobe
  assumes "scroll_api srv held_by" and "0 < page_size" and "0 < max_pages"
  defines "ids \<equiv> held_by (p_collection p) (p_shard_id p)"
  defines "answer \<equiv> fst (q_list_local_ids srv page_size max_pages p)"
  shows "fst answer \<and> snd answer = point_id_to_ext ` set (take (page_size * max_pages) ids) \<and>
    (length ids \<le> page_size * max_pages \<longrightarrow> snd answer = point_id_to_ext ` set ids)"
  using scroll_api.listing [OF assms(1-3), of p] by (simp add: ids_def answer_def)

theorem q_listing_complete_witness:
  "snd (fst (q_list_local_ids (scroll_ref demo_held) 2 2 (new_qprobe ''shard-0-0'' 0 0 COLLECTION ''127.0.0.1'' 16370 2))) =
     {dec 100000000, dec 100000001, dec 100000002}"
proof -
  have "length (demo_held COLLECTION 0) \<le> 2 * 2" by (simp add: demo_held_def)
  with q_listing_complete [OF demo_scroll.scroll_api_axioms, of 2 2
      "new_qprobe ''shard-0-0'' 0 0 COLLECTION ''127.0.0.1'' 16370 2"]
  show ?thesis by (simp add: new_qprobe_def demo_held_def upt_rec)
qed

lemma q_build_probes_names:
  "map p_name (q_build_probes m n c f h t) = map p_name (build_probes m n f h t)"
  by (simp add: q_build_probes_def build_probes_def new_qprobe_def new_probe_def map_concat comp_def)

lemma q_build_probes_distinct: "distinct (map p_name (q_build_probes m n c f h t))"
  by (simp add: q_build_probes_names build_probes_distinct)

end
