(* ===== verification/Qdrant_Writer.thy ===== *)
theory Qdrant_Writer
  imports Writer
begin

text \<open>
  The batched writer of \<^verbatim>\<open>research/cross_system_replication/qdrant_run_experiment.py\<close>. It keeps the same
  state as the writer of theory \<open>Writer\<close>, grows its corpus by the same code, and adds a batch size
  and a pause flag. Ids are minted and confirmed in batches. The held-out query fields of the
  shared state are unused here.
\<close>

section \<open>State\<close>

record qwriter =
  qw_core :: writer
  qw_batch_size :: nat
  qw_paused :: bool

definition qwriter_init ::
  "nat \<Rightarrow> string \<Rightarrow> nat \<Rightarrow> real \<Rightarrow> vec list \<Rightarrow> (vec list \<times> vec list) res \<Rightarrow> nat list \<Rightarrow> nat \<Rightarrow> qwriter res" where
  "qwriter_init dm dst intrinsic_dim nse proj_draw loaded perm batch_size =
     bindE (writer_init dm dst intrinsic_dim nse proj_draw loaded perm ''pinned'' 0)
       (\<lambda>w. Inr \<lparr>qw_core = w, qw_batch_size = batch_size, qw_paused = False\<rparr>)"

section \<open>Minting a batch\<close>

definition q_vid :: "nat \<Rightarrow> ident" where
  "q_vid i = dec (100000000 + i)"

text \<open>
  \<^verbatim>\<open>_make_batch\<close> takes the lock twice: \<open>reserve\<close> is the first section, setting \<^verbatim>\<open>exhausted\<close> the second.
\<close>

definition reserve :: "nat \<Rightarrow> writer \<Rightarrow> nat \<times> int \<times> writer" where
  "reserve n w =
     (let start = next_id w;
          n' = (case w_source w of Sift b q ord \<Rightarrow> min (int n) (int (length ord) - int start) | _ \<Rightarrow> int n)
      in (start, n', w\<lparr>next_id := start + nat (max n' 0)\<rparr>))"

definition batch_vec :: "writer \<Rightarrow> draw \<Rightarrow> nat \<Rightarrow> vec" where
  "batch_vec w d i =
     (case w_source w of
        Sift b q ord \<Rightarrow> b ! (ord ! i)
      | Uniform \<Rightarrow> uniform_vec (d_random d)
      | Lowdim m intr nse \<Rightarrow> lowdim_vec m intr nse (w_dim w) (d_normal d) (d_noise d))"

definition make_batch :: "(nat \<Rightarrow> draw) \<Rightarrow> nat \<Rightarrow> writer \<Rightarrow> (ident \<times> vec) list \<times> writer" where
  "make_batch ds n w =
     (let (start, n', w1) = reserve n w
      in if n' \<le> 0 then ([], w1)
         else (map (\<lambda>i. (q_vid i, batch_vec w (ds i) i)) [start..<start + nat n'], w1))"

definition finite_pool :: "writer \<Rightarrow> bool" where
  "finite_pool w \<longleftrightarrow> (case w_source w of Sift b q ord \<Rightarrow> True | _ \<Rightarrow> False)"

section \<open>The write loop\<close>

text \<open>\<^verbatim>\<open>_append_corpus\<close> is the code of the other writer; a confirmed batch is appended under one lock.\<close>

definition q_append_corpus :: "(nat \<Rightarrow> vec) \<Rightarrow> ident \<Rightarrow> vec \<Rightarrow> writer \<Rightarrow> writer" where
  "q_append_corpus junk vid v w = append_corpus junk vid v w"

fun confirm_batch :: "real \<Rightarrow> (ident \<Rightarrow> nat \<Rightarrow> vec) \<Rightarrow> (ident \<times> vec) list \<Rightarrow> writer \<Rightarrow> writer" where
  "confirm_batch t junk [] w = w"
| "confirm_batch t junk ((vid, v) # batch) w =
     confirm_batch t junk batch (q_append_corpus (junk vid) vid v
       (w\<lparr>vector_of := dict_set vid v (vector_of w), confirmed_at := dict_set vid t (confirmed_at w)\<rparr>))"

text \<open>
  The program counter of a thread: at the top of the loop, past the pause check, with an empty
  batch of a finite pool, with a batch before and after the attempt is counted, or returned.
\<close>

datatype qpc = QTop | QGo | QDrained | QMade "(ident \<times> vec) list" | QPosted "(ident \<times> vec) list" | QDone

datatype qevent =
    QStop
  | QCheck
  | QMint "nat \<Rightarrow> draw"
  | QAttempt
  | QAnswer int real "ident \<Rightarrow> nat \<Rightarrow> vec"
  | QRaised

fun q_thread_step :: "qevent \<Rightarrow> qpc \<Rightarrow> qwriter \<Rightarrow> (qpc \<times> qwriter) option" where
  "q_thread_step QStop QTop w = Some (QDone, w)"
| "q_thread_step QCheck QTop w = (if qw_paused w then None else Some (QGo, w))"
| "q_thread_step (QMint ds) QGo w =
     (let (batch, c) = make_batch ds (qw_batch_size w) (qw_core w)
      in if batch = [] then Some (if finite_pool (qw_core w) then QDrained else QDone, w\<lparr>qw_core := c\<rparr>)
         else Some (QMade batch, w\<lparr>qw_core := c\<rparr>))"
| "q_thread_step QAttempt QDrained w = Some (QDone, w\<lparr>qw_core := (qw_core w)\<lparr>exhausted := True\<rparr>\<rparr>)"
| "q_thread_step QAttempt (QMade batch) w =
     Some (QPosted batch, w\<lparr>qw_core := (qw_core w)\<lparr>attempted := attempted (qw_core w) + length batch\<rparr>\<rparr>)"
| "q_thread_step (QAnswer status t junk) (QPosted batch) w =
     (if status = 200 then Some (QTop, w\<lparr>qw_core := confirm_batch t junk batch (qw_core w)\<rparr>)
      else Some (QTop, w\<lparr>qw_core := (qw_core w)\<lparr>failed := failed (qw_core w) + length batch\<rparr>\<rparr>))"
| "q_thread_step QRaised (QPosted batch) w =
     Some (QTop, w\<lparr>qw_core := (qw_core w)\<lparr>failed := failed (qw_core w) + length batch\<rparr>\<rparr>)"
| "q_thread_step _ _ w = None"

type_synonym qconfig = "qpc list \<times> qwriter"

inductive qwork :: "qconfig \<Rightarrow> qconfig \<Rightarrow> bool" where
  thread: "q_thread_step e pc w = Some (pc', w') \<Longrightarrow> qwork (xs @ pc # ys, w) (xs @ pc' # ys, w')"

inductive_cases qworkE: "qwork (ts, w) (ts', w')"

text \<open>The main thread sets and clears the pause flag at any time.\<close>

inductive qstep :: "qconfig \<Rightarrow> qconfig \<Rightarrow> bool" where
  work: "qwork c c' \<Longrightarrow> qstep c c'"
| pause: "qstep (ts, w) (ts, w\<lparr>qw_paused := b\<rparr>)"

inductive_cases qstepE: "qstep (ts, w) (ts', w')"

section \<open>Queries and snapshots\<close>

definition q_make_queries :: "(nat list \<Rightarrow> nat \<Rightarrow> nat list) \<Rightarrow> draw list \<Rightarrow> nat \<Rightarrow> qwriter \<Rightarrow> vec list res" where
  "q_make_queries ch ds n w =
     (case w_source (qw_core w) of
        Sift b pool ord \<Rightarrow>
          if length pool < n then Inl (ValueError ''exceeds the SIFT query vectors'')
          else Inr (map ((!) pool) (sort (ch [0..<length pool] n)))
      | Uniform \<Rightarrow> Inr (map (\<lambda>d. uniform_vec (d_random d)) (take n ds))
      | Lowdim m intr nse \<Rightarrow>
          Inr (map (\<lambda>d. lowdim_vec m intr nse (w_dim (qw_core w)) (d_normal d) (d_noise d)) (take n ds)))"

definition q_intended_set :: "real \<Rightarrow> real \<Rightarrow> qwriter \<Rightarrow> ident set" where
  "q_intended_set now settle_s w =
     (let cutoff = now - settle_s in set (map fst (filter (\<lambda>(i, t). t \<le> cutoff) (confirmed_at (qw_core w)))))"

definition q_snapshot_corpus :: "qwriter \<Rightarrow> snapshot" where
  "q_snapshot_corpus w = snapshot_corpus (qw_core w)"

section \<open>Invariant\<close>

fun q_in_flight :: "qpc \<Rightarrow> (ident \<times> vec) list" where
  "q_in_flight (QMade batch) = batch"
| "q_in_flight (QPosted batch) = batch"
| "q_in_flight _ = []"

fun q_posted :: "qpc \<Rightarrow> nat" where
  "q_posted (QPosted batch) = length batch"
| "q_posted _ = 0"

definition q_minted :: "qpc list \<Rightarrow> qwriter \<Rightarrow> ident list" where
  "q_minted ts w = corpus_ids (qw_core w) @ concat (map (map fst \<circ> q_in_flight) ts)"

definition q_inv :: "qpc list \<Rightarrow> qwriter \<Rightarrow> bool" where
  "q_inv ts w \<longleftrightarrow>
     corpus_inv (qw_core w) \<and> distinct (q_minted ts w) \<and> set (q_minted ts w) \<subseteq> q_vid ` {..<next_id (qw_core w)} \<and>
     attempted (qw_core w) = corpus_n (qw_core w) + failed (qw_core w) + sum_list (map q_posted ts) \<and>
     list_all (\<lambda>pc. length (q_in_flight pc) \<le> qw_batch_size w) ts"

lemma q_vid_inj [simp]: "q_vid i = q_vid j \<longleftrightarrow> i = j"
  by (simp add: q_vid_def)

lemma confirm_batch_confirm:
  "confirm_batch t junk ((vid, v) # batch) w = confirm_batch t junk batch (confirm t (junk vid) vid v w)"
  by (simp add: q_append_corpus_def confirm_eq)

lemma confirm_sel [simp]:
  "corpus_ids (confirm t junk vid v w) = corpus_ids w @ [vid]" "corpus_n (confirm t junk vid v w) = corpus_n w + 1"
  "next_id (confirm t junk vid v w) = next_id w" "attempted (confirm t junk vid v w) = attempted w"
  "failed (confirm t junk vid v w) = failed w"
  by (simp_all add: confirm_def)

lemma confirm_batch_sel [simp]:
  "corpus_ids (confirm_batch t junk batch w) = corpus_ids w @ map fst batch"
  "corpus_n (confirm_batch t junk batch w) = corpus_n w + length batch"
  "next_id (confirm_batch t junk batch w) = next_id w"
  "attempted (confirm_batch t junk batch w) = attempted w"
  "failed (confirm_batch t junk batch w) = failed w"
proof -
  have "corpus_ids (confirm_batch t junk batch w) = corpus_ids w @ map fst batch \<and>
      corpus_n (confirm_batch t junk batch w) = corpus_n w + length batch \<and>
      next_id (confirm_batch t junk batch w) = next_id w \<and> attempted (confirm_batch t junk batch w) = attempted w \<and>
      failed (confirm_batch t junk batch w) = failed w"
    by (induction batch arbitrary: w) (auto simp: confirm_batch_confirm simp del: confirm_batch.simps(2))
  then show "corpus_ids (confirm_batch t junk batch w) = corpus_ids w @ map fst batch"
    "corpus_n (confirm_batch t junk batch w) = corpus_n w + length batch"
    "next_id (confirm_batch t junk batch w) = next_id w"
    "attempted (confirm_batch t junk batch w) = attempted w"
    "failed (confirm_batch t junk batch w) = failed w" by auto
qed

text \<open>What a single confirmation keeps, a confirmed batch keeps.\<close>

lemma confirm_batch_inv:
  assumes "corpus_inv w" and "distinct (corpus_ids w @ map fst batch)"
  shows "corpus_inv (confirm_batch t junk batch w)"
  using assms
proof (induction batch arbitrary: w)
  case (Cons x batch)
  obtain vid v where x: "x = (vid, v)" by (cases x)
  have "corpus_inv (confirm t (junk vid) vid v w)"
    using Cons.prems by (intro confirm_inv) (auto simp: x)
  with Cons show ?case by (simp add: x confirm_batch_confirm del: confirm_batch.simps(2))
qed simp

lemma confirm_batch_snap_shows:
  assumes "snap_shows s is m w" and "distinct (corpus_ids w @ map fst batch)"
  shows "snap_shows s is m (confirm_batch t junk batch w)"
  using assms
proof (induction batch arbitrary: w)
  case (Cons x batch)
  obtain vid v where x: "x = (vid, v)" by (cases x)
  have "snap_shows s is m (confirm t (junk vid) vid v w)"
    using Cons.prems by (intro confirm_snap_shows) (auto simp: x)
  with Cons show ?case by (simp add: x confirm_batch_confirm del: confirm_batch.simps(2))
qed simp

lemma make_batch_cases:
  obtains m batch where "make_batch ds n w = (batch, w\<lparr>next_id := next_id w + m\<rparr>)" "m \<le> n"
    "map fst batch = map q_vid [next_id w..<next_id w + m]"
proof -
  obtain n' where r: "reserve n w = (next_id w, n', w\<lparr>next_id := next_id w + nat (max n' 0)\<rparr>)" "n' \<le> int n"
    by (auto simp: reserve_def Let_def split: source.splits)
  show thesis
    using r by (intro that [of "fst (make_batch ds n w)" "nat (max n' 0)"])
      (auto simp: make_batch_def comp_def)
qed

lemma q_step_cases:
  assumes "q_thread_step e pc w = Some (pc', w')"
  obtains (idle) "q_in_flight pc = []" "q_in_flight pc' = []" "q_posted pc = 0" "q_posted pc' = 0" "w' = w" "pc' \<noteq> QGo \<or> \<not> qw_paused w"
  | (drained) "pc = QDrained" "pc' = QDone" "w' = w\<lparr>qw_core := (qw_core w)\<lparr>exhausted := True\<rparr>\<rparr>"
  | (mint) m batch where "pc = QGo" "q_in_flight pc' = batch" "q_posted pc' = 0" "pc' \<noteq> QGo" "m \<le> qw_batch_size w"
      "map fst batch = map q_vid [next_id (qw_core w)..<next_id (qw_core w) + m]"
      "w' = w\<lparr>qw_core := (qw_core w)\<lparr>next_id := next_id (qw_core w) + m\<rparr>\<rparr>"
  | (post) batch where "pc = QMade batch" "pc' = QPosted batch"
      "w' = w\<lparr>qw_core := (qw_core w)\<lparr>attempted := attempted (qw_core w) + length batch\<rparr>\<rparr>"
  | (ok) batch t junk where "pc = QPosted batch" "pc' = QTop" "w' = w\<lparr>qw_core := confirm_batch t junk batch (qw_core w)\<rparr>"
  | (lost) batch where "pc = QPosted batch" "pc' = QTop"
      "w' = w\<lparr>qw_core := (qw_core w)\<lparr>failed := failed (qw_core w) + length batch\<rparr>\<rparr>"
proof (cases "\<exists>ds. e = QMint ds \<and> pc = QGo")
  case True
  then obtain ds where e: "e = QMint ds" "pc = QGo" by blast
  obtain m batch where b: "make_batch ds (qw_batch_size w) (qw_core w) =
      (batch, (qw_core w)\<lparr>next_id := next_id (qw_core w) + m\<rparr>)" "m \<le> qw_batch_size w"
    "map fst batch = map q_vid [next_id (qw_core w)..<next_id (qw_core w) + m]"
    using make_batch_cases [of ds "qw_batch_size w" "qw_core w"] by metis
  show thesis using assms b by (intro mint [of batch m]) (auto simp: e split: if_splits)
next
  case False
  then show thesis
    using assms
    by (cases "(e, pc, w)" rule: q_thread_step.cases)
       (auto split: if_splits intro: idle drained post ok lost)
qed

lemma q_step_inv:
  assumes st: "q_thread_step e pc w = Some (pc', w')" and inv: "q_inv (xs @ pc # ys) w"
  shows "q_inv (xs @ pc' # ys) w'"
  using st
proof (cases rule: q_step_cases)
  case (mint m batch)
  let ?a = "next_id (qw_core w)" and ?ids = "map fst \<circ> q_in_flight"
  define A where "A = corpus_ids (qw_core w) @ concat (map ?ids xs)"
  define B where "B = concat (map ?ids ys)"
  define N where "N = map q_vid [?a..<?a + m]"
  have N: "distinct N" "set N \<subseteq> q_vid ` {..<?a + m}" "set N \<inter> q_vid ` {..<?a} = {}"
    by (auto simp: N_def distinct_map inj_on_def)
  have before: "q_minted (xs @ pc # ys) w = A @ B" by (simp add: q_minted_def A_def B_def mint(1))
  have after: "q_minted (xs @ pc' # ys) w' = A @ N @ B" by (simp add: q_minted_def A_def B_def N_def mint(2,6,7))
  have AB: "distinct (A @ B)" "set (A @ B) \<subseteq> q_vid ` {..<?a}" using inv by (simp_all add: q_inv_def before)
  have "length batch = m" using arg_cong [OF mint(6), of length] by simp
  then have "list_all (\<lambda>pc. length (q_in_flight pc) \<le> qw_batch_size w') (xs @ pc' # ys)"
    using inv mint(2,5) by (simp add: q_inv_def mint(7))
  moreover have "distinct (A @ N @ B)" using AB N by auto
  moreover have "set (A @ N @ B) \<subseteq> q_vid ` {..<?a + m}" using AB N(2) by fastforce
  ultimately show ?thesis
    using inv mint(1,3) unfolding q_inv_def after by (simp add: mint(7) corpus_inv_def)
next
  case (ok batch t junk)
  have d: "distinct (corpus_ids (qw_core w) @ map fst batch)" using inv ok(1) by (auto simp: q_inv_def q_minted_def)
  have "corpus_inv (confirm_batch t junk batch (qw_core w))"
    using inv by (intro confirm_batch_inv [OF _ d]) (simp add: q_inv_def)
  moreover have perm: "mset (q_minted (xs @ pc' # ys) w') = mset (q_minted (xs @ pc # ys) w)"
    by (simp add: q_minted_def ok)
  moreover have "distinct (q_minted (xs @ pc' # ys) w')" "set (q_minted (xs @ pc' # ys) w') = set (q_minted (xs @ pc # ys) w)"
    using inv mset_eq_imp_distinct_iff [OF perm] mset_eq_setD [OF perm] by (simp_all add: q_inv_def)
  ultimately show ?thesis using inv by (simp add: q_inv_def ok)
next
  case (lost batch)
  define A where "A = corpus_ids (qw_core w) @ concat (map (map fst \<circ> q_in_flight) xs)"
  define B where "B = concat (map (map fst \<circ> q_in_flight) ys)"
  have "q_minted (xs @ pc # ys) w = A @ map fst batch @ B" "q_minted (xs @ pc' # ys) w' = A @ B"
    by (simp_all add: q_minted_def A_def B_def lost)
  with inv have "distinct (q_minted (xs @ pc' # ys) w')" "set (q_minted (xs @ pc' # ys) w') \<subseteq> q_vid ` {..<next_id (qw_core w)}"
    by (auto simp: q_inv_def)
  then show ?thesis using inv by (simp add: q_inv_def lost corpus_inv_def)
qed (use inv in \<open>auto simp: q_inv_def q_minted_def corpus_inv_def\<close>)

lemma q_work_inv: "qwork (ts, w) (ts', w') \<Longrightarrow> q_inv ts w \<Longrightarrow> q_inv ts' w'"
  by (erule qworkE) (simp add: q_step_inv)

lemma q_inv_paused [simp]: "q_inv ts (w\<lparr>qw_paused := b\<rparr>) = q_inv ts w"
  by (simp add: q_inv_def q_minted_def)

lemma q_one_step_inv: "qstep (ts, w) (ts', w') \<Longrightarrow> q_inv ts w \<Longrightarrow> q_inv ts' w'"
  by (erule qstepE) (auto dest: q_work_inv)

lemma q_steps_inv: "qstep\<^sup>*\<^sup>* (ts, w) (ts', w') \<Longrightarrow> q_inv ts w \<Longrightarrow> q_inv ts' w'"
  by (induction rule: rtranclp_induct2) (auto dest: q_one_step_inv)

lemma qwriter_init_inv:
  "qwriter_init dm dst intr nse pr ld perm bs = Inr w \<Longrightarrow> q_inv (replicate n QTop) w"
  by (auto simp: qwriter_init_def writer_init_def Let_def err_simps q_inv_def q_minted_def corpus_inv_def list_all_iff
      sum_list_replicate split: if_splits)

section \<open>What the sampler can rely on\<close>

lemma q_step_snap_shows:
  assumes st: "q_thread_step e pc w = Some (pc', w')" and inv: "q_inv (xs @ pc # ys) w"
    and s: "snap_shows s is m (qw_core w)"
  shows "snap_shows s is m (qw_core w')"
  using st
proof (cases rule: q_step_cases)
  case (ok batch t junk)
  have "distinct (corpus_ids (qw_core w) @ map fst batch)" using inv ok(1) by (auto simp: q_inv_def q_minted_def)
  then show ?thesis unfolding ok(3) by (simp add: confirm_batch_snap_shows [OF s])
qed (use s in \<open>auto simp: snap_shows_def corpus_inv_def\<close>)

lemma q_steps_snap_shows:
  assumes "qstep\<^sup>*\<^sup>* (ts, w) (ts', w')" and "q_inv ts w" and "snap_shows s is m (qw_core w)"
  shows "snap_shows s is m (qw_core w')"
  using assms
proof (induction rule: rtranclp_induct2)
  case (step ts1 w1 ts2 w2)
  have "q_inv ts1 w1" using q_steps_inv [OF step.hyps(1) step.prems(1)] .
  with step show ?case by (auto elim!: qstepE qworkE intro: q_step_snap_shows)
qed

lemma q_snapshot_same_prefix:
  assumes run: "qstep\<^sup>*\<^sup>* (ts, w) (ts', w')" and inv: "q_inv ts w"
  shows "same_prefix (view (qw_core w') (q_snapshot_corpus w)) (view (qw_core w) (q_snapshot_corpus w))"
proof -
  have "corpus_inv (qw_core w)" using inv by (simp add: q_inv_def)
  note now = snapshot_shows [OF this]
  note later = q_steps_snap_shows [OF run inv now]
  show ?thesis
    using view_corpus_ok [OF now] view_corpus_ok [OF later] now later
    by (simp add: same_prefix_def view_def snap_shows_def q_snapshot_corpus_def)
qed

text \<open>
  C37. Batching changes nothing the sampler relies on. In every interleaving of batched writers, and
  however often they are paused: no id is confirmed twice and every attempted vector is
  confirmed, failed or still posted; every settled id has its corpus row; and a snapshot taken
  at any moment scores every replica later exactly as it would have then.
\<close>

theorem batched_writer_sound:
  assumes "qwriter_init dm dst intr nse pr ld perm bs = Inr w0"
    and "qstep\<^sup>*\<^sup>* (replicate threads QTop, w0) (ts, w)" and "qstep\<^sup>*\<^sup>* (ts, w) (ts', w')"
    and "finite local_ids" and "finite intended_ids"
  shows "distinct (map fst (confirmed_at (qw_core w))) \<and>
    attempted (qw_core w) = length (confirmed_at (qw_core w)) + failed (qw_core w) + sum_list (map q_posted ts) \<and>
    q_intended_set now settle_s w \<subseteq> set (take (snap_n (q_snapshot_corpus w)) (corpus_ids (qw_core w))) \<and>
    score_replica np queries observed local_ids intended_ids (view (qw_core w') (q_snapshot_corpus w)) k metric None =
    score_replica np queries observed local_ids intended_ids (view (qw_core w) (q_snapshot_corpus w)) k metric None"
proof -
  have inv: "q_inv ts w" using q_steps_inv [OF assms(2) qwriter_init_inv [OF assms(1)]] .
  then have c: "map fst (confirmed_at (qw_core w)) = corpus_ids (qw_core w)" "length (corpus_ids (qw_core w)) = corpus_n (qw_core w)"
    "distinct (corpus_ids (qw_core w))"
    by (simp_all add: q_inv_def corpus_inv_def)
  have "length (confirmed_at (qw_core w)) = corpus_n (qw_core w)" using c(1,2) by (metis length_map)
  moreover have "q_intended_set now settle_s w \<subseteq> set (corpus_ids (qw_core w))"
    unfolding c(1) [symmetric] by (auto simp: q_intended_set_def Let_def)
  moreover note score_replica_same_prefix [OF q_snapshot_same_prefix [OF assms(3) inv] assms(4,5)]
  ultimately show ?thesis using inv c by (simp add: q_inv_def q_snapshot_corpus_def snapshot_corpus_def)
qed

text \<open>One thread that writes one batch of two vectors.\<close>

definition batch_demo :: qwriter where
  "batch_demo = (case qwriter_init 1 ''uniform'' 12 0 [] (Inl IndexError) [] 2 of Inr w \<Rightarrow> w)"

definition demo_draw :: "nat \<Rightarrow> draw" where
  "demo_draw i = \<lparr>d_random = [1], d_normal = [], d_noise = []\<rparr>"

lemma batch_demo_init: "qwriter_init 1 ''uniform'' 12 0 [] (Inl IndexError) [] 2 = Inr batch_demo"
  by (simp add: batch_demo_def qwriter_init_def writer_init_def Let_def err_simps)

lemma one_thread_step: "q_thread_step e pc w = Some (pc', w') \<Longrightarrow> qstep ([pc], w) ([pc'], w')"
  using qwork.thread [of e pc w pc' w' "[]" "[]"] by (auto intro: qstep.work)

lemma batch_demo_run: "\<exists>w. qstep\<^sup>*\<^sup>* (replicate 1 QTop, batch_demo) ([QTop], w) \<and> corpus_n (qw_core w) = 2"
proof -
  have src: "w_source (qw_core batch_demo) = Uniform" "qw_batch_size batch_demo = 2" "\<not> qw_paused batch_demo"
    "next_id (qw_core batch_demo) = 0" "corpus_n (qw_core batch_demo) = 0"
    by (simp_all add: batch_demo_def qwriter_init_def writer_init_def Let_def err_simps)
  define batch where "batch = [(q_vid 0, [1 :: real]), (q_vid (Suc 0), [1])]"
  define w1 where "w1 = batch_demo\<lparr>qw_core := (qw_core batch_demo)\<lparr>next_id := 2\<rparr>\<rparr>"
  define w2 where "w2 = w1\<lparr>qw_core := (qw_core w1)\<lparr>attempted := attempted (qw_core w1) + length batch\<rparr>\<rparr>"
  define w3 where "w3 = w2\<lparr>qw_core := confirm_batch 1 (\<lambda>_ _. []) batch (qw_core w2)\<rparr>"
  have "qstep ([QTop], batch_demo) ([QGo], batch_demo)"
    by (rule one_thread_step [where e = QCheck]) (simp add: src)
  moreover have "qstep ([QGo], batch_demo) ([QMade batch], w1)"
    by (rule one_thread_step [where e = "QMint demo_draw"])
       (simp add: make_batch_def reserve_def src Let_def batch_vec_def uniform_vec_def demo_draw_def batch_def w1_def)
  moreover have "qstep ([QMade batch], w1) ([QPosted batch], w2)"
    by (rule one_thread_step [where e = QAttempt]) (simp add: w2_def)
  moreover have "qstep ([QPosted batch], w2) ([QTop], w3)"
    by (rule one_thread_step [where e = "QAnswer 200 1 (\<lambda>_ _. [])"]) (simp add: w3_def)
  ultimately have "qstep\<^sup>*\<^sup>* (replicate 1 QTop, batch_demo) ([QTop], w3)"
    by (auto intro: rtranclp.rtrancl_into_rtrancl)
  moreover have "corpus_n (qw_core w3) = 2"
    by (simp add: w3_def w2_def w1_def src batch_def del: confirm_batch.simps)
  ultimately show ?thesis by blast
qed

theorem batched_writer_sound_witness:
  "\<exists>ts w. qstep\<^sup>*\<^sup>* (replicate 1 QTop, batch_demo) (ts, w) \<and> length (confirmed_at (qw_core w)) = 2 \<and>
     distinct (map fst (confirmed_at (qw_core w)))"
proof -
  from batch_demo_run obtain w where run: "qstep\<^sup>*\<^sup>* (replicate 1 QTop, batch_demo) ([QTop], w)" "corpus_n (qw_core w) = 2"
    by blast
  have "q_inv [QTop] w" using q_steps_inv [OF run(1) qwriter_init_inv [OF batch_demo_init]] .
  then have "length (confirmed_at (qw_core w)) = 2" using run(2) by (metis corpus_inv_def length_map q_inv_def)
  with batched_writer_sound [OF batch_demo_init run(1) rtranclp.rtrancl_refl finite.emptyI finite.emptyI] run(1)
  show ?thesis by blast
qed

section \<open>Pausing\<close>

text \<open>The vectors a thread may still confirm after the pause flag is set.\<close>

fun q_pending :: "nat \<Rightarrow> qpc \<Rightarrow> nat" where
  "q_pending bs QGo = bs"
| "q_pending bs (QMade batch) = length batch"
| "q_pending bs (QPosted batch) = length batch"
| "q_pending bs _ = 0"

lemma q_pending_step:
  assumes "q_thread_step e pc w = Some (pc', w')" and "qw_paused w"
  shows "\<exists>new. corpus_ids (qw_core w') = corpus_ids (qw_core w) @ new \<and>
    length new + q_pending (qw_batch_size w) pc' \<le> q_pending (qw_batch_size w) pc \<and>
    qw_paused w' \<and> qw_batch_size w' = qw_batch_size w"
  using assms(1)
proof (cases rule: q_step_cases)
  case idle
  then show ?thesis using assms(2) by (cases pc') auto
next
  case (mint m batch)
  have "length batch = m" using arg_cong [OF mint(6), of length] by simp
  then show ?thesis using mint(1-5,7) assms(2) by (cases pc') auto
qed (use assms(2) in auto)

lemma q_pending_run:
  assumes "qwork\<^sup>*\<^sup>* (ts, w) (ts', w')" and "qw_paused w"
  shows "\<exists>new. corpus_ids (qw_core w') = corpus_ids (qw_core w) @ new \<and>
    length new + sum_list (map (q_pending (qw_batch_size w)) ts') \<le> sum_list (map (q_pending (qw_batch_size w)) ts) \<and>
    qw_paused w' \<and> qw_batch_size w' = qw_batch_size w"
  using assms
proof (induction rule: rtranclp_induct2)
  case (step ts1 w1 ts2 w2)
  then obtain new where new: "corpus_ids (qw_core w1) = corpus_ids (qw_core w) @ new" "qw_paused w1" "qw_batch_size w1 = qw_batch_size w"
    "length new + sum_list (map (q_pending (qw_batch_size w)) ts1) \<le> sum_list (map (q_pending (qw_batch_size w)) ts)" by blast
  from step.hyps(2) obtain e xs pc ys pc' where t: "ts1 = xs @ pc # ys" "ts2 = xs @ pc' # ys"
    "q_thread_step e pc w1 = Some (pc', w2)" by (auto elim: qworkE)
  from q_pending_step [OF t(3) new(2)] obtain more where "corpus_ids (qw_core w2) = corpus_ids (qw_core w1) @ more"
    "length more + q_pending (qw_batch_size w) pc' \<le> q_pending (qw_batch_size w) pc" "qw_paused w2" "qw_batch_size w2 = qw_batch_size w"
    using new(3) by auto
  with new t show ?case by (intro exI [of _ "new @ more"]) auto
qed simp

lemma q_pending_bound: "q_inv ts w \<Longrightarrow> sum_list (map (q_pending (qw_batch_size w)) ts) \<le> length ts * qw_batch_size w"
proof -
  assume "q_inv ts w"
  then have "q_pending (qw_batch_size w) pc \<le> qw_batch_size w" if "pc \<in> set ts" for pc
    using that by (cases pc) (auto simp: q_inv_def list_all_iff)
  then have "sum_list (map (q_pending (qw_batch_size w)) ts) \<le> sum_list (map (\<lambda>_. qw_batch_size w) ts)" by (intro sum_list_mono)
  then show ?thesis by (simp add: sum_list_triv)
qed

text \<open>
  C38. Pausing the writers fixes the corpus up to one batch per thread: from the moment the flag is set
  and as long as it stays set, the corpus only grows at its end, and by no more than what the
  threads had already passed the check for. Once every thread is back at the top of its loop
  nothing is added any more.
\<close>

theorem pause_bounds_corpus:
  assumes "qwriter_init dm dst intr nse pr ld perm bs = Inr w0"
    and "qstep\<^sup>*\<^sup>* (replicate threads QTop, w0) (ts, w)"
    and "qwork\<^sup>*\<^sup>* (ts, w\<lparr>qw_paused := True\<rparr>) (ts', w')"
  shows "\<exists>added. corpus_ids (qw_core w') = corpus_ids (qw_core w) @ added \<and>
    length added \<le> length ts * qw_batch_size w \<and>
    (list_all (\<lambda>pc. pc = QTop \<or> pc = QDone) ts \<longrightarrow> added = [])"
proof -
  have inv: "q_inv ts w" using q_steps_inv [OF assms(2) qwriter_init_inv [OF assms(1)]] .
  have idle: "sum_list (map (q_pending (qw_batch_size w)) ts) = 0" if "list_all (\<lambda>pc. pc = QTop \<or> pc = QDone) ts"
    using that by (induction ts) auto
  from q_pending_run [OF assms(3)] obtain added where "corpus_ids (qw_core w') = corpus_ids (qw_core w) @ added"
    "length added \<le> sum_list (map (q_pending (qw_batch_size w)) ts)" by auto
  with q_pending_bound [OF inv] idle show ?thesis by (intro exI [of _ added]) (auto simp del: sum_list_eq_0_iff)
qed

theorem pause_bounds_corpus_witness:
  "\<exists>added. corpus_ids (qw_core (batch_demo\<lparr>qw_paused := True\<rparr>)) = corpus_ids (qw_core batch_demo) @ added \<and>
     length added \<le> length [QTop] * qw_batch_size batch_demo \<and>
     (list_all (\<lambda>pc. pc = QTop \<or> pc = QDone) [QTop] \<longrightarrow> added = [])"
  using pause_bounds_corpus [OF batch_demo_init, of 1 "[QTop]" batch_demo "[QTop]" "batch_demo\<lparr>qw_paused := True\<rparr>"]
  by simp

end
