(* ===== verification/Qdrant_Sampling.thy ===== *)
theory Qdrant_Sampling
  imports Sampler Qdrant_Probe Qdrant_Writer Index_Gate
begin

text \<open>
  The measuring threads of \<^verbatim>\<open>research/cross_system_replication/qdrant_run_experiment.py\<close>: one sweep over
  all Qdrant replicas, the sampling loop and the telemetry loop. Scoring is the code of the other
  sampler (\<open>score_sweep\<close> of theory \<open>Sampler\<close>); only the probing differs. What the replicas answer
  and the clock are inputs.
\<close>

section \<open>One sweep\<close>

record qreplica_io =
  qi_scroll :: scroll_server
  qi_search :: search_server

definition q_probe_one :: "qreplica_io \<Rightarrow> vec list \<Rightarrow> nat \<Rightarrow> bool \<Rightarrow> qprobe \<Rightarrow> ident \<times> raw_rec" where
  "q_probe_one io queries k_fetch exact p =
     (let ((ok_ids, local), p1) = q_list_local_ids (qi_scroll io) 10000 10000 p;
          ((ok_search, obs), p2) =
            (if ok_ids then q_search_batch (qi_search io) queries k_fetch exact p1 else ((False, []), p1))
      in (p_name p, \<lparr>rr_probe = probe.truncate p2, rr_reachable = (ok_ids \<and> ok_search), rr_local = local,
                     rr_obs = obs, rr_loo_obs = None\<rparr>))"

definition q_sample_once ::
  "numpy \<Rightarrow> sweep_clock \<Rightarrow> (ident \<Rightarrow> qreplica_io) \<Rightarrow> qprobe list \<Rightarrow> qwriter \<Rightarrow> vec list \<Rightarrow> nat \<Rightarrow> real \<Rightarrow> real \<Rightarrow>
   string \<Rightarrow> bool \<Rightarrow> sample_row list res" where
  "q_sample_once np clk io probes w queries k now settle_s metric exact =
     (let intended_all = q_intended_set now settle_s w;
          c = view (qw_core w) (q_snapshot_corpus w);
          k_fetch = k * 3;
          raw = foldl (\<lambda>d p. (let (name, rec) = q_probe_one (io (p_name p)) queries k_fetch exact p
                               in dict_set name rec d)) [] probes
      in score_sweep np clk queries False k metric intended_all c raw)"

section \<open>The loops\<close>

record qround =
  qrd_env :: "qwriter \<Rightarrow> qwriter"
  qrd_clock :: sweep_clock
  qrd_io :: "ident \<Rightarrow> qreplica_io"
  qrd_now :: real

fun q_sampler_loop ::
  "numpy \<Rightarrow> qprobe list \<Rightarrow> vec list \<Rightarrow> nat \<Rightarrow> real \<Rightarrow> string \<Rightarrow> qround list \<Rightarrow> qwriter \<Rightarrow>
   sample_row list \<times> pyerr list \<Rightarrow> qwriter \<times> sample_row list \<times> pyerr list" where
  "q_sampler_loop np probes queries k settle_s metric [] w out = (w, out)"
| "q_sampler_loop np probes queries k settle_s metric (rd # rounds) w (rows_out, errors_out) =
     (let w' = qrd_env rd w
      in case q_sample_once np (qrd_clock rd) (qrd_io rd) probes w' queries k (qrd_now rd) settle_s metric False of
           Inr rows \<Rightarrow> q_sampler_loop np probes queries k settle_s metric rounds w' (rows_out @ rows, errors_out)
         | Inl e \<Rightarrow> q_sampler_loop np probes queries k settle_s metric rounds w' (rows_out, errors_out @ [e]))"

record tele_row =
  te_t :: real
  te_node :: nat
  te_info :: collection_info

text \<open>One round asks every node for its view of the collection; a request that raises is recorded.\<close>

fun telemetry_round ::
  "real \<Rightarrow> (nat \<Rightarrow> (int \<times> collection_info) res) \<Rightarrow> nat list \<Rightarrow> tele_row list \<times> pyerr list \<Rightarrow> tele_row list \<times> pyerr list" where
  "telemetry_round t answers [] out = out"
| "telemetry_round t answers (n # ns) (rows_out, errors_out) =
     telemetry_round t answers ns
       (case answers n of
          Inl e \<Rightarrow> (rows_out, errors_out @ [e])
        | Inr (status, res) \<Rightarrow>
            if status = 200 then (rows_out @ [\<lparr>te_t = t, te_node = n, te_info = res\<rparr>], errors_out)
            else (rows_out, errors_out))"

fun telemetry_loop ::
  "(real \<times> (nat \<Rightarrow> (int \<times> collection_info) res)) list \<Rightarrow> nat list \<Rightarrow> tele_row list \<times> pyerr list \<Rightarrow> tele_row list \<times> pyerr list" where
  "telemetry_loop [] node_ids out = out"
| "telemetry_loop ((t, answers) # rounds) node_ids out = telemetry_loop rounds node_ids (telemetry_round t answers node_ids out)"

section \<open>A sweep is complete\<close>

text \<open>What a sweep sees of one replica: whether both calls succeed, and the ids of its listing.\<close>

definition q_answers :: "qreplica_io \<Rightarrow> vec list \<Rightarrow> nat \<Rightarrow> bool \<Rightarrow> qprobe \<Rightarrow> bool" where
  "q_answers io queries k exact p \<longleftrightarrow>
     fst (fst (q_list_local_ids (qi_scroll io) 10000 10000 p)) \<and>
     qi_search io (p_collection p)
       (map (\<lambda>q. \<lparr>cs_collection = p_collection p, cs_query = q, cs_limit = k * 3, cs_exact = exact\<rparr>) queries) (p_shard_id p) \<noteq> None"

definition q_held :: "qreplica_io \<Rightarrow> qprobe \<Rightarrow> ident set" where
  "q_held io p = snd (fst (q_list_local_ids (qi_scroll io) 10000 10000 p))"

lemma q_identity [simp]:
  "p_shard_id (snd (q_list_local_ids srv a b p)) = p_shard_id p"
  "p_collection (snd (q_list_local_ids srv a b p)) = p_collection p"
  "p_shard_id (snd (q_search_batch srv' qs k ex p)) = p_shard_id p"
  by (simp_all add: q_list_local_ids_def q_search_batch_def Let_def q_stub_or_connect_def q_reset_def split: option.splits)

lemma truncate_shard [simp]: "p_shard_id (probe.truncate p) = p_shard_id p"
  by (simp add: probe.truncate_def)

lemma q_search_batch_ok:
  "fst (fst (q_search_batch srv queries k ex p)) \<longleftrightarrow>
     srv (p_collection p) (map (\<lambda>q. \<lparr>cs_collection = p_collection p, cs_query = q, cs_limit = k, cs_exact = ex\<rparr>) queries) (p_shard_id p) \<noteq> None"
  by (auto simp: q_search_batch_def Let_def split: option.splits)

lemma q_probe_one_facts:
  "fst (q_probe_one io queries (k * 3) ex p) = p_name p"
  "rr_reachable (snd (q_probe_one io queries (k * 3) ex p)) \<longleftrightarrow> q_answers io queries k ex p"
  "rr_local (snd (q_probe_one io queries (k * 3) ex p)) = q_held io p"
  "p_shard_id (rr_probe (snd (q_probe_one io queries (k * 3) ex p))) = p_shard_id p"
  by (auto simp: q_probe_one_def Let_def case_prod_unfold q_answers_def q_held_def q_search_batch_ok)

lemma scroll_pages_finite: "scroll_pages srv p l m off out = Some ids \<Longrightarrow> finite out \<Longrightarrow> finite ids"
  by (induction srv p l m off out rule: scroll_pages.induct) (auto simp: Let_def split: option.splits)

lemma q_held_finite: "finite (q_held io p)"
  using scroll_pages_finite by (auto simp: q_held_def q_list_local_ids_def split: option.splits)

lemma foldl_raw_distinct:
  assumes "distinct (map p_name ps)" and "\<And>p. fst (f p) = p_name p"
  shows "foldl (\<lambda>d p. (let (name, rec) = f p in dict_set name rec d)) [] ps = map f ps"
  using assms(1)
proof (induction ps rule: rev_induct)
  case (snoc p ps)
  have "p_name p \<notin> set (map fst (map f ps))" using snoc.prems assms(2) by (auto simp: comp_def)
  from dict_set_fresh [OF this, of "snd (f p)"] snoc show ?case
    by (simp add: case_prod_unfold assms(2) [symmetric])
qed simp

definition q_shard_intended ::
  "(ident \<Rightarrow> qreplica_io) \<Rightarrow> vec list \<Rightarrow> nat \<Rightarrow> bool \<Rightarrow> qprobe list \<Rightarrow> ident set \<Rightarrow> nat \<Rightarrow> ident set" where
  "q_shard_intended io queries k ex probes settled shard =
     {i \<in> settled. \<exists>p \<in> set probes. p_shard_id p = shard \<and> q_answers (io (p_name p)) queries k ex p \<and> i \<in> q_held (io (p_name p)) p}"

lemma q_sample_once_rows:
  fixes now settle_s :: real
  assumes "numpy_api np" and dist: "distinct (map p_name probes)"
    and "well_posed (view (qw_core w) (q_snapshot_corpus w)) queries k metric"
  defines "settled \<equiv> q_intended_set now settle_s w"
  shows "\<exists>rows. q_sample_once np clk io probes w queries k now settle_s metric exact = Inr rows \<and>
    mset (map s_name rows) = mset (map p_name probes) \<and>
    (\<forall>row \<in> set rows. \<exists>p \<in> set probes. s_name row = p_name p \<and> s_shard row = p_shard_id p \<and>
       row_of_replica (q_answers (io (p_name p)) queries k exact p) (q_held (io (p_name p)) p)
         (q_shard_intended io queries k exact probes settled (p_shard_id p)) row)"
proof -
  define f where "f p = q_probe_one (io (p_name p)) queries (k * 3) exact p" for p
  have f: "fst (f p) = p_name p" "rr_reachable (snd (f p)) \<longleftrightarrow> q_answers (io (p_name p)) queries k exact p"
    "rr_local (snd (f p)) = q_held (io (p_name p)) p" "p_shard_id (rr_probe (snd (f p))) = p_shard_id p" for p
    by (simp_all add: f_def q_probe_one_facts)
  have keys: "map fst (map f probes) = map p_name probes" by (simp add: f(1))
  have I: "sweep_intended (map f probes) settled s = q_shard_intended io queries k exact probes settled s" for s
    by (auto simp: sweep_intended_def q_shard_intended_def f image_image)
  have "finite settled" by (simp add: settled_def q_intended_set_def Let_def)
  moreover have "list_all (\<lambda>(n, r). finite (rr_local r)) (map f probes)"
    by (auto simp: list_all_iff case_prod_unfold f q_held_finite)
  ultimately obtain rows where
    r: "score_sweep np clk queries False k metric settled (view (qw_core w) (q_snapshot_corpus w)) (map f probes) = Inr rows"
    "mset (map s_name rows) = mset (map p_name probes)"
    "\<forall>row \<in> set rows. \<exists>r. (s_name row, r) \<in> set (map f probes) \<and> s_shard row = p_shard_id (rr_probe r) \<and>
       row_of_replica (rr_reachable r) (rr_local r) (sweep_intended (map f probes) settled (p_shard_id (rr_probe r))) row"
    using score_sweep_total [OF assms(1) _ assms(3), of "map f probes" settled clk False] dist unfolding keys by blast
  have "\<exists>p \<in> set probes. s_name row = p_name p \<and> s_shard row = p_shard_id p \<and>
       row_of_replica (q_answers (io (p_name p)) queries k exact p) (q_held (io (p_name p)) p)
         (q_shard_intended io queries k exact probes settled (p_shard_id p)) row" if "row \<in> set rows" for row
  proof -
    from r(3) that obtain r where x: "(s_name row, r) \<in> set (map f probes)" "s_shard row = p_shard_id (rr_probe r)"
      "row_of_replica (rr_reachable r) (rr_local r) (sweep_intended (map f probes) settled (p_shard_id (rr_probe r))) row" by blast
    from x(1) obtain p where p: "p \<in> set probes" "(s_name row, r) = f p" by auto
    then have "s_name row = p_name p" "r = snd (f p)" using f(1) [of p] by (simp_all add: prod_eq_iff)
    with x(2,3) show ?thesis by (intro bexI [OF _ p(1)]) (simp add: f I)
  qed
  with r(1,2) show ?thesis
    unfolding q_sample_once_def Let_def settled_def
    using foldl_raw_distinct [OF dist, of f, unfolded Let_def] f(1) by (auto simp: f_def)
qed

text \<open>
  A sweep over Qdrant replicas keeps the promises of the other sampler: it never raises on a
  well-posed measurement, emits one row per replica, and completeness is measured against the
  settled ids that reachable replicas of the same shard list.
\<close>

theorem q_sampler_total:
  assumes "numpy_api np" and "distinct (map p_name probes)"
    and "\<forall>rd \<in> set rounds. \<forall>w. well_posed (view (qw_core (qrd_env rd w)) (q_snapshot_corpus (qrd_env rd w))) queries k metric"
  shows "\<exists>w' rows'. q_sampler_loop np probes queries k settle_s metric rounds w (rows, errs) = (w', rows @ rows', errs) \<and>
    mset (map s_name rows') = mset (concat (replicate (length rounds) (map p_name probes)))"
  using assms(3)
proof (induction rounds arbitrary: w rows)
  case (Cons rd rounds)
  from q_sample_once_rows [OF assms(1,2), of "qrd_env rd w" queries k metric "qrd_clock rd" "qrd_io rd" "qrd_now rd" settle_s False]
  obtain new where new: "q_sample_once np (qrd_clock rd) (qrd_io rd) probes (qrd_env rd w) queries k (qrd_now rd) settle_s metric False = Inr new"
    "mset (map s_name new) = mset (map p_name probes)" using Cons.prems by auto
  from Cons.IH [of "qrd_env rd w" "rows @ new"] Cons.prems obtain w' rows' where
    "q_sampler_loop np probes queries k settle_s metric rounds (qrd_env rd w) (rows @ new, errs) = (w', (rows @ new) @ rows', errs)"
    "mset (map s_name rows') = mset (concat (replicate (length rounds) (map p_name probes)))" by auto
  with new show ?case by (intro exI [of _ w'] exI [of _ "new @ rows'"]) (simp add: Let_def)
qed simp

end
