(* ===== verification/Qdrant_Run.thy ===== *)
theory Qdrant_Run
  imports Qdrant_Sampling Kill_Check
begin

text \<open>
  A whole Qdrant run, \<^verbatim>\<open>main\<close> and \<^verbatim>\<open>_run_experiment_body\<close> of
  \<^verbatim>\<open>research/cross_system_replication/qdrant_run_experiment.py\<close>: checking the arguments, clearing the
  output directory, bring-up, warm-up, the index gate, the fault protocol and the files written
  at the end. Threads appear through the loops they run; the answers of docker and of the nodes,
  the clock and the state of the writer at each moment are inputs. \<^verbatim>\<open>KeyboardInterrupt\<close> is modelled
  where the code waits for it, in the long sleeps.
\<close>

section \<open>Arguments\<close>

record qargs =
  qa_duration :: int
  qa_writers :: nat
  qa_queries :: nat
  qa_k :: nat
  qa_sample_interval :: real
  qa_settle_s :: real
  qa_warmup_s :: real
  qa_metric :: string
  qa_dist :: string
  qa_sift_dir :: "string option"
  qa_sift_vectors :: nat
  qa_seed :: int
  qa_no_chaos :: bool
  qa_chaos_duration :: "int option"
  qa_kill_schedule :: "string option"
  qa_kill_count :: int
  qa_kill_target_node :: "string option"
  qa_pre_chaos_s :: real
  qa_batch_size :: nat
  qa_out_dir :: "string option"
  qa_capture_telemetry :: bool
  qa_index_gate :: bool
  qa_score_at_gate :: bool
  qa_index_gate_tol :: real
  qa_index_gate_consecutive :: int
  qa_index_gate_timeout :: real
  qa_warmup_until_written :: "nat option"
  qa_warmup_cap_s :: real
  qa_indexing_threshold_kb :: "int option"

text \<open>The defaults of the command line.\<close>

definition qargs_default :: qargs where
  "qargs_default = \<lparr>qa_duration = 180, qa_writers = 4, qa_queries = 100, qa_k = 10, qa_sample_interval = 5, qa_settle_s = 3,
     qa_warmup_s = 20, qa_metric = ''l2'', qa_dist = ''sift'', qa_sift_dir = None, qa_sift_vectors = 200000, qa_seed = 20260808,
     qa_no_chaos = False, qa_chaos_duration = None, qa_kill_schedule = None, qa_kill_count = 3, qa_kill_target_node = None,
     qa_pre_chaos_s = 30, qa_batch_size = 32, qa_out_dir = None, qa_capture_telemetry = False, qa_index_gate = False,
     qa_score_at_gate = False, qa_index_gate_tol = 0, qa_index_gate_consecutive = 3, qa_index_gate_timeout = 600,
     qa_warmup_until_written = None, qa_warmup_cap_s = 600, qa_indexing_threshold_kb = None\<rparr>"

definition q_validate :: "qargs \<Rightarrow> int option" where
  "q_validate args =
     (if qa_index_gate args \<and> qa_index_gate_consecutive args < 1 then Some 2
      else if qa_index_gate args \<and> \<not> (0 \<le> qa_index_gate_tol args \<and> qa_index_gate_tol args < 1) then Some 2
      else if qa_kill_schedule args \<noteq> None \<and> qa_no_chaos args then Some 2
      else if qa_chaos_duration args \<noteq> None \<and> qa_no_chaos args then Some 1
      else None)"

section \<open>Bring-up\<close>

record bring_up_env =
  be_down :: "unit res"
  be_compose :: "unit res"
  be_up :: "int res"
  be_ready :: "(nat \<Rightarrow> int option) list"
  be_peers :: "(nat \<Rightarrow> peers_answer) list"
  be_http :: "nat \<Rightarrow> string \<Rightarrow> collection_body \<Rightarrow> int res"
  be_shards :: "(nat \<Rightarrow> shards_answer) list"

definition bring_up_cluster :: "bring_up_env \<Rightarrow> nat list \<Rightarrow> int option \<Rightarrow> bool res" where
  "bring_up_cluster env node_ids indexing_threshold_kb =
     bindE (be_down env) (\<lambda>_. bindE (be_compose env) (\<lambda>_. bindE (be_up env) (\<lambda>returncode.
       if returncode \<noteq> 0 then Inr False
       else if \<not> wait_for_nodes_ready (be_ready env) (set node_ids) then Inr False
       else if \<not> wait_for_cluster_formed (be_peers env) node_ids then Inr False
       else bindE (create_collection (be_http env) 0 indexing_threshold_kb) (\<lambda>created.
         if \<not> created then Inr False
         else if \<not> wait_for_shards_active (be_shards env) node_ids then Inr False
         else Inr True))))"

section \<open>Warm-up\<close>

text \<open>Each poll sees the number of confirmed writes, whether the pool is exhausted, and whether the cap passed.\<close>

fun warmup_until :: "nat \<Rightarrow> (nat \<times> bool \<times> bool) list \<Rightarrow> nat stage" where
  "warmup_until target [] = Waiting"
| "warmup_until target ((n_conf, drained, over_cap) # polls) =
     (if target \<le> n_conf then Go n_conf
      else if drained then Exit 4
      else if over_cap then Exit 4
      else warmup_until target polls)"

definition warmup_stage :: "qargs \<Rightarrow> (nat \<times> bool \<times> bool) list \<Rightarrow> nat option stage" where
  "warmup_stage args polls =
     (case qa_warmup_until_written args of
        None \<Rightarrow> Go None
      | Some target \<Rightarrow> bindO (warmup_until target polls) (\<lambda>n. Go (Some n)))"

section \<open>The index gate\<close>

record sweep_env =
  sw_clock :: sweep_clock
  sw_io :: "ident \<Rightarrow> qreplica_io"
  sw_now :: real
  sw_writer :: qwriter

definition sweep_at :: "numpy \<Rightarrow> qargs \<Rightarrow> qprobe list \<Rightarrow> vec list \<Rightarrow> bool \<Rightarrow> sweep_env \<Rightarrow> sample_row list res" where
  "sweep_at np args probes queries exact e =
     q_sample_once np (sw_clock e) (sw_io e) probes (sw_writer e) queries (qa_k args) (sw_now e) (qa_settle_s args)
       (qa_metric args) exact"

text \<open>
  The recall columns are text, empty when there is no value: \<^verbatim>\<open>float("")\<close> raises. The code tests the
  cell for \<^verbatim>\<open>None\<close>, which it is only when the replica is missing from the reference rows.
\<close>

fun float_of_cell :: "real option \<Rightarrow> real res" where
  "float_of_cell None = Inl (ValueError ''could not convert string to float'')"
| "float_of_cell (Some x) = Inr x"

definition recall_delta :: "(ident, sample_row) dict \<Rightarrow> sample_row \<Rightarrow> (ident \<times> real option) res" where
  "recall_delta ref r =
     (case map_of ref (s_name r) of
        None \<Rightarrow> Inr (s_name r, None)
      | Some e \<Rightarrow> bindE (float_of_cell (s_index_recall r)) (\<lambda>a. bindE (float_of_cell (s_index_recall e)) (\<lambda>b.
          Inr (s_name r, Some (py_round 6 (a - b))))))"

definition rows_by_name :: "sample_row list \<Rightarrow> (ident, sample_row) dict" where
  "rows_by_name rows = foldl (\<lambda>d r. dict_set (s_name r) r d) [] rows"

definition recall_deltas :: "sample_row list \<Rightarrow> sample_row list \<Rightarrow> (ident, real option) dict res" where
  "recall_deltas after ref =
     bindE (traverseE (recall_delta (rows_by_name ref)) after) (\<lambda>kvs. Inr (foldl (\<lambda>d (k, v). dict_set k v d) [] kvs))"

record gate_info =
  gi_record :: gate_record
  gi_opened_rel :: real
  gi_closed_rel :: real

record gate_scores =
  gs_before :: "sample_row list"
  gs_after :: "sample_row list"
  gs_after_exact :: "sample_row list"
  gs_hnsw_minus_exact :: "(ident, real option) dict"
  gs_delta_index_recall :: "(ident, real option) dict"
  gs_gate :: gate_info

record gate_env =
  ge_before :: sweep_env
  ge_rounds :: "(poll_row list \<times> real) list"
  ge_opened :: real
  ge_closed :: real
  ge_after :: sweep_env
  ge_after_exact :: sweep_env

section \<open>Files\<close>

definition logged_t :: "logged \<Rightarrow> real" where
  "logged_t e = (case e of Random_kill k \<Rightarrow> qe_t k | Scheduled_kill k \<Rightarrow> ev_t k)"

definition logged_failed :: "logged \<Rightarrow> bool" where
  "logged_failed e = (case e of Random_kill k \<Rightarrow> qe_failed k | Scheduled_kill k \<Rightarrow> ev_failed k)"

text \<open>The metadata of a run; \<open>rm_args\<close> stands for the arguments it repeats.\<close>

record run_record =
  rm_args :: qargs
  rm_sift_vectors :: "nat option"
  rm_corpus_exhausted :: bool
  rm_chaos :: bool
  rm_pre_chaos_s :: "real option"
  rm_chaos_start_rel :: "real option"
  rm_chaos_stop_rel :: "real option"
  rm_quiesce :: bool
  rm_samples :: nat
  rm_chaos_events :: nat
  rm_kill_count :: nat
  rm_kill_failures :: nat
  rm_chaos_no_kills :: bool
  rm_chaos_requested_s :: "int option"
  rm_chaos_realized_s :: "real option"
  rm_confirmed_total :: nat
  rm_write_attempted :: nat
  rm_write_failed :: nat
  rm_sampler_errors :: "pyerr list"
  rm_raft_checks_run :: nat
  rm_raft_violations :: nat
  rm_telemetry_rows :: "nat option"
  rm_telemetry_errors :: "pyerr list option"
  rm_index_gate :: "gate_info option"
  rm_written_at_gate :: "nat option"

datatype qfile =
    Stale string
  | Samples "(real \<times> sample_row) list"
  | Events "(logged \<times> real) list"
  | Telemetry "(real \<times> tele_row) list"
  | Meta run_record
  | Gate_failed gate_info
  | Gate_scores gate_scores

type_synonym qdir = "(string, qfile) dict"

definition OUTPUT_FILES :: "string list" where
  "OUTPUT_FILES = [''samples.csv'', ''events.json'', ''run_meta.json'', ''telemetry.csv'']"

definition clear_outputs :: "qdir \<Rightarrow> qdir" where
  "clear_outputs files = foldl (\<lambda>d name. dict_del name d) files OUTPUT_FILES"

definition index_gate_stage ::
  "numpy \<Rightarrow> qargs \<Rightarrow> qprobe list \<Rightarrow> vec list \<Rightarrow> real \<Rightarrow> gate_env \<Rightarrow> qdir \<Rightarrow> gate_info option stage \<times> qdir" where
  "index_gate_stage np args probes queries t_start env files =
     (if \<not> qa_index_gate args then (Go None, files)
      else case (if qa_score_at_gate args
                 then bindE (sweep_at np args probes queries False (ge_before env)) (\<lambda>rows. Inr (Some rows)) else Inr None) of
        Inl e \<Rightarrow> (Crash e, files)
      | Inr before \<Rightarrow>
          (case wait_for_index_gate (qa_index_gate_tol args) (nat (qa_index_gate_consecutive args))
                  (qa_index_gate_timeout args) (ge_rounds env) of
             None \<Rightarrow> (Waiting, files)
           | Some (Inl e) \<Rightarrow> (Crash e, files)
           | Some (Inr g) \<Rightarrow>
               (let info = \<lparr>gi_record = g, gi_opened_rel = py_round 3 (ge_opened env - t_start - gr_elapsed_s g),
                            gi_closed_rel = py_round 3 (ge_closed env - t_start)\<rparr>
                in if \<not> gr_closed g then (Exit 3, dict_set ''index_gate_failed.json'' (Gate_failed info) files)
                   else case before of
                     None \<Rightarrow> (Go (Some info), files)
                   | Some b \<Rightarrow>
                       (case bindE (sweep_at np args probes queries False (ge_after env)) (\<lambda>after.
                             bindE (sweep_at np args probes queries True (ge_after_exact env)) (\<lambda>after_exact.
                             bindE (recall_deltas after after_exact) (\<lambda>hme.
                             bindE (recall_deltas after b) (\<lambda>delta.
                             Inr \<lparr>gs_before = b, gs_after = after, gs_after_exact = after_exact, gs_hnsw_minus_exact = hme,
                                  gs_delta_index_recall = delta, gs_gate = info\<rparr>)))) of
                          Inl e \<Rightarrow> (Crash e, files)
                        | Inr gs \<Rightarrow> (Go (Some info), dict_set ''gate_scores.json'' (Gate_scores gs) files)))))"

section \<open>The fault protocol\<close>

datatype chaos_plan = Random_chaos | Scheduled_chaos string "kill_step list"

definition chaos_thread :: "qargs \<Rightarrow> (string, container) dict \<Rightarrow> real \<Rightarrow> chaos_plan res" where
  "chaos_thread args containers window_s =
     (case qa_kill_schedule args of
        None \<Rightarrow> Inr Random_chaos
      | Some c \<Rightarrow>
          bindE (build_kill_schedule c (map fst containers) (qa_kill_count args) window_s (qa_kill_target_node args))
            (\<lambda>schedule. Inr (Scheduled_chaos c schedule)))"

record chaos_env =
  ce_rounds :: "qchaos_round list"
  ce_started :: real
  ce_steps :: "sched_env list"

fun chaos_events :: "(string, container) dict \<Rightarrow> chaos_env \<Rightarrow> chaos_plan \<Rightarrow> logged list" where
  "chaos_events cs env Random_chaos = map Random_kill (qdrant_chaos_loop cs (ce_rounds env) [])"
| "chaos_events cs env (Scheduled_chaos c schedule) =
     map Scheduled_kill (snd (chaos_loop_scheduled (ce_started env) c cs (zip schedule (ce_steps env)) [] []))"

fun revive :: "(string \<Rightarrow> docker_io) \<Rightarrow> string list \<Rightarrow> nat docker" where
  "revive io [] = Answers 0"
| "revive io (name # names) =
     bindD (container_alive (io_inspect (io name))) (\<lambda>alive.
       if alive then revive io names
       else bindD (container_start (io name)) (\<lambda>_. bindD (revive io names) (\<lambda>n. Answers (n + 1))))"

record protocol =
  pr_start_rel :: "real option"
  pr_stop_rel :: "real option"
  pr_events :: "logged list"

text \<open>\<open>pe_interrupt\<close> numbers the sleep that a keyboard interrupt ends; the run then goes on to its files.\<close>

record protocol_env =
  pe_interrupt :: "nat option"
  pe_chaos_start :: real
  pe_chaos_stop :: real
  pe_chaos :: chaos_env
  pe_revive :: "string \<Rightarrow> docker_io"

definition fault_protocol :: "qargs \<Rightarrow> (string, container) dict \<Rightarrow> real \<Rightarrow> protocol_env \<Rightarrow> protocol stage" where
  "fault_protocol args containers t_start env =
     (let start_rel = Some (pe_chaos_start env - t_start); stop_rel = Some (pe_chaos_stop env - t_start);
          quiet = \<lparr>pr_start_rel = None, pr_stop_rel = None, pr_events = []\<rparr>
      in if qa_no_chaos args then Go quiet
         else case qa_chaos_duration args of
           None \<Rightarrow>
             bindO (raised (chaos_thread args containers (real_of_int (qa_duration args)))) (\<lambda>plan.
               Go \<lparr>pr_start_rel = start_rel, pr_stop_rel = (if pe_interrupt env = Some 0 then None else stop_rel),
                   pr_events = chaos_events containers (pe_chaos env) plan\<rparr>)
         | Some chaos_s \<Rightarrow>
             if real_of_int (qa_duration args) - qa_pre_chaos_s args - real_of_int chaos_s \<le> 0 then Exit 1
             else if pe_interrupt env = Some 0 then Go quiet
             else bindO (raised (chaos_thread args containers (real_of_int chaos_s))) (\<lambda>plan.
               let events = chaos_events containers (pe_chaos env) plan
               in if pe_interrupt env = Some 1 then Go \<lparr>pr_start_rel = start_rel, pr_stop_rel = None, pr_events = events\<rparr>
                  else case revive (pe_revive env) (map fst containers) of
                    Raises _ \<Rightarrow> Crash (OSError ''docker'')
                  | Answers revived \<Rightarrow> Go \<lparr>pr_start_rel = start_rel, pr_stop_rel = stop_rel, pr_events = events\<rparr>))"

section \<open>The body of the run\<close>

record body_env =
  bo_t_start :: real
  bo_warmup :: "(nat \<times> bool \<times> bool) list"
  bo_gate :: gate_env
  bo_writer :: qwriter
  bo_rounds :: "qround list"
  bo_validator :: "(nat \<times> cluster_answer option) list list"
  bo_telemetry :: "(real \<times> (nat \<Rightarrow> (int \<times> collection_info) res)) list"
  bo_protocol :: protocol_env
  bo_final :: qwriter

definition run_meta_of ::
  "qargs \<Rightarrow> sample_row list \<Rightarrow> pyerr list \<Rightarrow> protocol \<Rightarrow> qvalidator \<Rightarrow> tele_row list \<times> pyerr list \<Rightarrow> qwriter \<Rightarrow>
   gate_info option \<Rightarrow> nat option \<Rightarrow> run_record" where
  "run_meta_of args rows errs pr v tele w gate written =
     (let ok = length (filter (\<lambda>e. \<not> logged_failed e) (pr_events pr)); core = qw_core w
      in \<lparr>rm_args = args, rm_sift_vectors = (if qa_dist args = ''sift'' then Some (qa_sift_vectors args) else None), rm_corpus_exhausted = exhausted core,
          rm_chaos = (\<not> qa_no_chaos args),
          rm_pre_chaos_s = (case qa_chaos_duration args of None \<Rightarrow> None | Some d \<Rightarrow> if d = 0 then None else Some (qa_pre_chaos_s args)),
          rm_chaos_start_rel = map_option (py_round 3) (pr_start_rel pr),
          rm_chaos_stop_rel = map_option (py_round 3) (pr_stop_rel pr),
          rm_quiesce = (qa_chaos_duration args \<noteq> None), rm_samples = length rows,
          rm_chaos_events = length (pr_events pr), rm_kill_count = ok,
          rm_kill_failures = length (filter logged_failed (pr_events pr)),
          rm_chaos_no_kills = (\<not> qa_no_chaos args \<and> \<not> list_ex (\<lambda>e. \<not> logged_failed e) (pr_events pr)),
          rm_chaos_requested_s = (if qa_no_chaos args then None
             else case qa_chaos_duration args of Some d \<Rightarrow> Some d | None \<Rightarrow> Some (qa_duration args)),
          rm_chaos_realized_s = (case (pr_start_rel pr, pr_stop_rel pr) of
             (Some a, Some b) \<Rightarrow> Some (py_round 3 (b - a)) | _ \<Rightarrow> None),
          rm_confirmed_total = length (vector_of core), rm_write_attempted = attempted core, rm_write_failed = failed core,
          rm_sampler_errors = take 20 errs, rm_raft_checks_run = qv_checks_run v, rm_raft_violations = length (qv_violations v),
          rm_telemetry_rows = (if qa_capture_telemetry args then Some (length (fst tele)) else None),
          rm_telemetry_errors = (if qa_capture_telemetry args then Some (take 20 (snd tele)) else None),
          rm_index_gate = gate, rm_written_at_gate = written\<rparr>)"

definition write_outputs ::
  "qargs \<Rightarrow> real \<Rightarrow> sample_row list \<Rightarrow> protocol \<Rightarrow> tele_row list \<Rightarrow> run_record \<Rightarrow> qdir \<Rightarrow> qdir" where
  "write_outputs args t_start rows pr tele meta files =
     (let f1 = dict_set ''samples.csv'' (Samples (map (\<lambda>r. (py_round 3 (s_t r - t_start), r)) rows)) files;
          f2 = dict_set ''events.json'' (Events (map (\<lambda>e. (e, py_round 3 (logged_t e - t_start))) (pr_events pr))) f1;
          f3 = (if qa_capture_telemetry args
                then dict_set ''telemetry.csv'' (Telemetry (map (\<lambda>r. (py_round 3 (te_t r - t_start), r)) tele)) f2 else f2)
      in dict_set ''run_meta.json'' (Meta meta) f3)"

definition run_experiment_body :: "numpy \<Rightarrow> qargs \<Rightarrow> body_env \<Rightarrow> vec list \<Rightarrow> nat list \<Rightarrow> qdir \<Rightarrow> unit stage \<times> qdir" where
  "run_experiment_body np args env queries node_ids files =
     (let containers = build_containers node_ids;
          probes = q_build_probes Q_NUM_SHARDS Q_REPLICAS_PER_SHARD COLLECTION probe_port_fn ''127.0.0.1'' 2
      in case warmup_stage args (bo_warmup env) of
           Go written \<Rightarrow>
             (case index_gate_stage np args probes queries (bo_t_start env) (bo_gate env) files of
                (Go gate, files1) \<Rightarrow>
                  (case fault_protocol args containers (bo_t_start env) (bo_protocol env) of
                     Go pr \<Rightarrow>
                       (let (w, rows, errs) = q_sampler_loop np probes queries (qa_k args) (qa_settle_s args) (qa_metric args)
                                                (bo_rounds env) (bo_writer env) ([], []);
                            v = foldl (\<lambda>v answers. qdrant_validator_round answers v)
                                  \<lparr>qv_violations = [], qv_checks_run = 0, qv_last_leader_term = []\<rparr> (bo_validator env);
                            tele = (if qa_capture_telemetry args then telemetry_loop (bo_telemetry env) node_ids ([], []) else ([], []));
                            meta = run_meta_of args rows errs pr v tele (bo_final env) gate written
                        in (Exit 0, write_outputs args (bo_t_start env) rows pr (fst tele) meta files1))
                   | Exit c \<Rightarrow> (Exit c, files1) | Crash e \<Rightarrow> (Crash e, files1) | Waiting \<Rightarrow> (Waiting, files1))
              | (Exit c, files1) \<Rightarrow> (Exit c, files1) | (Crash e, files1) \<Rightarrow> (Crash e, files1) | (Waiting, files1) \<Rightarrow> (Waiting, files1))
         | Exit c \<Rightarrow> (Exit c, files) | Crash e \<Rightarrow> (Crash e, files) | Waiting \<Rightarrow> (Waiting, files))"

section \<open>The program\<close>

record main_env =
  me_stubs :: "unit res"
  me_proj :: "vec list"
  me_sift :: "(vec list \<times> vec list) res"
  me_perm :: "nat list"
  me_choice :: "nat list \<Rightarrow> nat \<Rightarrow> nat list"
  me_draws :: "draw list"
  me_bring_up :: bring_up_env
  me_body :: body_env

text \<open>The last component says whether the cluster was torn down: everything from the bring-up on runs under \<^verbatim>\<open>finally\<close>.\<close>

definition qdrant_main :: "numpy \<Rightarrow> qargs \<Rightarrow> main_env \<Rightarrow> qdir \<Rightarrow> unit stage \<times> qdir \<times> bool" where
  "qdrant_main np args env files =
     (case q_validate args of
        Some c \<Rightarrow> (Exit c, files, False)
      | None \<Rightarrow>
          (case me_stubs env of
             Inl e \<Rightarrow> (Crash e, files, False)
           | Inr _ \<Rightarrow>
               (let files1 = clear_outputs files; node_ids = [0..<Q_REPLICAS_PER_SHARD]
                in case bindE (qwriter_init Q_VECTOR_DIM (qa_dist args) 12 (1 / 50) (me_proj env) (me_sift env) (me_perm env)
                                 (qa_batch_size args))
                          (\<lambda>w. q_make_queries (me_choice env) (me_draws env) (qa_queries args) w) of
                     Inl e \<Rightarrow> (Crash e, files1, False)
                   | Inr queries \<Rightarrow>
                       (case bring_up_cluster (me_bring_up env) node_ids (qa_indexing_threshold_kb args) of
                          Inl e \<Rightarrow> (Crash e, files1, True)
                        | Inr up \<Rightarrow>
                            if \<not> up then (Exit 1, files1, True)
                            else let (o', files2) = run_experiment_body np args (me_body env) queries node_ids files1
                                 in (o', files2, True)))))"

section \<open>What a run leaves behind\<close>

lemma clear_outputs_lookup:
  "map_of (clear_outputs files) name = (if name \<in> set OUTPUT_FILES then None else map_of files name)"
  by (simp add: clear_outputs_def OUTPUT_FILES_def)

lemma warmup_until_exit: "warmup_until target polls = Exit c \<Longrightarrow> c = 4"
  by (induction target polls rule: warmup_until.induct) (auto split: if_splits)

lemma warmup_stage_exit: "warmup_stage args polls = Exit c \<Longrightarrow> c = 4"
  by (cases "warmup_until (the (qa_warmup_until_written args)) polls")
     (auto simp: warmup_stage_def dest: warmup_until_exit split: option.splits)

lemma fault_protocol_exit: "fault_protocol args cs t env = Exit c \<Longrightarrow> c = 1"
  by (cases "chaos_thread args cs (real_of_int (qa_duration args))";
      cases "chaos_thread args cs (real_of_int (the (qa_chaos_duration args)))")
     (auto simp: fault_protocol_def Let_def split: if_splits option.splits docker.splits)

lemma index_gate_stage_facts:
  assumes "index_gate_stage np args probes queries t env files = (o', files')"
  shows "name \<in> set OUTPUT_FILES \<Longrightarrow> map_of files' name = map_of files name"
    and "o' = Exit c \<Longrightarrow> c = 3 \<and> (\<exists>info. map_of files' ''index_gate_failed.json'' = Some (Gate_failed info) \<and> \<not> gr_closed (gi_record info))"
    and "o' = Go gate \<Longrightarrow> qa_index_gate args \<Longrightarrow> \<exists>info. gate = Some info \<and> gr_closed (gi_record info) \<and>
      wait_for_index_gate (qa_index_gate_tol args) (nat (qa_index_gate_consecutive args)) (qa_index_gate_timeout args) (ge_rounds env)
        = Some (Inr (gi_record info))"
  using assms
  by (auto simp: index_gate_stage_def OUTPUT_FILES_def Let_def split: if_splits sum.splits option.splits)

lemma write_outputs_lookup:
  "map_of (write_outputs args t rows pr tele meta files) ''samples.csv'' =
     Some (Samples (map (\<lambda>r. (py_round 3 (s_t r - t), r)) rows))"
  "map_of (write_outputs args t rows pr tele meta files) ''run_meta.json'' = Some (Meta meta)"
  "map_of (write_outputs args t rows pr tele meta files) name = Some (Stale x) \<Longrightarrow> map_of files name = Some (Stale x)"
  by (auto simp: write_outputs_def Let_def split: if_splits)

lemma run_meta_gate: "rm_index_gate (run_meta_of args rows errs pr v tele w gate written) = gate"
  by (simp add: run_meta_of_def Let_def)

text \<open>A run that gets to its end wrote fresh samples and metadata; any other leaves the four outputs alone.\<close>

lemma body_cases:
  assumes "run_experiment_body np args env queries node_ids files = (o', files')"
  obtains (complete) rows pr tele gate meta files1 where "o' = Exit 0"
      "files' = write_outputs args (bo_t_start env) rows pr tele meta files1" "rm_index_gate meta = gate"
      "\<And>name. name \<in> set OUTPUT_FILES \<Longrightarrow> map_of files1 name = map_of files name"
      "qa_index_gate args \<Longrightarrow> \<exists>info. gate = Some info \<and> gr_closed (gi_record info) \<and>
         wait_for_index_gate (qa_index_gate_tol args) (nat (qa_index_gate_consecutive args)) (qa_index_gate_timeout args)
           (ge_rounds (bo_gate env)) = Some (Inr (gi_record info))"
  | (incomplete) "o' \<noteq> Exit 0" "\<And>name. name \<in> set OUTPUT_FILES \<Longrightarrow> map_of files' name = map_of files name"
proof -
  let ?probes = "q_build_probes Q_NUM_SHARDS Q_REPLICAS_PER_SHARD COLLECTION probe_port_fn ''127.0.0.1'' 2"
  obtain og files1 where g: "index_gate_stage np args ?probes queries (bo_t_start env) (bo_gate env) files = (og, files1)"
    by (cases "index_gate_stage np args ?probes queries (bo_t_start env) (bo_gate env) files")
  note gf = index_gate_stage_facts [OF g]
  let ?p = "fault_protocol args (build_containers node_ids) (bo_t_start env) (bo_protocol env)"
  show thesis
  proof (cases "warmup_stage args (bo_warmup env)")
    case (Go written)
    note warm = this
    show thesis
    proof (cases og)
      case (Go gate)
      show thesis
      proof (cases ?p)
        case (Go pr)
        define L where "L = q_sampler_loop np ?probes queries (qa_k args) (qa_settle_s args) (qa_metric args)
          (bo_rounds env) (bo_writer env) ([], [])"
        define tele where "tele = (if qa_capture_telemetry args then telemetry_loop (bo_telemetry env) node_ids ([], []) else ([], []))"
        define v where "v = foldl (\<lambda>v answers. qdrant_validator_round answers v)
          \<lparr>qv_violations = [], qv_checks_run = 0, qv_last_leader_term = []\<rparr> (bo_validator env)"
        have "o' = Exit 0 \<and> files' = write_outputs args (bo_t_start env) (fst (snd L)) pr (fst tele)
            (run_meta_of args (fst (snd L)) (snd (snd L)) pr v tele (bo_final env) gate written) files1"
          using assms unfolding run_experiment_body_def Let_def
          by (simp add: warm g \<open>og = stage.Go gate\<close> Go case_prod_unfold L_def tele_def v_def)
        with complete [OF _ _ run_meta_gate gf(1) gf(3)] \<open>og = stage.Go gate\<close> show thesis by blast
      next
        case (Exit c)
        with fault_protocol_exit [OF Exit] show thesis
          using assms gf(1) by (intro incomplete) (auto simp: run_experiment_body_def Let_def warm g Go)
      qed (use assms gf(1) in \<open>auto simp: run_experiment_body_def Let_def warm g Go intro!: incomplete\<close>)
    next
      case (Exit c)
      with gf(2) [OF Exit] show thesis
        using assms gf(1) by (intro incomplete) (auto simp: run_experiment_body_def Let_def warm g)
    qed (use assms gf(1) in \<open>auto simp: run_experiment_body_def Let_def warm g intro!: incomplete\<close>)
  next
    case (Exit c)
    with warmup_stage_exit [OF Exit] show thesis
      using assms by (intro incomplete) (auto simp: run_experiment_body_def Let_def)
  qed (use assms in \<open>auto simp: run_experiment_body_def Let_def intro!: incomplete\<close>)
qed

lemma main_cases:
  assumes "qdrant_main np args env files = (o', files', down)" and "q_validate args = None" and "me_stubs env = Inr ()"
  obtains (early) "o' \<noteq> Exit 0" "files' = clear_outputs files"
  | (body) queries where "run_experiment_body np args (me_body env) queries [0..<Q_REPLICAS_PER_SHARD] (clear_outputs files) = (o', files')" down
  using assms
  by (auto simp: qdrant_main_def Let_def case_prod_unfold split: sum.splits if_splits)


text \<open>A gated run without faults on a cluster that comes up at once; an old sample file is in the directory.\<close>

definition gated_args :: qargs where
  "gated_args = qargs_default\<lparr>qa_queries := 1, qa_k := 1, qa_dist := ''uniform'', qa_no_chaos := True, qa_index_gate := True,
     qa_index_gate_consecutive := 1\<rparr>"

definition idle_sweep :: sweep_env where
  "idle_sweep = \<lparr>sw_clock = \<lparr>sc_t = 0, sc_probe_s = 0, sc_score_s = (\<lambda>_. 0)\<rparr>,
     sw_io = (\<lambda>_. \<lparr>qi_scroll = (\<lambda>_. None), qi_search = (\<lambda>_ _ _. None)\<rparr>), sw_now = 0, sw_writer = batch_demo\<rparr>"

definition gated_env :: gate_env where
  "gated_env = \<lparr>ge_before = idle_sweep, ge_rounds = [([ready_row], 1)], ge_opened = 2, ge_closed = 2,
     ge_after = idle_sweep, ge_after_exact = idle_sweep\<rparr>"

definition silent_docker :: docker_io where
  "silent_docker = \<lparr>io_inspect = Raises True, io_kill = Raises True, io_start = Raises True, io_inspect_after = Raises True\<rparr>"

definition gated_main :: main_env where
  "gated_main = \<lparr>me_stubs = Inr (), me_proj = [], me_sift = Inl IndexError, me_perm = [], me_choice = (\<lambda>xs n. take n xs),
     me_draws = [demo_draw 0],
     me_bring_up = \<lparr>be_down = Inr (), be_compose = Inr (), be_up = Inr 0, be_ready = [\<lambda>_. Some 200],
       be_peers = [\<lambda>_. Some (200, Some ''enabled'', 3)], be_http = (\<lambda>_ _ _. Inr 200),
       be_shards = [\<lambda>_. Some (200, replicate 6 (Some ''Active''), [])]\<rparr>,
     me_body = \<lparr>bo_t_start = 0, bo_warmup = [], bo_gate = gated_env, bo_writer = batch_demo, bo_rounds = [],
       bo_validator = [], bo_telemetry = [],
       bo_protocol = \<lparr>pe_interrupt = None, pe_chaos_start = 0, pe_chaos_stop = 0,
         pe_chaos = \<lparr>ce_rounds = [], ce_started = 0, ce_steps = []\<rparr>, pe_revive = (\<lambda>_. silent_docker)\<rparr>,
       bo_final = batch_demo\<rparr>\<rparr>"

lemma ready_gate: "wait_for_index_gate 0 1 600 [([ready_row], 1)] = Some (Inr g) \<Longrightarrow> gr_closed g"
  "\<exists>g. wait_for_index_gate 0 1 600 [([ready_row], 1)] = Some (Inr g)"
  by (auto simp: wait_for_index_gate_def push_poll_def gate_decision_def poll_reason_def row_reason_def ready_row_def
      node_fraction_def map_filter_simps Let_def)

lemma gated_bring_up: "bring_up_cluster (me_bring_up gated_main) [0..<Q_REPLICAS_PER_SHARD] None = Inr True"
  by (simp add: bring_up_cluster_def gated_main_def wait_for_nodes_ready_iff wait_for_cluster_formed_iff node_joined_def
      create_collection_def wait_for_shards_active_iff shards_active_def Q_REPLICAS_PER_SHARD_def Q_NUM_SHARDS_def Let_def list_all_iff)

lemma gated_run_ends: "\<exists>files' down. qdrant_main numpy_ref gated_args gated_main [(''samples.csv'', Stale ''old'')] = (Exit 0, files', down)"
proof -
  obtain g where g: "wait_for_index_gate 0 1 600 [([ready_row], 1)] = Some (Inr g)" "gr_closed g"
    using ready_gate by blast
  have "fst (run_experiment_body numpy_ref gated_args (me_body gated_main) queries ns files) = Exit 0" for queries ns files
    using g by (simp add: run_experiment_body_def gated_args_def qargs_default_def gated_main_def warmup_stage_def index_gate_stage_def
        gated_env_def fault_protocol_def Let_def case_prod_unfold)
  moreover have "q_validate gated_args = None" "me_stubs gated_main = Inr ()" "qa_indexing_threshold_kb gated_args = None"
    by (simp_all add: q_validate_def gated_args_def qargs_default_def gated_main_def)
  moreover have "\<exists>queries. bindE (qwriter_init Q_VECTOR_DIM (qa_dist gated_args) 12 (1 / 50) (me_proj gated_main) (me_sift gated_main)
      (me_perm gated_main) (qa_batch_size gated_args))
      (\<lambda>w. q_make_queries (me_choice gated_main) (me_draws gated_main) (qa_queries gated_args) w) = Inr queries"
    by (simp add: qwriter_init_def writer_init_def gated_args_def qargs_default_def gated_main_def q_make_queries_def Let_def)
  ultimately show ?thesis
    by (auto simp: qdrant_main_def gated_bring_up Let_def case_prod_unfold)
qed


section \<open>Scoring at the gate\<close>

lemma traverseE_first_error:
  "x \<in> set xs \<Longrightarrow> f x = Inl e \<Longrightarrow> \<forall>y e'. f y = Inl e' \<longrightarrow> e' = e \<Longrightarrow> traverseE f xs = Inl e"
proof (induction xs)
  case (Cons y ys)
  show ?case
  proof (cases "f y")
    case (Inl e')
    with Cons.prems(3) have "e' = e" by blast
    with Inl show ?thesis by simp
  next
    case (Inr z)
    then have "x \<in> set ys" using Cons.prems(1,2) by auto
    with Cons.IH Cons.prems(2,3) have "traverseE f ys = Inl e" by blast
    with Inr show ?thesis by simp
  qed
next
  case Nil
  from Nil(1) show ?case by simp
qed

lemma rows_by_name_dom: "map_of (rows_by_name rows) n \<noteq> None \<longleftrightarrow> n \<in> s_name ` set rows"
proof -
  have "map_of (foldl (\<lambda>d r. dict_set (s_name r) r d) d rows) n \<noteq> None \<longleftrightarrow> map_of d n \<noteq> None \<or> n \<in> s_name ` set rows" for d
    by (induction rows arbitrary: d) auto
  from this [of "[]"] show ?thesis by (simp add: rows_by_name_def)
qed

abbreviation not_a_float :: pyerr where
  "not_a_float \<equiv> ValueError ''could not convert string to float''"

lemma recall_delta_error: "recall_delta d r = Inl e \<Longrightarrow> e = not_a_float"
  by (cases "s_index_recall r"; cases "s_index_recall (the (map_of d (s_name r)))")
     (auto simp: recall_delta_def split: option.splits)

lemma recall_deltas_raises:
  assumes "r \<in> set after" and "s_index_recall r = None" and "s_name r \<in> s_name ` set ref"
  shows "recall_deltas after ref = Inl not_a_float"
proof -
  have "recall_delta (rows_by_name ref) r = Inl not_a_float"
    using assms(2,3) rows_by_name_dom [of ref "s_name r"] by (auto simp: recall_delta_def)
  then have "traverseE (recall_delta (rows_by_name ref)) after = Inl not_a_float"
    using recall_delta_error by (intro traverseE_first_error [OF assms(1)]) blast+
  then show ?thesis by (simp add: recall_deltas_def)
qed

text \<open>The row of a replica that did not answer a sweep has no recall.\<close>

lemma unanswered_row:
  assumes "numpy_api np" and "distinct (map p_name probes)"
    and "well_posed (view (qw_core w) (q_snapshot_corpus w)) queries k metric"
    and "p \<in> set probes" and "\<not> q_answers (io (p_name p)) queries k exact p"
  shows "\<exists>rows. q_sample_once np clk io probes w queries k now settle_s metric exact = Inr rows \<and>
    mset (map s_name rows) = mset (map p_name probes) \<and>
    (\<exists>row \<in> set rows. s_name row = p_name p \<and> s_index_recall row = None)"
proof -
  from q_sample_once_rows [OF assms(1-3), of clk io now settle_s exact] obtain rows where
    r: "q_sample_once np clk io probes w queries k now settle_s metric exact = Inr rows"
    "mset (map s_name rows) = mset (map p_name probes)"
    "\<forall>row \<in> set rows. \<exists>p \<in> set probes. s_name row = p_name p \<and> s_shard row = p_shard_id p \<and>
       row_of_replica (q_answers (io (p_name p)) queries k exact p) (q_held (io (p_name p)) p)
         (q_shard_intended io queries k exact probes (q_intended_set now settle_s w) (p_shard_id p)) row" by blast
  have "p_name p \<in> set (map s_name rows)" using assms(4) mset_eq_setD [OF r(2)] by auto
  then obtain row where row: "row \<in> set rows" "s_name row = p_name p" by auto
  with r(3) obtain p' where p': "p' \<in> set probes" "p_name p' = p_name p"
    "row_of_replica (q_answers (io (p_name p')) queries k exact p') (q_held (io (p_name p')) p')
         (q_shard_intended io queries k exact probes (q_intended_set now settle_s w) (p_shard_id p')) row" by metis
  have "p' = p" using assms(2,4) p'(1,2) by (auto simp: distinct_map inj_on_def)
  with p'(3) assms(5) have "s_index_recall row = None" by (simp add: row_of_replica_def)
  with r(1,2) row show ?thesis by blast
qed

text \<open>
  C40. Scoring at the gate tolerates no missing value: when one replica does not answer the sweep after
  the gate has closed, the run ends with an exception instead of recording the missing
  difference, although the code provides a value for that case.
\<close>

theorem down_replica_aborts_gate_scoring:
  assumes "numpy_api np" and "distinct (map p_name probes)"
    and "\<forall>e \<in> {ge_before env, ge_after env, ge_after_exact env}.
      well_posed (view (qw_core (sw_writer e)) (q_snapshot_corpus (sw_writer e))) queries (qa_k args) (qa_metric args)"
    and "qa_index_gate args" and "qa_score_at_gate args"
    and "wait_for_index_gate (qa_index_gate_tol args) (nat (qa_index_gate_consecutive args)) (qa_index_gate_timeout args)
      (ge_rounds env) = Some (Inr g)" and "gr_closed g"
    and "p \<in> set probes" and "\<not> q_answers (sw_io (ge_after env) (p_name p)) queries (qa_k args) False p"
  shows "index_gate_stage np args probes queries t_start env files = (Crash not_a_float, files)"
proof -
  have total: "\<exists>rows. sweep_at np args probes queries exact e = Inr rows \<and> mset (map s_name rows) = mset (map p_name probes)"
    if "e \<in> {ge_before env, ge_after env, ge_after_exact env}" for e exact
    using q_sample_once_rows [OF assms(1,2)] assms(3) that unfolding sweep_at_def by blast
  obtain b where b: "sweep_at np args probes queries False (ge_before env) = Inr b" using total by blast
  obtain ex where ex: "sweep_at np args probes queries True (ge_after_exact env) = Inr ex"
    "mset (map s_name ex) = mset (map p_name probes)" using total by blast
  have "well_posed (view (qw_core (sw_writer (ge_after env))) (q_snapshot_corpus (sw_writer (ge_after env)))) queries
      (qa_k args) (qa_metric args)" using assms(3) by simp
  from unanswered_row [where io = "sw_io (ge_after env)", OF assms(1,2) this assms(8,9)] obtain after row where
    a: "sweep_at np args probes queries False (ge_after env) = Inr after" "row \<in> set after"
      "s_name row = p_name p" "s_index_recall row = None" unfolding sweep_at_def by blast
  have "s_name row \<in> s_name ` set ex" using mset_eq_setD [OF ex(2)] assms(8) a(3) by auto
  from recall_deltas_raises [OF a(2,4) this] have "recall_deltas after ex = Inl not_a_float" .
  with assms(4-7) a(1) b ex(1) show ?thesis by (simp add: index_gate_stage_def Let_def)
qed

lemma batch_demo_well_posed: "well_posed (view (qw_core batch_demo) (q_snapshot_corpus batch_demo)) [[1]] 1 ''l2''"
  by (simp add: well_posed_def view_def q_snapshot_corpus_def snapshot_corpus_def batch_demo_def qwriter_init_def writer_init_def
      Let_def corpus_ok_def matmul_ok_def err_simps)

theorem down_replica_aborts_gate_scoring_witness:
  "index_gate_stage numpy_ref (gated_args\<lparr>qa_score_at_gate := True\<rparr>) (q_build_probes 1 1 COLLECTION probe_port_fn ''h'' 2) [[1]] 0
     gated_env [] = (Crash not_a_float, [])"
proof -
  let ?ps = "q_build_probes 1 1 COLLECTION probe_port_fn ''h'' 2"
  obtain g where g: "wait_for_index_gate 0 1 600 [([ready_row], 1)] = Some (Inr g)" "gr_closed g"
    using ready_gate by blast
  have wp: "\<forall>e \<in> {ge_before gated_env, ge_after gated_env, ge_after_exact gated_env}.
      well_posed (view (qw_core (sw_writer e)) (q_snapshot_corpus (sw_writer e))) [[1]]
        (qa_k (gated_args\<lparr>qa_score_at_gate := True\<rparr>)) (qa_metric (gated_args\<lparr>qa_score_at_gate := True\<rparr>))"
    using batch_demo_well_posed by (simp add: gated_env_def gated_args_def qargs_default_def idle_sweep_def)
  have "\<not> q_answers (sw_io (ge_after gated_env) (p_name (hd ?ps))) [[1]] (qa_k (gated_args\<lparr>qa_score_at_gate := True\<rparr>)) False (hd ?ps)"
    by (simp add: q_answers_def gated_env_def idle_sweep_def)
  moreover have "hd ?ps \<in> set ?ps" by (simp add: q_build_probes_def)
  moreover have "wait_for_index_gate (qa_index_gate_tol (gated_args\<lparr>qa_score_at_gate := True\<rparr>))
      (nat (qa_index_gate_consecutive (gated_args\<lparr>qa_score_at_gate := True\<rparr>)))
      (qa_index_gate_timeout (gated_args\<lparr>qa_score_at_gate := True\<rparr>)) (ge_rounds gated_env) = Some (Inr g)"
    using g(1) by (simp add: gated_args_def qargs_default_def gated_env_def)
  ultimately show ?thesis
    using down_replica_aborts_gate_scoring [where probes = ?ps and files = "[]" and t_start = 0,
        OF npr.numpy_api_axioms q_build_probes_distinct wp _ _ _ g(2)]
    by (simp add: gated_args_def qargs_default_def)
qed

end
