(* ===== verification/Py_Csv.thy ===== *)
theory Py_Csv
  imports Py_Dict Py_Text
begin

text \<open>
  The part of Python's \<^verbatim>\<open>csv\<close> module the repository uses, with the default dialect: the quoting of
  \<^verbatim>\<open>csv.writer\<close>, the state machine of \<^verbatim>\<open>csv.reader\<close>, and \<^verbatim>\<open>DictWriter\<close> and \<^verbatim>\<open>DictReader\<close> on top
  of them; the text \<^verbatim>\<open>str\<close> gives for the values that are written. What is written reads back.
\<close>

section \<open>Values in cells\<close>

datatype pycell = CInt nat | CFloat real | CStr string

text \<open>Trailing zeros go, but one digit stays after the point.\<close>

definition strip_zeros :: "string \<Rightarrow> string" where
  "strip_zeros s = (let t = rev (dropWhile (\<lambda>c. c = CHR ''0'') (rev s)) in if t = [] then ''0'' else t)"

text \<open>
  \<^verbatim>\<open>repr\<close> of a float that was rounded to at most six decimals and is below \<open>10^16\<close>: fixed notation,
  or scientific notation below \<open>10^-4\<close>.
\<close>

definition repr_nonneg :: "real \<Rightarrow> string" where
  "repr_nonneg x =
     (let m = nat (half_even (x * 10 ^ 6))
      in if 0 < m \<and> m < 10 then dec m @ ''e-06''
         else if 0 < m \<and> m < 100
         then (if m mod 10 = 0 then dec (m div 10) else dec (m div 10) @ ''.'' @ dec (m mod 10)) @ ''e-05''
         else dec (m div 10 ^ 6) @ ''.'' @ strip_zeros (dec_pad 6 m))"

definition float_repr :: "real \<Rightarrow> string" where
  "float_repr x = (if x < 0 then CHR ''-'' # repr_nonneg (- x) else repr_nonneg x)"

fun cell_text :: "pycell \<Rightarrow> string" where
  "cell_text (CInt n) = dec n"
| "cell_text (CFloat x) = float_repr x"
| "cell_text (CStr s) = s"

section \<open>Writing\<close>

definition csv_special :: "char \<Rightarrow> bool" where
  "csv_special c \<longleftrightarrow> c = CHR '','' \<or> c = CHR 0x22 \<or> c = CHR 0x0D \<or> c = CHR 0x0A"

fun double_quotes :: "string \<Rightarrow> string" where
  "double_quotes [] = []"
| "double_quotes (c # s) = (if c = CHR 0x22 then [c, c] else [c]) @ double_quotes s"

definition csv_quoted :: "string \<Rightarrow> string" where
  "csv_quoted s = [CHR 0x22] @ double_quotes s @ [CHR 0x22]"

definition csv_field :: "string \<Rightarrow> string" where
  "csv_field s = (if list_ex csv_special s then csv_quoted s else s)"

definition CRLF :: string where
  "CRLF = [CHR 0x0D, CHR 0x0A]"

definition csv_line :: "string list \<Rightarrow> string" where
  "csv_line fields = (if fields = [[]] then csv_quoted [] else join '','' (map csv_field fields)) @ CRLF"

definition csv_text :: "string list list \<Rightarrow> string" where
  "csv_text rows = concat (map csv_line rows)"

text \<open>\<^verbatim>\<open>DictWriter\<close>: a key without a column raises, a column without a key is empty.\<close>

definition dict_to_list :: "string list \<Rightarrow> (string, pycell) dict \<Rightarrow> string list res" where
  "dict_to_list cols d =
     (if list_ex (\<lambda>(key, _). key \<notin> set cols) d then Inl (ValueError ''dict contains fields not in fieldnames'')
      else Inr (map (\<lambda>c. cell_text (dict_get d c (CStr []))) cols))"

definition dict_writer :: "string list \<Rightarrow> (string, pycell) dict list \<Rightarrow> string res" where
  "dict_writer cols ds = bindE (traverseE (dict_to_list cols) ds) (\<lambda>rows. Inr (csv_text (cols # rows)))"

section \<open>Reading\<close>

datatype csv_state = Start_record | Start_field | In_field | In_quoted | Quote_in_quoted | Eat_nl

text \<open>
  The reader over the whole text, with the field and the row read so far. The file is opened with
  \<^verbatim>\<open>newline=""\<close>, so a carriage return, a line feed or the pair of them ends a line.
\<close>

fun csv_start :: "string \<Rightarrow> string list \<Rightarrow> char \<Rightarrow> csv_state \<times> string \<times> string list \<times> string list list" where
  "csv_start fld row c =
     (if c = CHR 0x0A then (Start_record, [], [], [row @ [fld]])
      else if c = CHR 0x0D then (Eat_nl, [], [], [row @ [fld]])
      else if c = CHR 0x22 then (In_quoted, fld, row, [])
      else if c = CHR '','' then (Start_field, [], row @ [fld], [])
      else (In_field, fld @ [c], row, []))"

text \<open>One character: the next state, the field and the row so far, and the rows that are complete.\<close>

fun csv_step :: "csv_state \<Rightarrow> string \<Rightarrow> string list \<Rightarrow> char \<Rightarrow> csv_state \<times> string \<times> string list \<times> string list list" where
  "csv_step Start_record fld row c =
     (if c = CHR 0x0A then (Start_record, [], [], [[]])
      else if c = CHR 0x0D then (Eat_nl, [], [], [[]])
      else csv_start [] [] c)"
| "csv_step Start_field fld row c = csv_start fld row c"
| "csv_step In_field fld row c = (if c = CHR 0x22 then (In_field, fld @ [c], row, []) else csv_start fld row c)"
| "csv_step In_quoted fld row c = (if c = CHR 0x22 then (Quote_in_quoted, fld, row, []) else (In_quoted, fld @ [c], row, []))"
| "csv_step Quote_in_quoted fld row c = (if c = CHR 0x22 then (In_quoted, fld @ [c], row, []) else csv_start fld row c)"
| "csv_step Eat_nl fld row c =
     (if c = CHR 0x0A then (Start_record, [], [], [])
      else if c = CHR 0x0D then (Eat_nl, [], [], [[]])
      else csv_start [] [] c)"

fun csv_scan :: "csv_state \<Rightarrow> string \<Rightarrow> string list \<Rightarrow> string \<Rightarrow> string list list" where
  "csv_scan st fld row [] = (if st = Start_record \<or> st = Eat_nl then [] else [row @ [fld]])"
| "csv_scan st fld row (c # s) =
     (let (st', fld', row', out) = csv_step st fld row c in out @ csv_scan st' fld' row' s)"

definition csv_reader :: "string \<Rightarrow> string list list" where
  "csv_reader s = csv_scan Start_record [] [] s"

text \<open>
  \<^verbatim>\<open>DictReader\<close>: the first row names the columns, empty rows are skipped. The cells missing from a short
  row are \<^verbatim>\<open>None\<close> in Python and empty here, which every reader of the repository treats alike; the
  surplus of a long row, stored under the key \<^verbatim>\<open>None\<close> and never read, is dropped.
\<close>

definition row_to_dict :: "string list \<Rightarrow> string list \<Rightarrow> (string, string) dict" where
  "row_to_dict cols row =
     foldl (\<lambda>d (c, v). dict_set c v d) [] (zip cols (row @ replicate (length cols - length row) []))"

definition dict_reader :: "string \<Rightarrow> (string, string) dict list" where
  "dict_reader s =
     (case csv_reader s of
        [] \<Rightarrow> []
      | cols # rows \<Rightarrow> map (row_to_dict cols) (filter (\<lambda>r. r \<noteq> []) rows))"

section \<open>What is written reads back\<close>

lemma csv_step_plain: "\<not> csv_special c \<Longrightarrow> csv_step Start_field fld row c = (In_field, fld @ [c], row, [])"
    "\<not> csv_special c \<Longrightarrow> csv_step In_field fld row c = (In_field, fld @ [c], row, [])"
  by (simp_all add: csv_special_def)

lemma scan_plain: "list_all (\<lambda>c. \<not> csv_special c) f \<Longrightarrow> csv_scan In_field fld row (f @ s) = csv_scan In_field (fld @ f) row s"
  by (induction f arbitrary: fld) (simp_all add: csv_step_plain del: csv_step.simps)

lemma scan_quoted:
  "csv_scan In_quoted fld row (double_quotes f @ CHR 0x22 # s) = csv_scan Quote_in_quoted (fld @ f) row s"
  by (induction f arbitrary: fld) simp_all

text \<open>After a field the reader is in a state in which a comma ends the field and a carriage return the row.\<close>

definition after_field :: "csv_state \<Rightarrow> bool" where
  "after_field st \<longleftrightarrow> st = Start_field \<or> st = In_field \<or> st = Quote_in_quoted"

lemma scan_sep:
  assumes "after_field st"
  shows "csv_scan st fld row (CHR '','' # s) = csv_scan Start_field [] (row @ [fld]) s"
    and "csv_scan st fld row (CHR 0x0D # s) = (row @ [fld]) # csv_scan Eat_nl [] [] s"
  using assms by (cases st; simp add: after_field_def)+

lemma scan_field_end: "\<exists>st. after_field st \<and> (\<forall>s. csv_scan Start_field [] row (csv_field f @ s) = csv_scan st f row s)"
proof (cases "list_ex csv_special f")
  case True
  then have "csv_scan Start_field [] row (csv_field f @ s) = csv_scan Quote_in_quoted f row s" for s
    using scan_quoted [of "[]" row f s] by (simp add: csv_field_def csv_quoted_def)
  then show ?thesis by (auto simp: after_field_def)
next
  case False
  then have plain: "list_all (\<lambda>c. \<not> csv_special c) f" and f: "csv_field f = f"
    by (simp_all add: list_all_iff list_ex_iff csv_field_def)
  show ?thesis
  proof (cases f)
    case Nil
    then show ?thesis unfolding f by (intro exI [of _ Start_field]) (simp add: after_field_def)
  next
    case (Cons c f')
    then have "csv_scan Start_field [] row (f @ s) = csv_scan In_field f row s" for s
      using plain by (simp add: csv_step_plain scan_plain del: csv_step.simps)
    then show ?thesis unfolding f by (intro exI [of _ In_field]) (simp add: after_field_def)
  qed
qed

lemma scan_field:
  "csv_scan Start_field [] row (csv_field f @ CHR '','' # s) = csv_scan Start_field [] (row @ [f]) s"
  "csv_scan Start_field [] row (csv_field f @ CHR 0x0D # s) = (row @ [f]) # csv_scan Eat_nl [] [] s"
  using scan_field_end [of row f] scan_sep by (metis, metis)

lemma scan_fields:
  assumes "fields \<noteq> []"
  shows "csv_scan Start_field [] row (join '','' (map csv_field fields) @ CRLF @ s) = (row @ fields) # csv_scan Start_record [] [] s"
  using assms
proof (induction fields arbitrary: row)
  case (Cons f fields)
  show ?case
  proof (cases fields)
    case Nil
    then show ?thesis by (simp add: CRLF_def scan_field)
  next
    case (Cons g gs)
    then have "join '','' (map csv_field (f # fields)) = csv_field f @ CHR '','' # join '','' (map csv_field fields)" by simp
    then show ?thesis using Cons.IH [of "row @ [f]"] Cons by (simp add: scan_field)
  qed
qed simp

text \<open>A line does not start like an empty record.\<close>

lemma start_record_field:
  assumes "c \<noteq> CHR 0x0A" "c \<noteq> CHR 0x0D"
  shows "csv_scan Start_record [] [] (c # s) = csv_scan Start_field [] [] (c # s)"
  using assms by simp

lemma csv_field_head: "csv_field f = [] \<or> (\<exists>c s. csv_field f = c # s \<and> c \<noteq> CHR 0x0A \<and> c \<noteq> CHR 0x0D)"
  by (cases f) (auto simp: csv_field_def csv_quoted_def csv_special_def)

lemma scan_line:
  assumes "fields \<noteq> []"
  shows "csv_scan Start_record [] [] (csv_line fields @ s) = fields # csv_scan Start_record [] [] s"
proof (cases "fields = [[]]")
  case True
  then show ?thesis by (simp add: csv_line_def csv_quoted_def CRLF_def)
next
  case False
  have "\<exists>c t. join '','' (map csv_field fields) = c # t \<and> c \<noteq> CHR 0x0A \<and> c \<noteq> CHR 0x0D"
  proof (cases fields)
    case Nil
    with assms show ?thesis by simp
  next
    case (Cons f fs)
    show ?thesis
    proof (cases fs)
      case Nil
      with False Cons have "f \<noteq> []" by simp
      then have "csv_field f \<noteq> []" by (simp add: csv_field_def csv_quoted_def)
      with csv_field_head [of f] Nil Cons show ?thesis by simp
    next
      case Cons': (Cons g gs)
      with csv_field_head [of f] Cons show ?thesis by auto
    qed
  qed
  then obtain c t where j: "join '','' (map csv_field fields) = c # t" "c \<noteq> CHR 0x0A" "c \<noteq> CHR 0x0D" by blast
  have "csv_scan Start_record [] [] (csv_line fields @ s) = csv_scan Start_field [] [] (join '','' (map csv_field fields) @ CRLF @ s)"
    using False j start_record_field [OF j(2,3)] by (simp add: csv_line_def)
  then show ?thesis by (simp only: scan_fields [OF assms] append_Nil)
qed

lemma csv_reader_text: "list_all (\<lambda>r. r \<noteq> []) rows \<Longrightarrow> csv_reader (csv_text rows) = rows"
  unfolding csv_reader_def csv_text_def by (induction rows) (simp_all add: scan_line)

lemma row_to_dict_zip:
  assumes "length row = length cols" and "distinct cols"
  shows "row_to_dict cols row = zip cols row"
proof -
  have "foldl (\<lambda>d (c, v). dict_set c v d) d kvs = d @ kvs" if "distinct (map fst (d @ kvs))"
    for d kvs :: "(string, string) dict"
    using that
  proof (induction kvs arbitrary: d)
    case (Cons kv kvs)
    obtain k v where kv: "kv = (k, v)" by (cases kv)
    have "dict_set k v d = d @ [(k, v)]" using Cons.prems by (intro dict_set_fresh) (auto simp: kv)
    with Cons.IH [of "d @ [(k, v)]"] Cons.prems show ?case by (simp add: kv)
  qed simp
  from this [of "[]" "zip cols row"] show ?thesis using assms by (simp add: row_to_dict_def)
qed

lemma dict_writer_reader:
  assumes "cols \<noteq> []" and "distinct cols" and "\<forall>d \<in> set ds. \<forall>(key, v) \<in> set d. key \<in> set cols"
  shows "\<exists>text. dict_writer cols ds = Inr text \<and>
    dict_reader text = map (\<lambda>d. map (\<lambda>c. (c, cell_text (dict_get d c (CStr [])))) cols) ds"
proof -
  define line where "line d = map (\<lambda>c. cell_text (dict_get d c (CStr []))) cols" for d
  have "traverseE (dict_to_list cols) ds = Inr (map line ds)"
    using assms(3) by (intro traverseE_map_Inr) (auto simp: dict_to_list_def line_def list_ex_iff)
  moreover have "csv_reader (csv_text (cols # map line ds)) = cols # map line ds"
    using assms(1) by (intro csv_reader_text) (auto simp: line_def list_all_iff)
  moreover have "filter (\<lambda>r. r \<noteq> []) (map line ds) = map line ds"
    using assms(1) by (auto simp: line_def filter_id_conv)
  moreover have "row_to_dict cols (line d) = map (\<lambda>c. (c, cell_text (dict_get d c (CStr [])))) cols" for d
    using assms(2) by (simp add: row_to_dict_zip line_def zip_map2 zip_same_conv_map)
  ultimately show ?thesis by (simp add: dict_writer_def dict_reader_def)
qed

section \<open>What \<^verbatim>\<open>repr\<close> prints reads back\<close>

lemma undec_Nil [simp]: "undec [] = 0"
  by (simp add: undec_def)

lemma undec_zeros: "undec (t @ replicate n CHR ''0'') = undec t * 10 ^ n"
proof (induction n)
  case (Suc n)
  have "t @ replicate (Suc n) CHR ''0'' = (t @ replicate n CHR ''0'') @ [CHR ''0'']" by (simp add: replicate_append_same)
  then show ?case by (simp only: undec_snoc Suc) (simp add: digit_value_def)
qed simp

lemma strip_zeros_decomp:
  obtains n where "s = rev (dropWhile (\<lambda>c. c = CHR ''0'') (rev s)) @ replicate n CHR ''0''"
proof -
  let ?z = "takeWhile (\<lambda>c. c = CHR ''0'') (rev s)"
  have z: "rev ?z = replicate (length ?z) CHR ''0''"
    using replicate_length_same [of "rev ?z" "CHR ''0''"] set_takeWhileD [of _ "\<lambda>c. c = CHR ''0''" "rev s"] by simp
  have "s = rev (dropWhile (\<lambda>c. c = CHR ''0'') (rev s)) @ rev ?z" by (simp flip: rev_append)
  with z that show thesis by simp
qed

lemma strip_zeros_digits: "list_all is_digit s \<Longrightarrow> list_all is_digit (strip_zeros s) \<and> strip_zeros s \<noteq> []"
  by (auto simp: strip_zeros_def Let_def list_all_iff is_digit_def dest: set_dropWhileD)

lemma strip_zeros_value: "real (undec (strip_zeros s)) / 10 ^ length (strip_zeros s) = real (undec s) / 10 ^ length s"
proof -
  let ?t = "rev (dropWhile (\<lambda>c. c = CHR ''0'') (rev s))"
  obtain n where n: "s = ?t @ replicate n CHR ''0''" by (rule strip_zeros_decomp)
  have u: "undec s = undec ?t * 10 ^ n" using arg_cong [OF n, of undec] by (simp only: undec_zeros)
  have l: "length s = length ?t + n" using arg_cong [OF n, of length] by simp
  have v: "real (undec s) / 10 ^ length s = real (undec ?t) / 10 ^ length ?t" unfolding u l by (simp add: power_add)
  show ?thesis
  proof (cases "?t = []")
    case True
    then have "real (undec s) / 10 ^ length s = 0" using u by (simp only: True) (simp add: undec_def)
    moreover have "strip_zeros s = ''0''" using True by (simp add: strip_zeros_def Let_def)
    ultimately show ?thesis by (simp add: undec_def digit_value_def)
  next
    case False
    then have "strip_zeros s = ?t" by (simp only: strip_zeros_def Let_def if_False)
    then show ?thesis using v by simp
  qed
qed

text \<open>A literal: digits, perhaps a point and more digits, perhaps an exponent \<open>e-0d\<close>.\<close>

lemma py_float_literal:
  assumes a: "a \<noteq> []" "list_all is_digit a" and f: "f = [] \<and> b = [] \<or> f = CHR ''.'' # b \<and> b \<noteq> []" and b: "list_all is_digit b"
    and r: "r = [] \<and> e = 0 \<or> r = ''e-0'' @ [digit e] \<and> e < 10"
  shows "py_float (a @ f @ r) = Some (Fl ((real (undec a) + real (undec b) / 10 ^ length b) / 10 ^ e))"
proof -
  let ?u = "a @ f @ r"
  have da: "\<And>c. c \<in> set a \<Longrightarrow> is_digit c" and db: "\<And>c. c \<in> set b \<Longrightarrow> is_digit c"
    using a b by (auto simp: list_all_iff)
  have hd: "is_digit (hd ?u)" using a da by (cases a) auto
  have last: "is_digit (last ?u)"
    using r f da [OF last_in_set [OF a(1)]] db [OF last_in_set] by (auto simp: last_append)
  have strip: "strip ?u = ?u" using hd last a(1) digit_not_space by (intro strip_ends) auto
  have sg: "sign_of ?u = (1, ?u)" using hd a(1) by (cases a) auto
  have nan: "lower ?u \<noteq> ''nan''"
    using hd a(1) by (cases a) (auto simp: lower_def lower_char_def is_digit_def split: if_splits)
  have nr: "takeWhile is_digit r = []" "dropWhile is_digit r = r" using r by (auto simp: is_digit_def)
  have nf: "takeWhile is_digit (f @ r) = []" "dropWhile is_digit (f @ r) = f @ r" using f nr by auto
  have ip: "takeWhile is_digit ?u = a" "dropWhile is_digit ?u = f @ r"
    using da nf by (simp_all add: takeWhile_append2 dropWhile_append2)
  have fp: "takeWhile is_digit (b @ r) = b" "dropWhile is_digit (b @ r) = r"
    using db nr by (simp_all add: takeWhile_append2 dropWhile_append2)
  have ex: "exponent_of r = Some (1 / 10 ^ e)"
    using r by (auto simp: exponent_of_def lower_char_def is_digit_def undec_def digit_value_def)
  have tail: "(case f @ r of [] \<Rightarrow> ([], []) | c # r' \<Rightarrow> if c = CHR ''.'' then (takeWhile is_digit r', dropWhile is_digit r') else ([], f @ r))
      = (b, r)"
    using f r fp by auto
  show ?thesis
    unfolding py_float_def strip sg Let_def prod.case ip tail using nan a(1) by (simp add: ex)
qed

lemma py_float_repr_nonneg:
  assumes "0 \<le> x"
  shows "py_float (repr_nonneg x) = Some (Fl (py_round 6 x))"
proof -
  define m where "m = nat (half_even (x * 10 ^ 6))"
  note repr = repr_nonneg_def [of x, folded m_def, unfolded Let_def]
  have dg: "digit 5 = CHR ''5''" "digit 6 = CHR ''6''" by code_simp+
  have "0 \<le> half_even (x * 10 ^ 6)" using half_even_mono [of 0 "x * 10 ^ 6"] half_even_of_int [of 0] assms by simp
  then have val: "py_round 6 x = real m / 10 ^ 6" by (simp add: py_round_def m_def)
  have md: "real (m div n) + real (m mod n) / real n = real m / real n" if "0 < n" for n
  proof -
    have "m = n * (m div n) + m mod n" by simp
    then have "real m = real n * real (m div n) + real (m mod n)" by (metis of_nat_add of_nat_mult)
    with that show ?thesis by (simp add: add_divide_distrib)
  qed
  consider (tiny) "0 < m" "m < 10" | (small) "0 < m" "10 \<le> m" "m < 100" | (fixed) "m = 0 \<or> 100 \<le> m" by linarith
  then show ?thesis
  proof cases
    case tiny
    then have s: "repr_nonneg x = dec m @ [] @ ''e-0'' @ [digit 6]"
      by (simp add: repr dg)
    show ?thesis unfolding s val by (subst py_float_literal [where b = "[]" and e = 6]) (simp_all add: dec_digits)
  next
    case small
    show ?thesis
    proof (cases "m mod 10 = 0")
      case True
      then have s: "repr_nonneg x = dec (m div 10) @ [] @ ''e-0'' @ [digit 5]"
        using small by (simp add: repr dg)
      show ?thesis unfolding s val using md [of 10] True
        by (subst py_float_literal [where b = "[]" and e = 5]) (simp_all add: dec_digits)
    next
      case False
      then have s: "repr_nonneg x = dec (m div 10) @ (CHR ''.'' # dec (m mod 10)) @ ''e-0'' @ [digit 5]"
        using small by (simp add: repr dg)
      have l: "length (dec (m mod 10)) = 1" by (subst dec.simps) simp
      show ?thesis unfolding s val using md [of 10]
        by (subst py_float_literal [where b = "dec (m mod 10)" and e = 5]) (simp_all add: dec_digits l)
    qed
  next
    case fixed
    let ?b = "strip_zeros (dec_pad 6 m)"
    have s: "repr_nonneg x = dec (m div 10 ^ 6) @ (CHR ''.'' # ?b) @ []"
      using fixed by (auto simp: repr)
    have "real (undec ?b) / 10 ^ length ?b = real (m mod 10 ^ 6) / 10 ^ 6"
      unfolding strip_zeros_value by (simp add: undec_dec_pad)
    then show ?thesis unfolding s val using md [of "10 ^ 6"] strip_zeros_digits [OF dec_pad_digits [of 6 m]]
      by (subst py_float_literal [where b = ?b and e = 0]) (simp_all add: dec_digits)
  qed
qed

lemma py_float_repr: "0 \<le> x \<Longrightarrow> py_float (float_repr x) = Some (Fl (py_round 6 x))"
  by (simp add: float_repr_def py_float_repr_nonneg)

lemma py_round_twice:
  assumes "nd \<le> nd'"
  shows "py_round nd' (py_round nd x) = py_round nd x"
proof -
  define h where "h = half_even (x * 10 ^ nd)"
  have ten: "(10 :: real) ^ nd' = 10 ^ (nd' - nd) * 10 ^ nd" using assms by (simp flip: power_add)
  have r: "py_round nd x = of_int h / 10 ^ nd" by (simp add: py_round_def h_def)
  have six: "py_round nd x * 10 ^ nd' = of_int (h * 10 ^ (nd' - nd))" unfolding r ten by simp
  have "py_round nd' (py_round nd x) = of_int (h * 10 ^ (nd' - nd)) / 10 ^ nd'"
    unfolding py_round_def [of nd'] six half_even_of_int ..
  also have "\<dots> = of_int h / 10 ^ nd" unfolding ten by simp
  finally show ?thesis unfolding r .
qed

lemma py_float_repr_rounded:
  assumes "0 \<le> x" and "nd \<le> 6"
  shows "py_float (float_repr (py_round nd x)) = Some (Fl (py_round nd x))"
  using py_float_repr [of "py_round nd x"] py_round_mono [OF assms(1), of nd] py_round_twice [OF assms(2)] by simp

end
