(* ===== verification/Nano_Run.thy ===== *)
theory Nano_Run
  imports Sampler Chaos Py_Csv
begin

text \<open>
  A whole run of the experiment, \<^verbatim>\<open>main\<close> of \<^verbatim>\<open>research/replica_recall/run_experiment.py\<close>: checking
  the arguments, start-up, sampling, the fault protocol, the three result files and the teardown.
  Threads appear through the loops they run; the clock, the answers of the replicas, the random
  draws and what the writer threads do between two sweeps are inputs. \<^verbatim>\<open>KeyboardInterrupt\<close> is modelled
  where the code waits for it, in the sleeps of the fault protocol.
\<close>

section \<open>Arguments\<close>

record nargs =
  na_duration :: int
  na_writers :: nat
  na_queries :: nat
  na_k :: nat
  na_sample_interval :: real
  na_settle_s :: real
  na_warmup_s :: real
  na_metric :: string
  na_dist :: string
  na_sift_dir :: "string option"
  na_sift_vectors :: nat
  na_seed :: int
  na_no_chaos :: bool
  na_chaos_duration :: "int option"
  na_pre_chaos_s :: real
  na_loo_query_mode :: string
  na_loo_queries :: "nat option"
  na_loo_pool_size :: nat

definition nargs_default :: nargs where
  "nargs_default = \<lparr>na_duration = 180, na_writers = 4, na_queries = 100, na_k = 10, na_sample_interval = 5, na_settle_s = 2,
     na_warmup_s = 20, na_metric = ''l2'', na_dist = ''uniform'', na_sift_dir = None, na_sift_vectors = 200000,
     na_seed = 20260808, na_no_chaos = False, na_chaos_duration = None, na_pre_chaos_s = 30,
     na_loo_query_mode = ''pinned'', na_loo_queries = None, na_loo_pool_size = 3000\<rparr>"

text \<open>The queries drawn for the agreement metrics in each round; \<open>None\<close> when they are the pinned ones.\<close>

definition loo_n_of :: "nargs \<Rightarrow> nat" where
  "loo_n_of args = (case na_loo_queries args of Some n \<Rightarrow> n | None \<Rightarrow> na_queries args)"

definition loo_queries_n :: "nargs \<Rightarrow> nat option" where
  "loo_queries_n args = (if na_loo_query_mode args = ''nonpinned'' then Some (loo_n_of args) else None)"

text \<open>The status of a run that is refused.\<close>

definition n_validate :: "bool \<Rightarrow> nargs \<Rightarrow> int option" where
  "n_validate binaries args =
     (if na_chaos_duration args \<noteq> None \<and> na_no_chaos args then Some 1
      else if na_loo_query_mode args = ''nonpinned'' \<and> na_dist args = ''sift'' \<and> na_loo_pool_size args < loo_n_of args then Some 1
      else if na_loo_query_mode args = ''nonpinned'' \<and> na_dist args = ''sift'' \<and> 10000 < na_queries args + na_loo_pool_size args
      then Some 1
      else if \<not> binaries then Some 1
      else None)"

section \<open>The fault protocol\<close>

record nprotocol =
  np_start_rel :: "real option"
  np_stop_rel :: "real option"
  np_events :: "chaos_event list"

text \<open>\<open>ne_interrupt\<close> numbers the sleep that a keyboard interrupt ends; the run then goes on to its files.\<close>

record nprotocol_env =
  ne_interrupt :: "nat option"
  ne_chaos_start :: real
  ne_chaos_stop :: real
  ne_chaos_rounds :: "chaos_round list"
  ne_revive :: "string \<Rightarrow> bool"

definition n_fault_protocol ::
  "nargs \<Rightarrow> real \<Rightarrow> nprotocol_env \<Rightarrow> (string, mproc) dict \<Rightarrow> nprotocol stage \<times> (string, mproc) dict" where
  "n_fault_protocol args t_start env procs =
     (let start_rel = Some (ne_chaos_start env - t_start); stop_rel = Some (ne_chaos_stop env - t_start);
          quiet = \<lparr>np_start_rel = None, np_stop_rel = None, np_events = []\<rparr>;
          (procs1, events) = chaos_loop (ne_chaos_rounds env) (procs, [])
      in if na_no_chaos args then (Go quiet, procs)
         else case na_chaos_duration args of
           None \<Rightarrow>
             (Go \<lparr>np_start_rel = start_rel, np_stop_rel = (if ne_interrupt env = Some 0 then None else stop_rel),
                 np_events = events\<rparr>, procs1)
         | Some chaos_s \<Rightarrow>
             if real_of_int (na_duration args) - na_pre_chaos_s args - real_of_int chaos_s \<le> 0 then (Exit 1, kill_all procs)
             else if ne_interrupt env = Some 0 then (Go quiet, procs)
             else if ne_interrupt env = Some 1
             then (Go \<lparr>np_start_rel = start_rel, np_stop_rel = None, np_events = events\<rparr>, procs1)
             else (Go \<lparr>np_start_rel = start_rel, np_stop_rel = stop_rel, np_events = events\<rparr>,
                   fst (revive_dead (ne_revive env) procs1)))"

section \<open>The sample file\<close>

text \<open>The dictionary of one row, as the sampler builds it.\<close>

definition recall_text :: "real option \<Rightarrow> pycell" where
  "recall_text x = (case x of None \<Rightarrow> CStr [] | Some v \<Rightarrow> CStr (show_fixed 6 v))"

definition rounded_cell :: "real option \<Rightarrow> pycell" where
  "rounded_cell x = (case x of None \<Rightarrow> CStr [] | Some v \<Rightarrow> CFloat v)"

definition sample_dict :: "sample_row \<Rightarrow> (string, pycell) dict" where
  "sample_dict r =
     [(''t'', CFloat (s_t r)), (''shard'', CInt (s_shard r)), (''replica'', CInt (s_replica r)), (''name'', CStr (s_name r)),
      (''reachable'', CInt (if s_reachable r then 1 else 0)), (''index_recall'', recall_text (s_index_recall r)),
      (''e2e_recall'', recall_text (s_e2e_recall r)), (''completeness'', recall_text (s_completeness r)),
      (''n_local'', case s_n_local r of None \<Rightarrow> CStr [] | Some n \<Rightarrow> CInt n), (''n_intended'', CInt (s_n_intended r)),
      (''shard_agreement'', rounded_cell (s_shard_agreement r)), (''loo_agreement'', rounded_cell (s_loo_agreement r)),
      (''n_confirmed_settled'', CInt (s_n_confirmed_settled r))] @
     (if s_reachable r then [(''probe_s'', rounded_cell (s_probe_s r)), (''score_s'', rounded_cell (s_score_s r))] else [])"

definition SAMPLE_COLS :: "string list" where
  "SAMPLE_COLS = [''t_rel'', ''shard'', ''replica'', ''name'', ''reachable'', ''index_recall'', ''e2e_recall'', ''completeness'',
     ''n_local'', ''n_intended'', ''shard_agreement'', ''loo_agreement'', ''n_confirmed_settled'', ''probe_s'', ''score_s'']"

text \<open>Columns the sampler emits beyond the canonical ones are appended in order.\<close>

definition extra_cols :: "(string, pycell) dict list \<Rightarrow> string list" where
  "extra_cols ds = sorted_list_of_set (\<Union> (set (map (\<lambda>d. set (map fst d)) ds)) - set SAMPLE_COLS - {''t''})"

definition rel_dict :: "real \<Rightarrow> sample_row \<Rightarrow> (string, pycell) dict" where
  "rel_dict t_start r = dict_set ''t_rel'' (CFloat (py_round 3 (s_t r - t_start))) (dict_del ''t'' (sample_dict r))"

definition samples_csv :: "real \<Rightarrow> sample_row list \<Rightarrow> string res" where
  "samples_csv t_start rows = dict_writer (SAMPLE_COLS @ extra_cols (map sample_dict rows)) (map (rel_dict t_start) rows)"

section \<open>The other files\<close>

text \<open>The metadata; \<open>nm_args\<close> stands for the arguments it repeats.\<close>

record nmeta =
  nm_args :: nargs
  nm_sift_vectors :: "nat option"
  nm_corpus_exhausted :: bool
  nm_chaos :: bool
  nm_pre_chaos_s :: "real option"
  nm_chaos_start_rel :: "real option"
  nm_chaos_stop_rel :: "real option"
  nm_quiesce :: bool
  nm_num_shards :: nat
  nm_replicas_per_shard :: nat
  nm_vector_dim :: nat
  nm_samples :: nat
  nm_chaos_events :: nat
  nm_confirmed_total :: nat
  nm_write_attempted :: nat
  nm_write_failed :: nat
  nm_sampler_errors :: "pyerr list"
  nm_loo_queries :: "nat option"
  nm_loo_pool_size :: "nat option"
  nm_loo_pool_coverage :: "coverage option"

definition CH_VECTOR_DIM :: nat where
  "CH_VECTOR_DIM = 128"

definition n_meta :: "nargs \<Rightarrow> nprotocol \<Rightarrow> sample_row list \<Rightarrow> pyerr list \<Rightarrow> writer \<Rightarrow> nmeta" where
  "n_meta args pr rows errs w =
     \<lparr>nm_args = args, nm_sift_vectors = (if na_dist args = ''sift'' then Some (na_sift_vectors args) else None),
      nm_corpus_exhausted = exhausted w, nm_chaos = (\<not> na_no_chaos args),
      nm_pre_chaos_s = (case na_chaos_duration args of None \<Rightarrow> None | Some d \<Rightarrow> if d = 0 then None else Some (na_pre_chaos_s args)),
      nm_chaos_start_rel = map_option (py_round 3) (np_start_rel pr),
      nm_chaos_stop_rel = map_option (py_round 3) (np_stop_rel pr),
      nm_quiesce = (na_chaos_duration args \<noteq> None), nm_num_shards = NUM_SHARDS, nm_replicas_per_shard = REPLICAS_PER_SHARD,
      nm_vector_dim = CH_VECTOR_DIM, nm_samples = length rows, nm_chaos_events = length (np_events pr),
      nm_confirmed_total = length (vector_of w), nm_write_attempted = attempted w, nm_write_failed = failed w,
      nm_sampler_errors = take 20 errs, nm_loo_queries = loo_queries_n args,
      nm_loo_pool_size = (if na_loo_query_mode args = ''nonpinned'' then Some (na_loo_pool_size args) else None),
      nm_loo_pool_coverage = loo_pool_coverage w\<rparr>"

text \<open>
  A results directory: the files the program writes and the analysis reads. Text is kept for the
  sample file; the two JSON files are kept as the values they encode.
\<close>

record ndir =
  nd_samples :: "string option"
  nd_events :: "(chaos_event \<times> real) list option"
  nd_meta :: "nmeta option"

definition n_write_outputs :: "real \<Rightarrow> string \<Rightarrow> chaos_event list \<Rightarrow> nmeta \<Rightarrow> ndir \<Rightarrow> ndir" where
  "n_write_outputs t_start csv events meta files =
     files\<lparr>nd_samples := Some csv, nd_events := Some (map (\<lambda>e. (e, py_round 3 (ce_t e - t_start))) events), nd_meta := Some meta\<rparr>"

section \<open>The program\<close>

record nmain_env =
  nv_binaries :: bool
  nv_stubs :: "unit res"
  nv_proj :: "vec list"
  nv_sift :: "(vec list \<times> vec list) res"
  nv_perm :: "nat list"
  nv_choice :: "nat list \<Rightarrow> nat \<Rightarrow> nat list"
  nv_pool_choice :: "nat list \<Rightarrow> nat \<Rightarrow> nat list"
  nv_draws :: "draw list"
  nv_cluster :: cluster_env
  nv_t_start :: real
  nv_rounds :: "round list"
  nv_after :: "writer \<Rightarrow> writer"
  nv_protocol :: nprotocol_env

definition nano_probes :: "probe list" where
  "nano_probes = build_probes NUM_SHARDS REPLICAS_PER_SHARD shard_port ''127.0.0.1'' 2"

definition nano_prepare :: "nargs \<Rightarrow> nmain_env \<Rightarrow> (vec list \<times> writer) res" where
  "nano_prepare args env =
     bindE (writer_init CH_VECTOR_DIM (na_dist args) 12 (1 / 50) (nv_proj env) (nv_sift env) (nv_perm env)
              (na_loo_query_mode args) (na_loo_pool_size args))
       (\<lambda>w. make_queries (nv_choice env) (nv_pool_choice env) (nv_draws env) (na_queries args) w)"

text \<open>The sampler over the whole run: its rounds and what the writers do after the last of them.\<close>

definition nano_sampling :: "numpy \<Rightarrow> nargs \<Rightarrow> nmain_env \<Rightarrow> vec list \<Rightarrow> writer \<Rightarrow> writer \<times> sample_row list \<times> pyerr list" where
  "nano_sampling np args env queries w =
     (let (w', rows, errs) = sampler_loop np nano_probes queries (na_k args) (na_settle_s args) (na_metric args)
                               (loo_queries_n args) (nv_rounds env) w ([], [])
      in (nv_after env w', rows, errs))"

text \<open>The status, the results directory and the processes at exit.\<close>

definition nano_main :: "numpy \<Rightarrow> nargs \<Rightarrow> nmain_env \<Rightarrow> ndir \<Rightarrow> unit stage \<times> ndir \<times> (string, mproc) dict" where
  "nano_main np args env files =
     (case n_validate (nv_binaries env) args of
        Some c \<Rightarrow> (Exit c, files, [])
      | None \<Rightarrow>
          (case nv_stubs env of
             Inl e \<Rightarrow> (Crash e, files, [])
           | Inr _ \<Rightarrow>
               (case nano_prepare args env of
                  Inl e \<Rightarrow> (Crash e, files, [])
                | Inr (queries, w) \<Rightarrow>
                    (case start_cluster (nv_cluster env) build_processes of
                       (None, procs) \<Rightarrow> (Exit 1, files, procs)
                     | (Some leader, procs) \<Rightarrow>
                         (case n_fault_protocol args (nv_t_start env) (nv_protocol env) procs of
                            (Go pr, procs1) \<Rightarrow>
                              (let (w', rows, errs) = nano_sampling np args env queries w
                               in case samples_csv (nv_t_start env) rows of
                                    Inl e \<Rightarrow> (Crash e, files, procs1)
                                  | Inr csv \<Rightarrow>
                                      (Exit 0, n_write_outputs (nv_t_start env) csv (np_events pr) (n_meta args pr rows errs w') files,
                                       kill_all procs1))
                          | (Exit c, procs1) \<Rightarrow> (Exit c, files, procs1)
                          | (Crash e, procs1) \<Rightarrow> (Crash e, files, procs1)
                          | (Waiting, procs1) \<Rightarrow> (Waiting, files, procs1))))))"

section \<open>The sample file is always written\<close>

lemma sample_dict_keys: "set (map fst (sample_dict r)) \<subseteq> insert ''t'' (set SAMPLE_COLS)"
  by (auto simp: sample_dict_def SAMPLE_COLS_def)

lemma extra_cols_none: "extra_cols (map sample_dict rows) = []"
proof -
  have "\<Union> (set (map (\<lambda>d. set (map fst d)) (map sample_dict rows))) - set SAMPLE_COLS - {''t''} = {}"
    using sample_dict_keys by auto
  then show ?thesis by (simp only: extra_cols_def sorted_list_of_set_empty)
qed

lemma rel_dict_keys: "set (map fst (rel_dict t r)) \<subseteq> set SAMPLE_COLS"
proof -
  have "set (map fst (dict_del ''t'' (sample_dict r))) \<subseteq> set SAMPLE_COLS"
    using sample_dict_keys [of r] by (auto simp: dict_del_def)
  moreover have "''t_rel'' \<in> set SAMPLE_COLS" by (simp add: SAMPLE_COLS_def)
  ultimately show ?thesis by (simp add: rel_dict_def keys_dict_set)
qed

text \<open>The row a reader of the file gets for a sample.\<close>

definition csv_of :: "real \<Rightarrow> sample_row \<Rightarrow> (string, string) dict" where
  "csv_of t_start r = map (\<lambda>c. (c, cell_text (dict_get (rel_dict t_start r) c (CStr [])))) SAMPLE_COLS"

lemma samples_csv_reads:
  "\<exists>text. samples_csv t_start rows = Inr text \<and> dict_reader text = map (csv_of t_start) rows"
proof -
  have "SAMPLE_COLS \<noteq> []" "distinct SAMPLE_COLS" by (simp_all add: SAMPLE_COLS_def)
  moreover have "\<forall>d \<in> set (map (rel_dict t_start) rows). \<forall>(key, v) \<in> set d. key \<in> set SAMPLE_COLS"
    using rel_dict_keys by fastforce
  ultimately show ?thesis
    using dict_writer_reader [of SAMPLE_COLS "map (rel_dict t_start) rows"]
    unfolding samples_csv_def extra_cols_none append_Nil2 by (simp add: csv_of_def [abs_def] comp_def)
qed

section \<open>Teardown\<close>

lemma n_fault_protocol_ends:
  "(\<exists>pr procs1. n_fault_protocol args t env procs = (Go pr, procs1)) \<or>
   n_fault_protocol args t env procs = (Exit 1, kill_all procs)"
  by (auto simp: n_fault_protocol_def Let_def case_prod_unfold split: option.splits)

text \<open>A program that got as far as its cluster, and how it can end.\<close>

definition launched :: "nargs \<Rightarrow> nmain_env \<Rightarrow> bool" where
  "launched args env \<longleftrightarrow> n_validate (nv_binaries env) args = None \<and> nv_stubs env = Inr () \<and>
     (\<exists>qw. nano_prepare args env = Inr qw)"

lemma nano_main_cases:
  assumes "nano_main np args env files = (o', files', procs)"
  obtains (refused) "\<not> launched args env" "files' = files" "procs = []" "o' \<noteq> Exit 0"
  | (down) "launched args env" "start_cluster (nv_cluster env) build_processes = (None, procs)" "files' = files" "o' = Exit 1"
  | (short) leader procs0 where "launched args env" "start_cluster (nv_cluster env) build_processes = (Some leader, procs0)"
      "n_fault_protocol args (nv_t_start env) (nv_protocol env) procs0 = (Exit 1, kill_all procs0)"
      "procs = kill_all procs0" "files' = files" "o' = Exit 1"
  | (complete) queries w leader procs0 pr procs1 w' rows errs csv where "launched args env"
      "nano_prepare args env = Inr (queries, w)"
      "start_cluster (nv_cluster env) build_processes = (Some leader, procs0)"
      "n_fault_protocol args (nv_t_start env) (nv_protocol env) procs0 = (Go pr, procs1)"
      "nano_sampling np args env queries w = (w', rows, errs)" "samples_csv (nv_t_start env) rows = Inr csv"
      "dict_reader csv = map (csv_of (nv_t_start env)) rows"
      "files' = n_write_outputs (nv_t_start env) csv (np_events pr) (n_meta args pr rows errs w') files"
      "procs = kill_all procs1" "o' = Exit 0"
proof (cases "launched args env")
  case False
  have "n_validate b args \<noteq> Some 0" for b by (simp add: n_validate_def)
  with False assms show thesis
    by (intro refused) (auto simp: nano_main_def launched_def split: option.splits sum.splits)
next
  case True
  then obtain queries w where q: "n_validate (nv_binaries env) args = None" "nv_stubs env = Inr ()"
    "nano_prepare args env = Inr (queries, w)" by (auto simp: launched_def)
  obtain l procs0 where l: "start_cluster (nv_cluster env) build_processes = (l, procs0)" by fastforce
  show thesis
  proof (cases l)
    case None
    with q l assms True show thesis by (intro down) (simp_all add: nano_main_def)
  next
    case (Some leader)
    obtain w' rows errs where sa: "nano_sampling np args env queries w = (w', rows, errs)" by (metis prod_cases3)
    obtain csv where csv: "samples_csv (nv_t_start env) rows = Inr csv" "dict_reader csv = map (csv_of (nv_t_start env)) rows"
      using samples_csv_reads by blast
    from n_fault_protocol_ends [of args "nv_t_start env" "nv_protocol env" procs0] show thesis
    proof (elim disjE exE)
      fix pr procs1
      assume "n_fault_protocol args (nv_t_start env) (nv_protocol env) procs0 = (Go pr, procs1)"
      with q l Some sa csv assms True show thesis by (intro complete) (auto simp: nano_main_def)
    next
      assume "n_fault_protocol args (nv_t_start env) (nv_protocol env) procs0 = (Exit 1, kill_all procs0)"
      with q l Some assms True show thesis by (intro short) (auto simp: nano_main_def)
    qed
  qed
qed


end
