(* ===== verification/Peer_Agreement.thy ===== *)
theory Peer_Agreement
  imports Recall_Metrics
begin

text \<open>
  What the ground-truth-free signals of \<^verbatim>\<open>metrics.py\<close> can and cannot tell: leave-one-out agreement
  singles out a replica that answers differently from its unanimous peers, and the relation the
  module documentation claims between end-to-end recall, index recall and completeness fails.
\<close>

section \<open>Overlap of two answers\<close>

lemma overlap_commute: "overlap k a b = overlap k b a"
  by (simp add: overlap_def Let_def Int_commute max.commute)

lemma overlap_bounds:
  assumes "set (take k b) \<noteq> {}"
  shows "0 \<le> overlap k a b" "overlap k a b \<le> 1"
    and "overlap k a b = 1 \<longleftrightarrow> set (take k a) = set (take k b)"
proof -
  let ?a = "set (take k a)" and ?b = "set (take k b)"
  let ?m = "max (card ?a) (card ?b)"
  have fin: "finite ?a" "finite ?b" by simp_all
  have "0 < card ?b" using assms fin(2) by (simp only: card_gt_0_iff) simp
  then have pos: "0 < ?m" by simp
  have le: "card (?a \<inter> ?b) \<le> card ?a" "card (?a \<inter> ?b) \<le> card ?b"
    by (simp_all add: card_mono)
  have val: "overlap k a b = real (card (?a \<inter> ?b)) / real ?m" by (simp add: overlap_def Let_def)
  show "0 \<le> overlap k a b" by (simp add: val)
  show "overlap k a b \<le> 1" using pos le by (simp add: val)
  have "overlap k a b = 1 \<longleftrightarrow> card (?a \<inter> ?b) = ?m" using pos by (auto simp: val)
  also have "\<dots> \<longleftrightarrow> card (?a \<inter> ?b) = card ?a \<and> card (?a \<inter> ?b) = card ?b" using le by auto
  also have "\<dots> \<longleftrightarrow> ?a = ?b"
    using card_subset_eq [OF fin(1), of "?a \<inter> ?b"] card_subset_eq [OF fin(2), of "?a \<inter> ?b"] by auto
  finally show "overlap k a b = 1 \<longleftrightarrow> ?a = ?b" .
qed

text \<open>All answers of a replica hold at least one id.\<close>

definition answered :: "nat \<Rightarrow> ident list list \<Rightarrow> bool" where
  "answered k as \<longleftrightarrow> 0 < k \<and> list_all (\<lambda>a. a \<noteq> []) as"

lemma pair_scores_answered:
  assumes "answered k xs \<or> answered k ys"
  shows "pair_scores k xs ys = map Fl (map2 (overlap k) xs ys)"
proof -
  have "\<not> (set (take k a) = {} \<and> set (take k b) = {})" if "(a, b) \<in> set (zip xs ys)" for a b
    using assms set_zip_leftD [OF that] set_zip_rightD [OF that] by (auto simp: answered_def list_all_iff)
  then have "concat (map (\<lambda>(a, b). if \<not> (set (take k a) = {} \<and> set (take k b) = {})
        then [Fl (overlap k a b)] else []) zs) = map (\<lambda>(a, b). Fl (overlap k a b)) zs"
    if "set zs \<subseteq> set (zip xs ys)" for zs
    using that by (induction zs) auto
  then show ?thesis by (simp add: pair_scores_def case_prod_unfold comp_def)
qed

lemma map2_commute: "(\<And>a b. f a b = f b a) \<Longrightarrow> map2 f xs ys = map2 f ys xs"
  by (induction xs ys rule: list_induct2') auto

section \<open>One divergent replica among unanimous peers\<close>

text \<open>
  \<open>obs\<close> is what every replica of a shard answered: all but \<open>bad\<close> gave the answers \<open>good\<close>, and
  \<open>bad\<close> gave as many answers, at least one of them with a different top-\<open>k\<close>.
\<close>

definition one_divergent :: "(ident, ident list list) dict \<Rightarrow> nat \<Rightarrow> ident \<Rightarrow> ident list list \<Rightarrow> bool" where
  "one_divergent obs k bad good \<longleftrightarrow>
     3 \<le> length obs \<and> distinct (map fst obs) \<and> bad \<in> set (map fst obs) \<and> answered k good \<and>
     list_all (\<lambda>(m, a). m \<noteq> bad \<longrightarrow> a = good) obs \<and>
     length (dict_get obs bad []) = length good \<and>
     list_ex (\<lambda>(a, b). set (take k a) \<noteq> set (take k b)) (zip (dict_get obs bad []) good)"

lemma dict_get_good:
  assumes "one_divergent obs k bad good" and "m \<in> set (map fst obs)" and "m \<noteq> bad"
  shows "dict_get obs m [] = good"
proof -
  obtain a where a: "map_of obs m = Some a" using assms(2) by (auto dest: weak_map_of_SomeI)
  then have "a = good"
    using assms map_of_SomeD [OF a] by (auto simp: one_divergent_def list_all_iff)
  with a show ?thesis by (simp add: dict_get_def)
qed

text \<open>The total overlap of the divergent replica with one peer, and of two good ones.\<close>

lemma divergent_total:
  assumes "one_divergent obs k bad good"
  shows "sum_list (map2 (overlap k) (dict_get obs bad []) good) < real (length good)"
proof -
  let ?v = "map2 (overlap k) (dict_get obs bad []) good"
  have len: "length (dict_get obs bad []) = length good" and ans: "answered k good"
    using assms by (auto simp: one_divergent_def)
  have ne: "set (take k b) \<noteq> {}" if "b \<in> set good" for b
    using ans that by (auto simp: answered_def list_all_iff)
  have le: "x \<le> 1" if "x \<in> set ?v" for x
    using that overlap_bounds(2) [OF ne] by (auto dest: set_zip_rightD)
  obtain a b where ab: "(a, b) \<in> set (zip (dict_get obs bad []) good)" "set (take k a) \<noteq> set (take k b)"
    using assms by (auto simp: one_divergent_def list_ex_iff)
  have "overlap k a b \<noteq> 1" using overlap_bounds(3) [OF ne, of b a] ab set_zip_rightD [OF ab(1)] by auto
  moreover have "overlap k a b \<in> set ?v" using ab(1) by force
  ultimately have not1: "\<not> (\<forall>x \<in> set ?v. x = 1)" by blast
  have pos: "?v \<noteq> []" using ab(1) by (cases "zip (dict_get obs bad []) good") auto
  have "mean ?v \<le> 1" using mean_bounds(2) [OF pos, of "Min (set ?v)" 1] le by simp
  moreover have "mean ?v \<noteq> 1" using mean_eq_upper_iff [OF pos le] not1 by blast
  ultimately have "mean ?v < 1" by simp
  moreover have "length ?v = length good" using len by simp
  ultimately show ?thesis using pos by (simp add: mean_def divide_less_eq split: if_splits)
qed

lemma good_total:
  assumes "answered k good"
  shows "sum_list (map2 (overlap k) good good) = real (length good)"
proof -
  have "map2 (overlap k) good good = map (\<lambda>_. 1) good"
    using assms overlap_bounds(3) [of k] by (auto simp: zip_same_conv_map answered_def list_all_iff)
  then show ?thesis by (simp add: sum_list_triv)
qed

lemma loo_scores_answered:
  assumes "one_divergent obs k bad good" and x: "x \<in> set (map fst obs)"
    and names: "set names = set (map fst obs)"
  shows "loo_scores obs k names x =
     map Fl (concat (map (\<lambda>m. map2 (overlap k) (dict_get obs x []) (dict_get obs m [])) (filter (\<lambda>m. m \<noteq> x) names)))"
proof -
  have ans: "answered k good" using assms by (simp add: one_divergent_def)
  have "answered k (dict_get obs x []) \<or> answered k (dict_get obs m [])" if "m \<in> set (map fst obs)" "m \<noteq> x" for m
    using dict_get_good [OF assms(1)] that x ans by (cases "x = bad") auto
  then have "pair_scores k (dict_get obs x []) (dict_get obs m []) =
      map Fl (map2 (overlap k) (dict_get obs x []) (dict_get obs m []))"
    if "m \<in> set (map fst obs)" "m \<noteq> x" for m
    using that by (intro pair_scores_answered) auto
  then have "concat (map (\<lambda>m. if m \<noteq> x then [pair_scores k (dict_get obs x []) (dict_get obs m [])] else []) ms) =
      map (\<lambda>m. map Fl (map2 (overlap k) (dict_get obs x []) (dict_get obs m []))) (filter (\<lambda>m. m \<noteq> x) ms)"
    if "set ms \<subseteq> set (map fst obs)" for ms
    using that by (induction ms) auto
  from this [of names] names show ?thesis
    by (simp add: loo_scores_def map_concat comp_def)
qed

text \<open>The score of the divergent replica and of a good one, in terms of the overlap \<open>S\<close> between them.\<close>

lemma loo_value:
  assumes div: "one_divergent obs k bad good" and "numpy_api np" and x: "x \<in> set (map fst obs)"
  defines "S \<equiv> sum_list (map2 (overlap k) (dict_get obs bad []) good)"
  shows "map_of (leave_one_out_agreement np obs k) x =
     Some (Fl ((if x = bad then real (length obs - 1) * S else real (length obs - 2) * real (length good) + S)
               / (real (length obs - 1) * real (length good))))"
proof -
  let ?names = "sort (map fst obs)" and ?A = "\<lambda>m. dict_get obs m []"
  let ?others = "filter (\<lambda>m. m \<noteq> x) ?names"
  let ?vals = "concat (map (\<lambda>m. map2 (overlap k) (?A x) (?A m)) ?others)"
  have d: "distinct (map fst obs)" "3 \<le> length obs" "bad \<in> set (map fst obs)" "answered k good"
    "length (?A bad) = length good"
    using div by (auto simp: one_divergent_def)
  note good = dict_get_good [OF div]
  have bad_sym: "sum_list (map2 (overlap k) good (?A bad)) = S"
    unfolding S_def using map2_commute [of "overlap k" good "?A bad", OF overlap_commute] by simp
  have pair: "sum_list (map2 (overlap k) (?A x) (?A m)) =
      (if x = bad \<or> m = bad then S else real (length good))" if "m \<in> set ?others" for m
    using that x good [of m] good [of x] bad_sym good_total [OF d(4)] by (auto simp: S_def)
  have alen: "length (?A m) = length good" if "m \<in> set (map fst obs)" for m
    using that good [of m] d(5) by (cases "m = bad") auto
  have others: "set ?others = set (map fst obs) - {x}" by auto
  have card_others: "card (set ?others) = length obs - 1"
    using d(1) x by (simp only: others card_Diff_singleton distinct_card length_map)
  have dist: "distinct ?others" using d(1) by simp
  have "sum_list ?vals = (\<Sum>m\<leftarrow>?others. sum_list (map2 (overlap k) (?A x) (?A m)))"
    by (simp add: sum_list_concat comp_def)
  also have "\<dots> = (\<Sum>m\<in>set ?others. if x = bad \<or> m = bad then S else real (length good))"
    unfolding sum_list_distinct_conv_sum_set [OF dist] by (rule sum.cong [OF refl pair])
  also have "\<dots> = (if x = bad then real (length obs - 1) * S
       else real (length obs - 2) * real (length good) + S)"
  proof (cases "x = bad")
    case True
    then have "(\<Sum>m\<in>set ?others. if x = bad \<or> m = bad then S else real (length good)) = (\<Sum>m\<in>set ?others. S)"
      by (intro sum.cong) auto
    also have "\<dots> = real (length obs - 1) * S" unfolding sum_constant card_others ..
    finally show ?thesis using True by simp
  next
    case False
    have bad: "bad \<in> set ?others" using d(3) False by auto
    have fin: "finite (set ?others)" by (rule finite_set)
    have "card (set ?others - {bad}) = length obs - 2"
      using bad by (simp only: card_Diff_singleton card_others)
    moreover have "(\<Sum>m\<in>set ?others - {bad}. if x = bad \<or> m = bad then S else real (length good)) =
        (\<Sum>m\<in>set ?others - {bad}. real (length good))"
      using False by (intro sum.cong) auto
    ultimately show ?thesis
      using False by (simp only: sum.remove [OF fin bad] sum_constant) simp
  qed
  finally have total: "sum_list ?vals = (if x = bad then real (length obs - 1) * S
       else real (length obs - 2) * real (length good) + S)" .
  have "length ?vals = (\<Sum>m\<leftarrow>?others. length good)"
    unfolding length_concat map_map comp_def using alen [OF x] alen
    by (intro arg_cong [where f = sum_list] map_cong refl) auto
  then have len: "length ?vals = (length obs - 1) * length good"
    using distinct_card [OF dist] card_others by (simp add: sum_list_triv)
  have "good \<noteq> []" using div by (cases good) (auto simp: one_divergent_def)
  then have "length ?vals \<noteq> 0" using len d(2) by simp
  then have ne: "?vals \<noteq> []" unfolding length_0_conv .
  have "loo_scores obs k ?names x = map Fl ?vals"
    by (rule loo_scores_answered [OF div x]) simp
  then have score: "(let scores = loo_scores obs k ?names x in if scores \<noteq> [] then np_mean np scores else NaN) =
      Fl (sum_list ?vals / real (length ?vals))"
    using ne by (simp only: Let_def numpy_api.mean [OF assms(2)] fmean_map_Fl mean_def map_is_Nil_conv simp_thms if_False if_True)
  have "map_of (leave_one_out_agreement np obs k) x =
      Some (let scores = loo_scores obs k ?names x in if scores \<noteq> [] then np_mean np scores else NaN)"
    using d(2) x by (simp add: leave_one_out_agreement_def Let_def map_of_map_restrict)
  then show ?thesis unfolding score total len by simp
qed

text \<open>
  C6. The detector: among at least three replicas that answer every query, let all but \<open>bad\<close>
  agree and let \<open>bad\<close> differ from them on at least one query. Then \<^verbatim>\<open>leave_one_out_agreement\<close>
  gives every replica a number and \<open>bad\<close> strictly the lowest one, so ranking replicas by it
  points at the divergent replica without any ground truth.
\<close>

theorem loo_singles_out_divergent:
  assumes "numpy_api np" and "one_divergent obs k bad good"
    and "m \<in> set (map fst obs)" and "m \<noteq> bad"
  shows "\<exists>s t. map_of (leave_one_out_agreement np obs k) bad = Some (Fl s) \<and>
    map_of (leave_one_out_agreement np obs k) m = Some (Fl t) \<and> s < t"
proof -
  let ?S = "sum_list (map2 (overlap k) (dict_get obs bad []) good)"
  let ?n = "length obs" and ?q = "length good"
  have n: "3 \<le> ?n" and bad: "bad \<in> set (map fst obs)" using assms(2) by (auto simp: one_divergent_def)
  have S: "?S < real ?q" by (rule divergent_total [OF assms(2)])
  have q: "0 < real ?q" using assms(2) by (cases good) (auto simp: one_divergent_def)
  have "real (?n - 1) * ?S = real (?n - 2) * ?S + ?S"
    using n by (simp add: of_nat_diff algebra_simps)
  moreover have "real (?n - 2) * ?S < real (?n - 2) * real ?q"
    using S n by simp
  ultimately have "real (?n - 1) * ?S < real (?n - 2) * real ?q + ?S" by linarith
  moreover have "0 < real (?n - 1) * real ?q" using q n by simp
  ultimately have "real (?n - 1) * ?S / (real (?n - 1) * real ?q) <
      (real (?n - 2) * real ?q + ?S) / (real (?n - 1) * real ?q)"
    by (rule divide_strict_right_mono)
  then show ?thesis
    using loo_value [OF assms(2,1) bad] loo_value [OF assms(2,1,3)] assms(4) by simp
qed

definition demo_obs :: "(ident, ident list list) dict" where
  "demo_obs = [(''r0'', [[''a''], [''b'']]), (''r1'', [[''a''], [''c'']]), (''r2'', [[''a''], [''b'']])]"

theorem loo_singles_out_divergent_witness:
  "one_divergent demo_obs 1 ''r1'' [[''a''], [''b'']] \<and>
   (\<exists>s t. map_of (leave_one_out_agreement numpy_ref demo_obs 1) ''r1'' = Some (Fl s) \<and>
      map_of (leave_one_out_agreement numpy_ref demo_obs 1) ''r0'' = Some (Fl t) \<and> s < t)"
proof -
  have div: "one_divergent demo_obs 1 ''r1'' [[''a''], [''b'']]" by code_simp
  show ?thesis
    using div loo_singles_out_divergent [OF npr.numpy_api_axioms div, of "''r0''"]
    by (simp add: demo_obs_def)
qed


end
