(* ===== verification/Analyze_Heal.thy ===== *)
theory Analyze_Heal
  imports Analyze
begin

text \<open>
  What the healing verdict, the spread and the size table of \<^verbatim>\<open>analyze.py\<close> depend on: the verdict
  is decided by counts of missing ids and never by completeness; a quiesce window shorter than
  30 seconds cannot yield a positive verdict; no scored row is lost by binning.
\<close>

section \<open>The healing verdict\<close>

definition quiesce_meta :: "real \<Rightarrow> real \<Rightarrow> run_meta \<Rightarrow> bool" where
  "quiesce_meta t0 t1 m \<longleftrightarrow> m_quiesce m \<and> m_chaos_start_rel m = Some t0 \<and> m_chaos_stop_rel m = Some t1"

lemma heal_stats_value:
  assumes "quiesce_meta t0 t1 m"
    and "find (\<lambda>p. 0 < ph_n p) (map (phase_summary np rows t0 t1) [Post60p, Post30_60, Post0_30]) = Some l"
    and "(if 0 < ph_n (phase_summary np rows t0 t1 Post0_30) then phase_summary np rows t0 t1 Post0_30 else l) = a"
    and "ph_missing (phase_summary np rows t0 t1 Pre) = Fl pre"
  shows "\<exists>h. heal_stats np rows (Some m) = Some h \<and>
    h_residual_missing h = fsub (ph_missing l) (Fl pre) \<and>
    h_healed h = (if flt_le (fsub (ph_missing a) (Fl pre)) (Fl (1 / 10 ^ 9)) then None
      else Some (flt_le (Fl 0.9) (if flt_lt (Fl (1 / 10 ^ 9)) (fsub (ph_missing a) (Fl pre))
         then fsub (Fl 1) (flift2 (/) (fsub (ph_missing l) (Fl pre)) (fsub (ph_missing a) (Fl pre))) else NaN)))"
  using assms unfolding heal_stats_def quiesce_meta_def
  by (cases "0 < ph_n (phase_summary np rows t0 t1 Post0_30)") (simp_all add: Let_def del: find.simps)


text \<open>
  A diluted run: five ids are missing right after the faults and five at the end, while the
  intended set doubles and completeness rises from 0.5 to 0.75.
\<close>

definition heal_sample :: "string \<Rightarrow> string \<Rightarrow> string \<Rightarrow> csv_row" where
  "heal_sample t c ni = [(''t_rel'', t), (''reachable'', ''1''), (''completeness'', c), (''n_intended'', ni)]"

lemma heal_cells:
  "reachable (heal_sample t c ni)" "cell (heal_sample t c ni) ''t_rel'' = t"
  "cell (heal_sample t c ni) ''completeness'' = c" "cell (heal_sample t c ni) ''n_intended'' = ni"
  "cell (heal_sample t c ni) ''e2e_recall'' = []"
  by (simp_all add: reachable_def cell_def dict_get_def heal_sample_def)

lemma heal_floats:
  "py_float ''1'' = Some (Fl 1)" "py_float ''10'' = Some (Fl 10)" "py_float ''20'' = Some (Fl 20)"
  "py_float ''25'' = Some (Fl 25)" "py_float ''90'' = Some (Fl 90)" "py_float ''0.5'' = Some (Fl (1 / 2))"
  "py_float ''0.75'' = Some (Fl (3 / 4))"
  by code_simp+

definition diluted_rows :: "csv_row list" where
  "diluted_rows = [heal_sample ''1'' ''1'' ''10'', heal_sample ''25'' ''0.5'' ''10'', heal_sample ''90'' ''0.75'' ''20'']"

definition demo_quiesce :: run_meta where
  "demo_quiesce = \<lparr>m_k = None, m_queries = None, m_quiesce = True, m_chaos_start_rel = Some 10, m_chaos_stop_rel = Some 20\<rparr>"

lemma diluted_phases:
  "ph_missing (phase_summary numpy_ref diluted_rows 10 20 Pre) = Fl 0"
  "ph_missing (phase_summary numpy_ref diluted_rows 10 20 Post0_30) = Fl 5"
  "ph_missing (phase_summary numpy_ref diluted_rows 10 20 Post60p) = Fl 5"
  "ph_completeness (phase_summary numpy_ref diluted_rows 10 20 Post0_30) = Fl (1 / 2)"
  "ph_completeness (phase_summary numpy_ref diluted_rows 10 20 Post60p) = Fl (3 / 4)"
  "ph_n (phase_summary numpy_ref diluted_rows 10 20 Post0_30) = 1"
  "ph_n (phase_summary numpy_ref diluted_rows 10 20 Post60p) = 1"
  by (simp_all add: phase_summary_def heal_rows_def diluted_rows_def f_cell_def heal_cells heal_floats
      phase_of_def missing_of_def nanmean_def fmean_def mean_def)

lemma demo_quiesce_meta: "quiesce_meta 10 20 demo_quiesce"
  by (simp add: quiesce_meta_def demo_quiesce_def)


text \<open>
  C15. A blind spot of the verdict: when no sample was taken later than 30 seconds after the
  faults stopped, the end state and the damage are the same phase, so the run is never judged
  healed, whatever the replicas recovered in that time.
\<close>

theorem short_quiesce_never_heals:
  assumes q: "quiesce_meta t0 t1 m"
    and "ph_n (phase_summary np rows t0 t1 Post30_60) = 0" and "ph_n (phase_summary np rows t0 t1 Post60p) = 0"
  shows "qheal_recovery np rows (Some m) \<noteq> Some Heals"
proof -
  let ?s = "phase_summary np rows t0 t1"
  have "h_healed h \<noteq> Some True" if h: "heal_stats np rows (Some m) = Some h" for h
  proof (cases "0 < ph_n (?s Post0_30)")
    case False
    then show ?thesis using h assms by (auto simp: heal_stats_def quiesce_meta_def Let_def)
  next
    case True
    show ?thesis
    proof (cases "ph_missing (?s Pre)")
      case NaN
      then show ?thesis using h assms True by (auto simp: heal_stats_def quiesce_meta_def Let_def)
    next
      case (Fl pre)
      have "find (\<lambda>p. 0 < ph_n p) (map ?s [Post60p, Post30_60, Post0_30]) = Some (?s Post0_30)"
        using True assms(2,3) by simp
      from heal_stats_value [OF q this _ Fl, of "?s Post0_30"] True h
      show ?thesis by (cases "ph_missing (?s Post0_30)") auto
    qed
  qed
  then show ?thesis by (auto simp: qheal_recovery_def split: option.splits bool.splits)
qed

text \<open>Half of the ids are missing at the stop, none five seconds later.\<close>

definition quick_recovery_rows :: "csv_row list" where
  "quick_recovery_rows = [heal_sample ''1'' ''1'' ''10'', heal_sample ''20'' ''0.5'' ''10'', heal_sample ''25'' ''1'' ''10'']"

theorem short_quiesce_never_heals_witness:
  "ph_n (phase_summary numpy_ref quick_recovery_rows 10 20 Post0_30) = 2 \<and>
   qheal_recovery numpy_ref quick_recovery_rows (Some demo_quiesce) \<noteq> Some Heals"
proof -
  have n: "ph_n (phase_summary numpy_ref quick_recovery_rows 10 20 Post30_60) = 0"
    "ph_n (phase_summary numpy_ref quick_recovery_rows 10 20 Post60p) = 0"
    "ph_n (phase_summary numpy_ref quick_recovery_rows 10 20 Post0_30) = 2"
    by (simp_all add: phase_summary_def heal_rows_def quick_recovery_rows_def f_cell_def heal_cells heal_floats phase_of_def)
  show ?thesis using n(3) short_quiesce_never_heals [OF demo_quiesce_meta n(1,2)] by simp
qed

section \<open>Spread within a shard\<close>

lemma spread_value:
  assumes "vals \<noteq> ([] :: real list)"
  shows "0 \<le> Max (set vals) - Min (set vals)"
    and "Max (set vals) - Min (set vals) = 0 \<longleftrightarrow> (\<forall>x \<in> set vals. \<forall>y \<in> set vals. x = y)"
proof -
  have ne: "finite (set vals)" "set vals \<noteq> {}" using assms by auto
  have bounds: "Min (set vals) \<le> x" "x \<le> Max (set vals)" if "x \<in> set vals" for x
    using that by auto
  have mem: "Min (set vals) \<in> set vals" "Max (set vals) \<in> set vals" using ne by auto
  show "0 \<le> Max (set vals) - Min (set vals)" using bounds(2) [OF mem(1)] by simp
  show "Max (set vals) - Min (set vals) = 0 \<longleftrightarrow> (\<forall>x \<in> set vals. \<forall>y \<in> set vals. x = y)"
  proof
    assume "Max (set vals) - Min (set vals) = 0"
    then show "\<forall>x \<in> set vals. \<forall>y \<in> set vals. x = y" using bounds by (metis eq_iff_diff_eq_0 order_antisym order_trans)
  qed (use mem in auto)
qed

text \<open>
  Spread means disagreement: Q1 reports one spread per instant at which at least two
  reachable replicas of a shard were scored, each spread is non-negative, and all spreads are 0
  exactly when at every such instant all scored replicas of the shard had the same recall.
\<close>

theorem spread_iff_disagreement:
  "length (fst (intra_shard_spreads rows)) = length (filter (\<lambda>vals. 2 \<le> length vals) (map snd (instants rows))) \<and>
   list_all (\<lambda>s. 0 \<le> s) (fst (intra_shard_spreads rows)) \<and>
   (list_all (\<lambda>s. s = 0) (fst (intra_shard_spreads rows)) \<longleftrightarrow>
     list_all (\<lambda>vals. list_all (\<lambda>v. v = hd vals) vals) (map snd (instants rows)))"
proof -
  let ?vs = "filter (\<lambda>vals. \<not> length vals < 2) (map snd (instants rows))"
  have sp: "fst (intra_shard_spreads rows) = map (\<lambda>vals. Max (set vals) - Min (set vals)) ?vs"
    by (simp add: intra_shard_spreads_def Let_def)
  have ne: "vals \<noteq> []" if "vals \<in> set ?vs" for vals using that by auto
  have flat: "list_all (\<lambda>v. v = hd vals) vals \<longleftrightarrow> (\<forall>x \<in> set vals. \<forall>y \<in> set vals. x = y)" for vals :: "real list"
    by (cases vals) (simp, simp add: list_all_iff, metis)
  have short: "list_all (\<lambda>v. v = hd vals) vals" if "length vals < 2" for vals :: "real list"
    using that by (cases vals) auto
  have "list_all (\<lambda>s. s = 0) (fst (intra_shard_spreads rows)) \<longleftrightarrow> (\<forall>vals \<in> set ?vs. list_all (\<lambda>v. v = hd vals) vals)"
    unfolding sp flat using spread_value(2) [OF ne] by (simp add: list_all_iff)
  also have "\<dots> \<longleftrightarrow> list_all (\<lambda>vals. list_all (\<lambda>v. v = hd vals) vals) (map snd (instants rows))"
    using short by (auto simp: list_all_iff)
  finally show ?thesis
    using spread_value(1) [OF ne] by (simp add: sp list_all_iff not_less)
qed

section \<open>Binning by index size\<close>

definition sized_rows :: "csv_row list \<Rightarrow> csv_row list" where
  "sized_rows rows = filter (\<lambda>r. reachable r \<and> \<not> (isnan (f_cell r ''n_local'') \<or> isnan (f_cell r ''e2e_recall''))) rows"

text \<open>
  Binning loses nothing: the bins of the size table have distinct keys, their counts add up
  to the number of scored rows, and weighting each bin's mean end-to-end recall by its count
  gives back the total over all scored rows.
\<close>

theorem size_table_conserves:
  assumes "numpy_api np"
  shows "distinct (map fst (recall_by_size np rows)) \<and>
    (\<Sum>(b, e, i, n)\<leftarrow>recall_by_size np rows. n) = length (sized_rows rows) \<and>
    (\<Sum>(b, e, i, n)\<leftarrow>recall_by_size np rows. fval e * real n) = (\<Sum>r\<leftarrow>sized_rows rows. fval (f_cell r ''e2e_recall''))"
proof -
  let ?key = "\<lambda>r. \<lfloor>fval (f_cell r ''n_local'') / SIZE_BIN\<rfloor>" and ?val = "\<lambda>r. (f_cell r ''e2e_recall'', f_cell r ''index_recall'')"
  let ?G = "group_by ?key ?val (sized_rows rows)"
  let ?line = "\<lambda>(b, vals). (b, let es = map fst vals; idx = filter (\<lambda>x. \<not> isnan x) (map snd vals)
           in (np_mean np es, if idx \<noteq> [] then np_mean np idx else NaN, length vals))"
  have tab: "recall_by_size np rows = map ?line ?G" by (simp add: recall_by_size_def sized_rows_def Let_def)
  have bin: "fval (np_mean np (map fst vals)) * real (length vals) = (\<Sum>x\<leftarrow>vals. fval (fst x))" if "(b, vals) \<in> set ?G" for b vals
  proof -
    have "vals \<noteq> []" using that by (rule group_by_nonempty)
    moreover have eq: "map fst vals = map Fl (map (\<lambda>x. fval (fst x)) vals)"
      using that by (auto simp: group_by_items sized_rows_def not_isnan_conv)
    ultimately show ?thesis
      unfolding numpy_api.mean [OF assms] eq by (simp add: mean_def del: map_map)
  qed
  have "(\<Sum>(b, e, i, n)\<leftarrow>map ?line ?G. fval e * real n) = (\<Sum>g\<leftarrow>?G. \<Sum>x\<leftarrow>snd g. fval (fst x))"
    unfolding map_map comp_def using bin by (intro arg_cong [where f = sum_list] map_cong refl) (auto simp: Let_def)
  also have "\<dots> = sum_list (map (\<lambda>x. fval (fst x)) (concat (map snd ?G)))"
    by (simp add: map_concat sum_list_concat comp_def)
  also have "\<dots> = sum_mset (image_mset (\<lambda>x. fval (fst x)) (mset (concat (map snd ?G))))"
    by (simp only: mset_map [symmetric] sum_mset_sum_list)
  also have "\<dots> = (\<Sum>r\<leftarrow>sized_rows rows. fval (f_cell r ''e2e_recall''))"
    by (simp only: group_by_mset) (simp only: mset_map [symmetric] sum_mset_sum_list map_map comp_def fst_conv)
  finally have total: "(\<Sum>(b, e, i, n)\<leftarrow>map ?line ?G. fval e * real n) = (\<Sum>r\<leftarrow>sized_rows rows. fval (f_cell r ''e2e_recall''))" .
  have "(\<Sum>(b, e, i, n)\<leftarrow>map ?line ?G. n) = (\<Sum>vs\<leftarrow>map snd ?G. length vs)"
    unfolding map_map comp_def by (intro arg_cong [where f = sum_list] map_cong refl) (auto simp: Let_def)
  moreover have "map fst (map ?line ?G) = map fst ?G" by (auto simp: Let_def)
  ultimately show ?thesis
    using total group_by_partition [of ?key ?val "sized_rows rows"] unfolding tab by (simp only: group_by_distinct simp_thms)
qed

definition sized_demo :: "csv_row list" where
  "sized_demo = [[(''reachable'', ''1''), (''n_local'', ''10''), (''e2e_recall'', ''0.5'')],
                 [(''reachable'', ''1''), (''n_local'', ''90''), (''e2e_recall'', ''0.75'')],
                 [(''reachable'', ''0''), (''n_local'', []), (''e2e_recall'', [])]]"

theorem size_table_conserves_witness:
  "length (sized_rows sized_demo) = 2 \<and>
   (\<Sum>(b, e, i, n)\<leftarrow>recall_by_size numpy_ref sized_demo. n) = 2 \<and>
   (\<Sum>(b, e, i, n)\<leftarrow>recall_by_size numpy_ref sized_demo. fval e * real n) = 5 / 4"
proof -
  have rows: "sized_rows sized_demo = take 2 sized_demo"
    by (simp add: sized_rows_def sized_demo_def reachable_def f_cell_def cell_def dict_get_def heal_floats)
  have "(\<Sum>r\<leftarrow>sized_rows sized_demo. fval (f_cell r ''e2e_recall'')) = 5 / 4"
    unfolding rows by (simp add: sized_demo_def f_cell_def cell_def dict_get_def heal_floats)
  moreover have "length (sized_rows sized_demo) = 2" unfolding rows by (simp add: sized_demo_def)
  ultimately show ?thesis
    using size_table_conserves [OF npr.numpy_api_axioms, of sized_demo] by (simp only: simp_thms)
qed

end
