(* ===== verification/Nano_Results.thy ===== *)
theory Nano_Results
  imports Nano_Run Peer_Agreement Analyze_Heal
begin

text \<open>
  From the results directory to the report: \<^verbatim>\<open>load\<close> and \<^verbatim>\<open>main\<close> of
  \<^verbatim>\<open>research/replica_recall/analyze.py\<close>, and what the analysis reads of a run: the cells of the
  sample file, the kills and the metadata are the ones the run recorded.
\<close>

section \<open>Loading\<close>

text \<open>The keys of the metadata that the analysis uses.\<close>

definition meta_view :: "nmeta \<Rightarrow> run_meta" where
  "meta_view m = \<lparr>m_k = Some (int (na_k (nm_args m))), m_queries = Some (int (na_queries (nm_args m))), m_quiesce = nm_quiesce m,
     m_chaos_start_rel = nm_chaos_start_rel m, m_chaos_stop_rel = nm_chaos_stop_rel m\<rparr>"

definition analyze_load :: "ndir \<Rightarrow> (csv_row list \<times> kill_event list \<times> run_meta option) res" where
  "analyze_load dir =
     (case nd_samples dir of
        None \<Rightarrow> Inl (SystemExit 1)
      | Some text \<Rightarrow>
          Inr (dict_reader text,
               (case nd_events dir of None \<Rightarrow> [] | Some es \<Rightarrow> map (\<lambda>(e, t_rel). (ce_target e, t_rel)) es),
               map_option meta_view (nd_meta dir)))"

text \<open>The reports of \<^verbatim>\<open>main\<close> in the order of the code; \<open>an_unreachable\<close> counts rows not marked reachable.\<close>

record analysis =
  an_unreachable :: nat
  an_heal :: "heal_verdict option"
  an_drift :: "drift_report option"
  an_size :: qsize_report
  an_spread :: "(nat \<times> flt \<times> real \<times> real \<times> flt \<times> flt) option"
  an_failover :: "(string \<times> nat \<times> flt \<times> flt \<times> flt) list option"
  an_graph :: "(nat \<times> flt \<times> flt \<times> flt \<times> (flt \<times> flt \<times> flt \<times> string) list) option"
  an_detect :: detect_verdict

definition analyze_main :: "numpy \<Rightarrow> ndir \<Rightarrow> ndir option \<Rightarrow> analysis res" where
  "analyze_main np dir cmp =
     bindE (analyze_load dir) (\<lambda>(rows, events, meta).
     bindE (case cmp of None \<Rightarrow> Inr None | Some d \<Rightarrow> bindE (analyze_load d) (\<lambda>(crows, _, _). Inr (Some crows))) (\<lambda>compare_rows.
     if list_ex (\<lambda>r. map_of r ''reachable'' = None) rows then Inl (KeyError ''reachable'')
     else Inr \<lparr>an_unreachable = length (filter (\<lambda>r. \<not> reachable r) rows), an_heal = qheal_recovery np rows meta,
               an_drift = q0_drift np rows, an_size = qsize_recall_vs_index_size np rows compare_rows,
               an_spread = q1_intra_shard_spread np rows, an_failover = q2_recall_around_failover np rows events,
               an_graph = q3_graph_vs_data np rows, an_detect = q4_can_we_spot_the_bad_replica np rows meta\<rparr>))"

section \<open>Cells\<close>

definition cell_value :: "real option \<Rightarrow> flt" where
  "cell_value x = (case x of None \<Rightarrow> NaN | Some v \<Rightarrow> Fl v)"

text \<open>A row of the file says what the sample says.\<close>

definition reads_as :: "real \<Rightarrow> sample_row \<Rightarrow> csv_row \<Rightarrow> bool" where
  "reads_as t_start r c \<longleftrightarrow>
     cell c ''name'' = s_name r \<and> cell c ''shard'' = dec (s_shard r) \<and> cell c ''replica'' = dec (s_replica r) \<and>
     (reachable c \<longleftrightarrow> s_reachable r) \<and> f_cell c ''t_rel'' = Fl (py_round 3 (s_t r - t_start)) \<and>
     f_cell c ''index_recall'' = cell_value (s_index_recall r) \<and> f_cell c ''e2e_recall'' = cell_value (s_e2e_recall r) \<and>
     f_cell c ''completeness'' = cell_value (s_completeness r) \<and>
     f_cell c ''n_local'' = cell_value (map_option real (s_n_local r)) \<and> f_cell c ''n_intended'' = Fl (real (s_n_intended r)) \<and>
     f_cell c ''shard_agreement'' = cell_value (s_shard_agreement r) \<and> f_cell c ''loo_agreement'' = cell_value (s_loo_agreement r)"

definition cell_ok :: "real option \<Rightarrow> bool" where
  "cell_ok x \<longleftrightarrow> (case x of None \<Rightarrow> True | Some v \<Rightarrow> 0 \<le> v \<and> py_round 6 v = v)"

definition row_ok :: "sample_row \<Rightarrow> bool" where
  "row_ok r \<longleftrightarrow> cell_ok (s_index_recall r) \<and> cell_ok (s_e2e_recall r) \<and> cell_ok (s_completeness r) \<and>
     cell_ok (s_shard_agreement r) \<and> cell_ok (s_loo_agreement r)"

lemma py_float_dec: "py_float (dec n) = Some (Fl (real n))"
  using py_float_literal [of "dec n" "[]" "[]" "[]" 0] dec_digits by simp

lemma cell_csv_of: "key \<in> set SAMPLE_COLS \<Longrightarrow> cell (csv_of t r) key = cell_text (dict_get (rel_dict t r) key (CStr []))"
  by (simp add: cell_def dict_get_def csv_of_def map_of_map_restrict comp_def)

lemma cell_texts:
  "cell (csv_of t r) ''t_rel'' = float_repr (py_round 3 (s_t r - t))"
  "cell (csv_of t r) ''shard'' = dec (s_shard r)" "cell (csv_of t r) ''replica'' = dec (s_replica r)"
  "cell (csv_of t r) ''name'' = s_name r" "cell (csv_of t r) ''reachable'' = dec (if s_reachable r then 1 else 0)"
  "cell (csv_of t r) ''index_recall'' = cell_text (recall_text (s_index_recall r))"
  "cell (csv_of t r) ''e2e_recall'' = cell_text (recall_text (s_e2e_recall r))"
  "cell (csv_of t r) ''completeness'' = cell_text (recall_text (s_completeness r))"
  "cell (csv_of t r) ''n_local'' = (case s_n_local r of None \<Rightarrow> [] | Some n \<Rightarrow> dec n)"
  "cell (csv_of t r) ''n_intended'' = dec (s_n_intended r)"
  "cell (csv_of t r) ''shard_agreement'' = cell_text (rounded_cell (s_shard_agreement r))"
  "cell (csv_of t r) ''loo_agreement'' = cell_text (rounded_cell (s_loo_agreement r))"
  by (simp_all add: cell_csv_of SAMPLE_COLS_def rel_dict_def dict_get_def sample_dict_def split: option.split)

lemma f_cell_text: "cell c key = s \<Longrightarrow> s \<noteq> [] \<Longrightarrow> py_float s = Some x \<Longrightarrow> f_cell c key = x"
  by (simp add: f_cell_def Let_def)

lemma f_cell_recall:
  assumes "cell c key = cell_text (recall_text x)" and "cell_ok x"
  shows "f_cell c key = cell_value x"
proof (cases x)
  case None
  then show ?thesis using assms by (simp add: f_cell_def recall_text_def cell_value_def)
next
  case (Some v)
  have "show_fixed 6 v \<noteq> []" by (simp add: show_fixed_def Let_def)
  moreover have "py_float (show_fixed 6 v) = Some (Fl v)"
    using Some assms(2) py_float_show_fixed [of v 6] by (simp add: cell_ok_def)
  ultimately show ?thesis using f_cell_text [OF assms(1)] Some by (simp add: recall_text_def cell_value_def)
qed

lemma float_repr_nonempty: "float_repr x \<noteq> []"
  by (simp add: float_repr_def repr_nonneg_def Let_def)

lemma f_cell_rounded:
  assumes "cell c key = cell_text (rounded_cell x)" and "cell_ok x"
  shows "f_cell c key = cell_value x"
proof (cases x)
  case None
  then show ?thesis using assms by (simp add: f_cell_def rounded_cell_def cell_value_def)
next
  case (Some v)
  have "py_float (float_repr v) = Some (Fl v)" using Some assms(2) py_float_repr [of v] by (simp add: cell_ok_def)
  then show ?thesis using f_cell_text [OF assms(1)] Some float_repr_nonempty by (simp add: rounded_cell_def cell_value_def)
qed

lemma f_cell_dec: "cell c key = dec n \<Longrightarrow> f_cell c key = Fl (real n)"
  by (rule f_cell_text [OF _ _ py_float_dec]) simp_all

lemma csv_of_reads_as:
  assumes "row_ok r" and "t \<le> s_t r"
  shows "reads_as t r (csv_of t r)"
proof -
  have "f_cell (csv_of t r) ''t_rel'' = Fl (py_round 3 (s_t r - t))"
    using assms(2) by (intro f_cell_text [OF cell_texts(1) float_repr_nonempty] py_float_repr_rounded) simp_all
  moreover have "f_cell (csv_of t r) ''n_local'' = cell_value (map_option real (s_n_local r))"
    using f_cell_dec [of "csv_of t r" "''n_local''"] by (cases "s_n_local r") (simp_all add: cell_texts f_cell_def cell_value_def)
  moreover have "reachable (csv_of t r) \<longleftrightarrow> s_reachable r"
    using dec_small by (simp add: reachable_def cell_texts)
  ultimately show ?thesis
    using assms(1) unfolding reads_as_def row_ok_def
    by (auto simp: cell_texts(2-4) f_cell_dec [OF cell_texts(10)] f_cell_recall [OF cell_texts(6)] f_cell_recall [OF cell_texts(7)]
        f_cell_recall [OF cell_texts(8)] f_cell_rounded [OF cell_texts(11)] f_cell_rounded [OF cell_texts(12)])
qed

section \<open>What the sampler puts into a row\<close>

definition nonneg :: "flt \<Rightarrow> bool" where
  "nonneg x \<longleftrightarrow> (case x of NaN \<Rightarrow> True | Fl v \<Rightarrow> 0 \<le> v)"

lemma fmt_ok: "nonneg x \<Longrightarrow> cell_ok (fmt x)"
  using py_round_mono [of 0 _ 6] by (cases x) (auto simp: nonneg_def cell_ok_def py_round_twice)

lemma np_mean_nonneg:
  assumes "numpy_api np" and "\<forall>x \<in> set xs. nonneg x"
  shows "nonneg (np_mean np xs)"
proof -
  have "0 \<le> a" if "a \<in> set (numbers xs)" for a using that assms(2) by (auto simp: set_numbers nonneg_def)
  then have "0 \<le> mean (numbers xs)" by (simp add: mean_def sum_list_nonneg)
  then show ?thesis by (simp add: numpy_api.mean [OF assms(1)] fmean_def nonneg_def)
qed

lemma pair_scores_nonneg: "x \<in> set (pair_scores k a b) \<Longrightarrow> nonneg x"
  by (auto simp: pair_scores_def nonneg_def overlap_def Let_def split: if_splits)

lemma scores_nonneg:
  assumes "numpy_api np" and "\<forall>x \<in> set xs. nonneg x"
  shows "nonneg (if xs \<noteq> [] then np_mean np xs else NaN)"
  using np_mean_nonneg [OF assms] by (simp add: nonneg_def [of NaN])

lemma nonneg_if: "nonneg x \<Longrightarrow> nonneg y \<Longrightarrow> nonneg (if b then x else y)"
  by simp

lemma pairwise_nonneg:
  assumes "numpy_api np"
  shows "nonneg (pairwise_agreement np obs k)"
  unfolding pairwise_agreement_def Let_def
proof (rule nonneg_if)
  show "nonneg NaN" by (simp add: nonneg_def)
qed (rule scores_nonneg [OF assms], auto intro: pair_scores_nonneg)

lemma loo_nonneg:
  assumes "numpy_api np"
  shows "nonneg (dict_get (leave_one_out_agreement np obs k) n NaN)"
proof -
  have scores: "\<forall>x \<in> set (loo_scores obs k names m). nonneg x" for names m
    using pair_scores_nonneg by (auto simp: loo_scores_def split: if_splits)
  have "nonneg v" if "(n, v) \<in> set (leave_one_out_agreement np obs k)" for v
    using that scores_nonneg [OF assms scores]
    by (auto simp: leave_one_out_agreement_def Let_def nonneg_def [of NaN] simp del: if_not_P if_P split: if_split_asm)
  then show ?thesis by (auto simp: dict_get_def nonneg_def [of NaN] split: option.split dest: map_of_SomeD)
qed

lemma recall_at_k_nonneg: "recall_at_k obs truth k = Inr x \<Longrightarrow> nonneg x"
  by (auto simp: recall_at_k_def nonneg_def Let_def split: if_splits)

lemma mean_recall_nonneg:
  assumes "numpy_api np" and "mean_recall np queries observed c k metric rows r = Inr x"
  shows "nonneg x"
proof (cases "rows = []")
  case False
  with assms(2) obtain best per where
    per: "traverseE (\<lambda>(o', trow). bindE (traverseE (\<lambda>j. bindE (nth_or_raise rows j) (nth_or_raise (c_ids c))) trow)
        (\<lambda>t. recall_at_k (take k (case r of None \<Rightarrow> o' | Some r \<Rightarrow> filter (\<lambda>i. i \<in> r) o')) t k)) (zip observed best) = Inr per"
    and x: "x = (if drop_nan per \<noteq> [] then np_mean np (drop_nan per) else NaN)"
    by (auto simp: mean_recall_def err_simps Let_def)
  have "nonneg y" if y: "y \<in> set per" for y
  proof -
    obtain a where "(case a of (o', trow) \<Rightarrow> bindE (traverseE (\<lambda>j. bindE (nth_or_raise rows j) (nth_or_raise (c_ids c))) trow)
        (\<lambda>t. recall_at_k (take k (case r of None \<Rightarrow> o' | Some r \<Rightarrow> filter (\<lambda>i. i \<in> r) o')) t k)) = Inr y"
      using list_all2_set2 [OF per [unfolded traverseE_Inr_conv] y] by blast
    then show ?thesis by (auto simp: err_simps split: prod.splits dest: recall_at_k_nonneg)
  qed
  then show ?thesis using np_mean_nonneg [OF assms(1), of "drop_nan per"] by (auto simp: x drop_nan_def nonneg_def [of NaN])
qed (use assms in \<open>simp add: mean_recall_def nonneg_def\<close>)

lemma score_replica_nonneg:
  assumes "numpy_api np" and "score_replica np queries observed L I c k metric ir = Inr s"
  shows "nonneg (index_recall s)" "nonneg (e2e_recall s)" "nonneg (completeness s)"
  using assms by (auto simp: score_replica_def Let_def err_simps set_completeness_def nonneg_def [of NaN] nonneg_def [of "Fl _"]
      intro: mean_recall_nonneg)

lemma replica_row_ok:
  assumes "numpy_api np" and "nonneg agreement" and "nonneg (dict_get loo n NaN)"
    and "replica_row np clk queries k metric settled c shard agreement loo I ir n r = Inr row"
  shows "row_ok row" and "s_t row = sc_t clk"
proof -
  show "row_ok row"
  proof (cases "rr_reachable r")
    case True
    with assms(4) obtain m where m: "score_replica np queries (rr_obs r) (rr_local r) I c k metric (Some ir) = Inr m"
      "row_ok row \<longleftrightarrow> cell_ok (fmt (index_recall m)) \<and> cell_ok (fmt (e2e_recall m)) \<and> cell_ok (fmt (completeness m)) \<and>
         cell_ok (fmt agreement) \<and> cell_ok (fmt (dict_get loo n NaN))"
      by (auto simp: replica_row_def err_simps row_ok_def)
    then show ?thesis using score_replica_nonneg [OF assms(1) m(1)] fmt_ok assms(2,3) by blast
  next
    case False
    then have "row_ok row \<longleftrightarrow> cell_ok (fmt agreement)" using assms(4) by (auto simp: replica_row_def row_ok_def cell_ok_def)
    then show ?thesis using fmt_ok assms(2) by blast
  qed
  show "s_t row = sc_t clk" using assms(4) by (auto simp: replica_row_def err_simps split: if_splits)
qed

lemma replica_row_names:
  "replica_row np clk queries k metric settled c shard agreement loo I ir n r = Inr row \<Longrightarrow> s_name row = n \<and> s_shard row = shard"
  by (auto simp: replica_row_def err_simps split: if_splits)

text \<open>Every row of a sweep was computed from the record of its replica and what its shard should hold.\<close>

lemma score_sweep_row:
  assumes np: "numpy_api np" and dist: "distinct (map fst raw)"
    and run: "score_sweep np clk queries loo_on k metric settled c raw = Inr rows" and row: "row \<in> set rows"
  defines "I \<equiv> sweep_intended raw settled (s_shard row)"
  shows "\<exists>r agreement loo. (s_name row, r) \<in> set raw \<and> p_shard_id (rr_probe r) = s_shard row \<and>
    nonneg agreement \<and> nonneg (dict_get loo (s_name row) NaN) \<and>
    replica_row np clk queries k metric settled c (s_shard row) agreement loo I (rows_for c I) (s_name row) r = Inr row"
proof -
  let ?by = "group_by (\<lambda>(name, r). p_shard_id (rr_probe r)) fst raw"
  obtain rss where rss: "traverseE (shard_rows np clk queries loo_on k metric settled c raw) (sorted_items ?by) = Inr rss"
    "rows = concat rss" using run by (auto simp: score_sweep_def Let_def err_simps)
  obtain rs where rs: "rs \<in> set rss" "row \<in> set rs" using row rss(2) by auto
  obtain shard names where g: "(shard, names) \<in> set ?by" "shard_rows np clk queries loo_on k metric settled c raw (shard, names) = Inr rs"
    using list_all2_set2 [OF rss(1) [unfolded traverseE_Inr_conv] rs(1)] by auto
  have names: "names = map fst (filter (\<lambda>(n, r). p_shard_id (rr_probe r) = shard) raw)"
    using g(1) by (rule by_shard_names)
  define live where "live = filter (\<lambda>n. rr_reachable (the (map_of raw n))) names"
  define obs where "obs = map (\<lambda>n. (n, map (take k) (if loo_on then the (rr_loo_obs (the (map_of raw n))) else rr_obs (the (map_of raw n))))) live"
  define agreement where "agreement = (if 2 \<le> length live then pairwise_agreement np obs k else NaN)"
  define loo where "loo = (if 3 \<le> length live then leave_one_out_agreement np obs k else [])"
  have J: "shard_union raw live \<inter> settled = sweep_intended raw settled shard"
    unfolding live_def names by (rule shard_union_eq [OF dist])
  have "traverseE (\<lambda>n. replica_row np clk queries k metric settled c shard agreement loo (sweep_intended raw settled shard)
      (rows_for c (sweep_intended raw settled shard)) n (the (map_of raw n))) names = Inr rs"
    using g(2) unfolding shard_rows_def Let_def prod.case live_def [symmetric] obs_def [symmetric]
      agreement_def [symmetric] loo_def [symmetric] J .
  from list_all2_set2 [OF this [unfolded traverseE_Inr_conv] rs(2)] obtain n where
    n: "n \<in> set names" "replica_row np clk queries k metric settled c shard agreement loo (sweep_intended raw settled shard)
      (rows_for c (sweep_intended raw settled shard)) n (the (map_of raw n)) = Inr row" by blast
  from n(1) obtain r where r: "(n, r) \<in> set raw" "p_shard_id (rr_probe r) = shard" by (auto simp: names)
  with dist have "map_of raw n = Some r" by simp
  moreover have "nonneg agreement" using pairwise_nonneg [OF np] by (simp add: agreement_def nonneg_def [of NaN])
  moreover have "nonneg (dict_get loo n NaN)"
    using loo_nonneg [OF np] by (simp add: loo_def dict_get_def [of "[]"] nonneg_def [of NaN])
  ultimately show ?thesis
    using n(2) r replica_row_names [OF n(2)] unfolding I_def by (intro exI [of _ r] exI [of _ agreement] exI [of _ loo]) simp
qed

lemma sample_once_row:
  fixes now settle_s :: real
  assumes np: "numpy_api np" and dist: "distinct (map p_name probes)"
    and run: "sample_once np clk io probes w queries k now settle_s metric lq = Inr rows" and row: "row \<in> set rows"
  defines "settled \<equiv> intended_set now settle_s w" and "c \<equiv> view w (snapshot_corpus w)"
  defines "I \<equiv> shard_intended io queries lq k probes settled (s_shard row)"
  shows "\<exists>p \<in> set probes. s_name row = p_name p \<and> s_shard row = p_shard_id p \<and>
    (\<exists>agreement loo. nonneg agreement \<and> nonneg (dict_get loo (s_name row) NaN) \<and>
      replica_row np clk queries k metric settled c (s_shard row) agreement loo I (rows_for c I) (s_name row) (rec_of io queries lq k p) = Inr row)"
proof -
  let ?raw = "raw_of io queries lq k probes"
  have d: "distinct (map fst ?raw)" using dist by (simp add: raw_of_eq comp_def)
  have "score_sweep np clk queries (lq \<noteq> None) k metric settled c ?raw = Inr rows"
    using run unfolding sample_once_def Let_def raw_foldl [OF dist, unfolded Let_def] settled_def c_def .
  from score_sweep_row [OF np d this row] obtain r agreement loo where
    x: "(s_name row, r) \<in> set ?raw" "p_shard_id (rr_probe r) = s_shard row" "nonneg agreement" "nonneg (dict_get loo (s_name row) NaN)"
    "replica_row np clk queries k metric settled c (s_shard row) agreement loo I (rows_for c I) (s_name row) r = Inr row"
    unfolding sweep_intended_raw_of I_def by blast
  from x(1) obtain p where p: "p \<in> set probes" "s_name row = p_name p" "r = rec_of io queries lq k p" by (auto simp: raw_of_eq)
  with x show ?thesis by (intro bexI [OF _ p(1)] conjI exI [of _ agreement] exI [of _ loo]) simp_all
qed

text \<open>The rows of a run are those of its rounds; a round that raised contributes none.\<close>

lemma sampler_loop_rows:
  assumes "sampler_loop np probes queries k settle_s metric lqn rounds w (rows, errs) = (w', rows', errs')"
  shows "\<exists>rss. rows' = rows @ concat rss \<and>
    list_all2 (\<lambda>rd rs. rs = [] \<or> (\<exists>v v'. sample_round np probes queries k settle_s metric lqn rd v = (Inr rs, v'))) rounds rss"
  using assms
proof (induction rounds arbitrary: w rows errs)
  case (Cons rd rounds)
  obtain res v' where r: "sample_round np probes queries k settle_s metric lqn rd (rd_env rd w) = (res, v')" by fastforce
  show ?case
  proof (cases res)
    case (Inl e)
    with Cons.prems r have "sampler_loop np probes queries k settle_s metric lqn rounds v' (rows, errs @ [e]) = (w', rows', errs')"
      by simp
    from Cons.IH [OF this] obtain rss where "rows' = rows @ concat rss" "list_all2 (\<lambda>rd rs. rs = [] \<or>
        (\<exists>v v'. sample_round np probes queries k settle_s metric lqn rd v = (Inr rs, v'))) rounds rss" by blast
    then show ?thesis by (intro exI [of _ "[] # rss"]) simp
  next
    case (Inr rs)
    with Cons.prems r have "sampler_loop np probes queries k settle_s metric lqn rounds v' (rows @ rs, errs) = (w', rows', errs')"
      by simp
    from Cons.IH [OF this] obtain rss where "rows' = (rows @ rs) @ concat rss" "list_all2 (\<lambda>rd rs. rs = [] \<or>
        (\<exists>v v'. sample_round np probes queries k settle_s metric lqn rd v = (Inr rs, v'))) rounds rss" by blast
    then show ?thesis using r Inr by (intro exI [of _ "rs # rss"]) auto
  qed
qed simp

lemma sample_round_once:
  assumes "sample_round np probes queries k settle_s metric lqn rd w = (Inr rs, w')"
  obtains lq v where "sample_once np (rd_clock rd) (rd_io rd) probes v queries k (rd_now rd) settle_s metric lq = Inr rs"
  using assms by (auto simp: sample_round_def split: option.splits sum.splits)

section \<open>What the analysis sees of a run\<close>

lemma nano_probes_distinct: "distinct (map p_name nano_probes)"
  by (simp add: nano_probes_def build_probes_distinct)

text \<open>Where a row of a run comes from: a sweep of one of its rounds.\<close>

definition swept :: "numpy \<Rightarrow> nargs \<Rightarrow> vec list \<Rightarrow> round \<Rightarrow> sample_row list \<Rightarrow> bool" where
  "swept np args queries rd rs \<longleftrightarrow>
     (\<exists>v lq. sample_once np (rd_clock rd) (rd_io rd) nano_probes v queries (na_k args) (rd_now rd) (na_settle_s args) (na_metric args) lq = Inr rs)"

lemma nano_sampling_swept:
  assumes "nano_sampling np args env queries w = (w', rows, errs)"
  obtains rss where "rows = concat rss" "list_all2 (\<lambda>rd rs. rs = [] \<or> swept np args queries rd rs) (nv_rounds env) rss"
proof -
  obtain v where "sampler_loop np nano_probes queries (na_k args) (na_settle_s args) (na_metric args)
      (loo_queries_n args) (nv_rounds env) w ([], []) = (v, rows, errs)"
    using assms by (auto simp: nano_sampling_def case_prod_unfold Let_def) (metis prod.collapse)
  from sampler_loop_rows [OF this] obtain rss where rss: "rows = concat rss" "list_all2 (\<lambda>rd rs. rs = [] \<or>
     (\<exists>v v'. sample_round np nano_probes queries (na_k args) (na_settle_s args) (na_metric args) (loo_queries_n args) rd v = (Inr rs, v')))
     (nv_rounds env) rss" by auto
  have sw: "swept np args queries rd rs"
    if "sample_round np nano_probes queries (na_k args) (na_settle_s args) (na_metric args) (loo_queries_n args) rd v = (Inr rs, v')"
    for rd v rs v'
    using sample_round_once [OF that] unfolding swept_def by blast
  have "list_all2 (\<lambda>rd rs. rs = [] \<or> swept np args queries rd rs) (nv_rounds env) rss"
    by (rule list_all2_mono [OF rss(2)]) (use sw in blast)
  with rss(1) that show thesis by blast
qed

lemma swept_row:
  assumes "numpy_api np" and "swept np args queries rd rs" and "row \<in> set rs"
  shows "row_ok row" and "s_t row = sc_t (rd_clock rd)"
proof -
  obtain v lq where "sample_once np (rd_clock rd) (rd_io rd) nano_probes v queries (na_k args) (rd_now rd) (na_settle_s args)
      (na_metric args) lq = Inr rs" using assms(2) by (auto simp: swept_def)
  from sample_once_row [OF assms(1) nano_probes_distinct this assms(3)] obtain settled c shard agreement loo I ir n r where
    "nonneg agreement" "nonneg (dict_get loo n NaN)"
    "replica_row np (rd_clock rd) queries (na_k args) (na_metric args) settled c shard agreement loo I ir n r = Inr row" by blast
  from replica_row_ok [OF assms(1) this] show "row_ok row" "s_t row = sc_t (rd_clock rd)" .
qed

lemma nano_sampling_rows:
  assumes "numpy_api np" and "nano_sampling np args env queries w = (w', rows, errs)" and "row \<in> set rows"
  shows "\<exists>rd \<in> set (nv_rounds env). row_ok row \<and> s_t row = sc_t (rd_clock rd)"
proof -
  obtain rss where rss: "rows = concat rss" "list_all2 (\<lambda>rd rs. rs = [] \<or> swept np args queries rd rs) (nv_rounds env) rss"
    using assms(2) by (rule nano_sampling_swept)
  then obtain rs where rs: "rs \<in> set rss" "row \<in> set rs" using assms(3) by auto
  from list_all2_set2 [OF rss(2) rs(1)] obtain rd where rd: "rd \<in> set (nv_rounds env)" "rs = [] \<or> swept np args queries rd rs"
    by blast
  then have "swept np args queries rd rs" using rs(2) by auto
  from rd(1) swept_row [OF assms(1) this rs(2)] show ?thesis by blast
qed

lemma heal_stats_some:
  "(\<exists>h. heal_stats np rows (Some m) = Some h) \<longleftrightarrow> m_quiesce m \<and> m_chaos_start_rel m \<noteq> None \<and> m_chaos_stop_rel m \<noteq> None"
  by (auto simp: heal_stats_def Let_def split: option.splits)

lemma n_fault_protocol_times:
  assumes "n_fault_protocol args t env procs = (Go pr, procs1)" and "na_chaos_duration args = None \<or> \<not> na_no_chaos args"
  shows "na_chaos_duration args \<noteq> None \<and> np_start_rel pr \<noteq> None \<and> np_stop_rel pr \<noteq> None \<longleftrightarrow>
    na_chaos_duration args \<noteq> None \<and> ne_interrupt env \<noteq> Some 0 \<and> ne_interrupt env \<noteq> Some 1"
  using assms by (auto simp: n_fault_protocol_def Let_def case_prod_unfold split: if_splits option.splits)


section \<open>Agreeing replicas\<close>

text \<open>In a round, replicas of one shard hold the same ids and answer every search alike.\<close>

definition replicas_agree :: "round \<Rightarrow> bool" where
  "replicas_agree rd \<longleftrightarrow>
     (\<forall>p \<in> set nano_probes. \<forall>q \<in> set nano_probes. p_shard_id p = p_shard_id q \<longrightarrow>
        rd_io rd (p_name p) = rd_io rd (p_name q))"

lemma rec_of_same:
  assumes "io (p_name p) = io (p_name q)"
  shows "rr_obs (rec_of io queries lq k p) = rr_obs (rec_of io queries lq k q)"
  using assms by (simp add: rec_of_def probe_one_def Let_def case_prod_unfold list_local_ids_eq search_batch_def search_loop_eq)

lemma replica_row_e2e:
  assumes "replica_row np clk queries k metric settled c shard agreement loo I ir n r = Inr row" and "s_reachable row"
  shows "\<exists>m. score_replica np queries (rr_obs r) (rr_local r) I c k metric (Some ir) = Inr m \<and> s_e2e_recall row = fmt (e2e_recall m)"
  using assms by (auto simp: replica_row_def err_simps split: if_splits)

lemma swept_agree:
  assumes np: "numpy_api np" and sw: "swept np args queries rd rs" and agree: "replicas_agree rd"
    and rows: "a \<in> set rs" "b \<in> set rs" "s_shard a = s_shard b" "s_reachable a" "s_reachable b"
  shows "s_e2e_recall a = s_e2e_recall b"
proof -
  obtain v lq where run: "sample_once np (rd_clock rd) (rd_io rd) nano_probes v queries (na_k args) (rd_now rd) (na_settle_s args)
      (na_metric args) lq = Inr rs" using sw by (auto simp: swept_def)
  let ?rec = "rec_of (rd_io rd) queries lq (na_k args)"
  let ?settled = "intended_set (rd_now rd) (na_settle_s args) v" and ?c = "view v (snapshot_corpus v)"
  let ?I = "shard_intended (rd_io rd) queries lq (na_k args) nano_probes ?settled (s_shard b)"
  have score: "\<exists>p m. p \<in> set nano_probes \<and> p_shard_id p = s_shard row \<and> s_e2e_recall row = fmt (e2e_recall m) \<and>
      score_replica np queries (rr_obs (?rec p)) (rr_local (?rec p)) ?I ?c (na_k args) (na_metric args) (Some (rows_for ?c ?I)) = Inr m"
    if row: "row \<in> set rs" "s_shard row = s_shard b" "s_reachable row" for row
  proof -
    let ?J = "shard_intended (rd_io rd) queries lq (na_k args) nano_probes ?settled (s_shard row)"
    obtain p agreement loo where p: "p \<in> set nano_probes" "s_shard row = p_shard_id p"
      and r: "replica_row np (rd_clock rd) queries (na_k args) (na_metric args) ?settled ?c (s_shard row) agreement loo ?J
        (rows_for ?c ?J) (s_name row) (?rec p) = Inr row"
      using sample_once_row [OF np nano_probes_distinct run row(1)] by (elim bexE exE conjE)
    from replica_row_e2e [OF r row(3)] obtain m where m:
      "score_replica np queries (rr_obs (?rec p)) (rr_local (?rec p)) ?J ?c (na_k args) (na_metric args) (Some (rows_for ?c ?J)) = Inr m"
      "s_e2e_recall row = fmt (e2e_recall m)" by (elim exE conjE)
    show ?thesis using p m(2) m(1) [unfolded row(2)] by (intro exI [of _ p] exI [of _ m]) simp
  qed
  obtain p m where p: "p \<in> set nano_probes" "p_shard_id p = s_shard a" "s_e2e_recall a = fmt (e2e_recall m)"
    "score_replica np queries (rr_obs (?rec p)) (rr_local (?rec p)) ?I ?c (na_k args) (na_metric args) (Some (rows_for ?c ?I)) = Inr m"
    using score [OF rows(1,3,4)] by blast
  obtain q m' where q: "q \<in> set nano_probes" "p_shard_id q = s_shard b" "s_e2e_recall b = fmt (e2e_recall m')"
    "score_replica np queries (rr_obs (?rec q)) (rr_local (?rec q)) ?I ?c (na_k args) (na_metric args) (Some (rows_for ?c ?I)) = Inr m'"
    using score [OF rows(2) refl rows(5)] by blast
  have "p_shard_id p = p_shard_id q" using p(2) q(2) rows(3) by simp
  then have io: "rd_io rd (p_name p) = rd_io rd (p_name q)"
    using agree p(1) q(1) unfolding replicas_agree_def by blast
  have "rr_obs (?rec p) = rr_obs (?rec q)" "rr_local (?rec p) = rr_local (?rec q)"
    using rec_of_same [OF io] io by (simp_all only: rec_of_local)
  then have "m = m'" using p(4) q(4) by simp
  then show ?thesis using p(3) q(3) by simp
qed

text \<open>Distinct rounds are told apart by the time the file records.\<close>

definition rounds_apart :: "nmain_env \<Rightarrow> bool" where
  "rounds_apart env \<longleftrightarrow> distinct (map (\<lambda>rd. py_round 3 (sc_t (rd_clock rd) - nv_t_start env)) (nv_rounds env))"

lemma same_instant_agree:
  assumes np: "numpy_api np" and run: "nano_sampling np args env queries w = (w', rows, errs)"
    and agree: "\<forall>rd \<in> set (nv_rounds env). replicas_agree rd" and apart: "rounds_apart env"
    and rows: "a \<in> set rows" "b \<in> set rows" "s_shard a = s_shard b" "s_reachable a" "s_reachable b"
    and t: "py_round 3 (s_t a - nv_t_start env) = py_round 3 (s_t b - nv_t_start env)"
  shows "s_e2e_recall a = s_e2e_recall b"
proof -
  let ?time = "\<lambda>rd. py_round 3 (sc_t (rd_clock rd) - nv_t_start env)"
  obtain rss where rss: "rows = concat rss" "list_all2 (\<lambda>rd rs. rs = [] \<or> swept np args queries rd rs) (nv_rounds env) rss"
    using run by (rule nano_sampling_swept)
  have src: "\<exists>i < length (nv_rounds env). row \<in> set (rss ! i) \<and> swept np args queries (nv_rounds env ! i) (rss ! i)"
    if "row \<in> set rows" for row
  proof -
    from that obtain i where i: "i < length rss" "row \<in> set (rss ! i)" 
      unfolding rss(1) by (auto simp: in_set_conv_nth [of _ rss])
    with rss(2) have "i < length (nv_rounds env)" "rss ! i = [] \<or> swept np args queries (nv_rounds env ! i) (rss ! i)"
      by (auto simp: list_all2_conv_all_nth)
    with i(2) show ?thesis by auto
  qed
  from src [OF rows(1)] obtain i where i: "i < length (nv_rounds env)" "a \<in> set (rss ! i)"
    "swept np args queries (nv_rounds env ! i) (rss ! i)" by blast
  from src [OF rows(2)] obtain j where j: "j < length (nv_rounds env)" "b \<in> set (rss ! j)"
    "swept np args queries (nv_rounds env ! j) (rss ! j)" by blast
  have "?time (nv_rounds env ! i) = ?time (nv_rounds env ! j)"
    using t swept_row(2) [OF np i(3,2)] swept_row(2) [OF np j(3,2)] by simp
  then have eq: "map ?time (nv_rounds env) ! i = map ?time (nv_rounds env) ! j" using i(1) j(1) by simp
  have "i < length (map ?time (nv_rounds env))" "j < length (map ?time (nv_rounds env))" using i(1) j(1) by simp_all
  from iffD1 [OF nth_eq_iff_index_eq [OF apart [unfolded rounds_apart_def] this] eq] have ij: "i = j" .
  have "replicas_agree (nv_rounds env ! i)" using agree i(1) by simp
  from swept_agree [OF np i(3) this i(2) j(2) [folded ij] rows(3-5)] show ?thesis .
qed

text \<open>Rows of one instant have equal recall; the spreads and the margins are then 0.\<close>

definition flat_instants :: "csv_row list \<Rightarrow> bool" where
  "flat_instants rows \<longleftrightarrow>
     (\<forall>a \<in> set rows. \<forall>b \<in> set rows. reachable a \<and> reachable b \<and> cell a ''t_rel'' = cell b ''t_rel'' \<and> cell a ''shard'' = cell b ''shard''
        \<longrightarrow> f_cell a ''e2e_recall'' = f_cell b ''e2e_recall'')"

lemma flat_column:
  assumes "flat_instants rows"
    and "x \<in> (\<lambda>r. fval (f_cell r ''e2e_recall'')) ` set (filter (\<lambda>r. (cell r ''t_rel'', cell r ''shard'') = key) (filter (\<lambda>r. reachable r \<and> Q r) rows))"
    and "y \<in> (\<lambda>r. fval (f_cell r ''e2e_recall'')) ` set (filter (\<lambda>r. (cell r ''t_rel'', cell r ''shard'') = key) (filter (\<lambda>r. reachable r \<and> Q r) rows))"
  shows "x = y"
proof -
  from assms(2) obtain a where a: "a \<in> set rows" "reachable a" "(cell a ''t_rel'', cell a ''shard'') = key" "x = fval (f_cell a ''e2e_recall'')"
    by auto
  from assms(3) obtain b where b: "b \<in> set rows" "reachable b" "(cell b ''t_rel'', cell b ''shard'') = key" "y = fval (f_cell b ''e2e_recall'')"
    by auto
  have "cell a ''t_rel'' = cell b ''t_rel''" "cell a ''shard'' = cell b ''shard''" using a(3) b(3) by auto
  with assms(1) a(1,2) b(1,2) have "f_cell a ''e2e_recall'' = f_cell b ''e2e_recall''" unfolding flat_instants_def by blast
  with a(4) b(4) show ?thesis by simp
qed

lemma flat_spreads:
  assumes "flat_instants rows"
  shows "list_all (\<lambda>s. s = 0) (fst (intra_shard_spreads rows))"
proof -
  have "list_all (\<lambda>v. v = hd vals) vals" if inst: "vals \<in> set (map snd (instants rows))" for vals
  proof -
    obtain key where v: "vals = map (\<lambda>r. fval (f_cell r ''e2e_recall'')) (filter (\<lambda>r. (cell r ''t_rel'', cell r ''shard'') = key)
        (filter (\<lambda>r. reachable r \<and> \<not> isnan (f_cell r ''e2e_recall'')) rows))"
      using inst unfolding instants_def group_by_values by blast
    have "x = y" if "x \<in> set vals" "y \<in> set vals" for x y
      using that unfolding v set_map by (rule flat_column [OF assms])
    then show ?thesis by (cases vals) (auto simp: list_all_iff)
  qed
  then show ?thesis using spread_iff_disagreement [of rows] by (simp add: list_all_iff)
qed

lemma flat_margin:
  assumes "flat_instants rows" and "g \<in> set (detection_groups rows)" and "3 \<le> length g"
  shows "margin_of g = 0"
proof -
  obtain key where g: "g = map (\<lambda>r. (cell r ''name'', fval (f_cell r ''loo_agreement''), fval (f_cell r ''e2e_recall'')))
      (filter (\<lambda>r. (cell r ''t_rel'', cell r ''shard'') = key)
        (filter (\<lambda>r. reachable r \<and> \<not> (isnan (f_cell r ''loo_agreement'') \<or> isnan (f_cell r ''e2e_recall''))) rows))"
    using assms(2) unfolding detection_groups_def group_by_values by blast
  have eq: "x = y" if "x \<in> set (map e2e_of g)" "y \<in> set (map e2e_of g)" for x y
    using that unfolding g map_map comp_def snd_conv set_map by (rule flat_column [OF assms(1)])
  let ?srt = "sort (map e2e_of g)"
  have "?srt ! i \<in> set (map e2e_of g)" if "i < 3" for i
    using nth_mem [of i ?srt] that assms(3) by simp
  from eq [OF this this, of 1 0] show ?thesis by (simp add: margin_of_def Let_def)
qed

lemma flat_detection:
  assumes "flat_instants rows" and "0 \<le> e"
  shows "detection_stats np rows e = Some d \<Longrightarrow> isnan (det_hit_rate d)"
proof -
  have "scored_groups rows e = []"
    using flat_margin [OF assms(1)] assms(2) by (auto simp: scored_groups_def filter_empty_conv)
  then show "isnan (det_hit_rate d)" if "detection_stats np rows e = Some d"
    using detection_stats_counts(1,2) [OF that] by auto
qed

lemma csv_flat:
  assumes np: "numpy_api np" and run: "nano_sampling np args env queries w = (w', rows, errs)"
    and clock: "\<forall>rd \<in> set (nv_rounds env). nv_t_start env \<le> sc_t (rd_clock rd) \<and> replicas_agree rd" and apart: "rounds_apart env"
  shows "flat_instants (map (csv_of (nv_t_start env)) rows)"
proof -
  let ?t = "nv_t_start env" and ?csv = "csv_of (nv_t_start env)"
  have ok: "reads_as ?t r (?csv r)" if r: "r \<in> set rows" for r
    using nano_sampling_rows [OF np run r] clock csv_of_reads_as by fastforce
  have "f_cell (?csv a) ''e2e_recall'' = f_cell (?csv b) ''e2e_recall''"
    if ab: "a \<in> set rows" "b \<in> set rows" "reachable (?csv a)" "reachable (?csv b)"
      "cell (?csv a) ''t_rel'' = cell (?csv b) ''t_rel''" "cell (?csv a) ''shard'' = cell (?csv b) ''shard''" for a b
  proof -
    note ra = ok [OF ab(1), unfolded reads_as_def] and rb = ok [OF ab(2), unfolded reads_as_def]
    have "f_cell (?csv a) ''t_rel'' = f_cell (?csv b) ''t_rel''" using ab(5) by (simp only: f_cell_def)
    then have t: "py_round 3 (s_t a - ?t) = py_round 3 (s_t b - ?t)" using ra rb by simp
    have shard: "s_shard a = s_shard b" "s_reachable a" "s_reachable b" using ra rb ab(3,4,6) by simp_all
    have agree: "\<forall>rd \<in> set (nv_rounds env). replicas_agree rd" using clock by blast
    from same_instant_agree [OF np run agree apart ab(1,2) shard t] show ?thesis using ra rb by simp
  qed
  then show ?thesis unfolding flat_instants_def by (simp only: set_map ball_simps) blast
qed

lemma resolution_eps_nonneg: "0 \<le> resolution_eps (meta_view m)"
  by (simp add: resolution_eps_def meta_view_def get_or_def)

section \<open>A run to try it on\<close>

text \<open>Two sweeps without faults; every replica of a shard holds the same id and answers alike.\<close>

definition demo_nargs :: nargs where
  "demo_nargs = nargs_default\<lparr>na_no_chaos := True, na_queries := 0\<rparr>"

definition demo_sweep :: "real \<Rightarrow> round" where
  "demo_sweep t = \<lparr>rd_env = (\<lambda>w. w), rd_choice = choice_ref, rd_draws = [], rd_clock = \<lparr>sc_t = t, sc_probe_s = 0, sc_score_s = (\<lambda>_. 0)\<rparr>,
     rd_io = (\<lambda>_. \<lparr>io_list = Rpc_returns True [''rr-0''], io_search = (\<lambda>_ _. Rpc_returns True [''rr-0'']), io_loo = (\<lambda>_ _. Rpc_raises)\<rparr>),
     rd_now = t\<rparr>"

definition demo_nenv :: nmain_env where
  "demo_nenv = \<lparr>nv_binaries = True, nv_stubs = Inr (), nv_proj = [], nv_sift = Inl IndexError, nv_perm = [], nv_choice = choice_ref,
     nv_pool_choice = choice_ref, nv_draws = [],
     nv_cluster = \<lparr>cl_survives = (\<lambda>_. True), cl_ready = [\<lambda>_. Some 200], cl_leader = [\<lambda>n. Some (200, if n = 1 then Some ''leader'' else None)]\<rparr>,
     nv_t_start = 0, nv_rounds = [demo_sweep 25, demo_sweep 30], nv_after = (\<lambda>w. w),
     nv_protocol = \<lparr>ne_interrupt = None, ne_chaos_start = 0, ne_chaos_stop = 0, ne_chaos_rounds = [], ne_revive = (\<lambda>_. True)\<rparr>\<rparr>"

lemma demo_run_completes:
  "\<exists>dir procs. nano_main np demo_nargs demo_nenv \<lparr>nd_samples = None, nd_events = None, nd_meta = None\<rparr> = (Exit 0, dir, procs)"
proof -
  let ?files = "\<lparr>nd_samples = None, nd_events = None, nd_meta = None\<rparr>"
  obtain o' dir procs where m: "nano_main np demo_nargs demo_nenv ?files = (o', dir, procs)" by (metis prod_cases3)
  have launched: "launched demo_nargs demo_nenv"
    by (simp add: launched_def n_validate_def demo_nargs_def demo_nenv_def nargs_default_def nano_prepare_def writer_init_def make_queries_def)
  obtain r procs0 where b: "bring_up (\<lambda>_. True) build_processes = (r, procs0)" "r = Inr ()"
    by (rule bring_up_running [of "\<lambda>_. True"]) (simp add: list_all_iff)
  have up: "start_cluster (nv_cluster demo_nenv) build_processes = (Some 1, procs0)"
    by (simp add: start_cluster_def demo_nenv_def b Let_def NUM_COORDINATORS_def upt_rec)
  have quiet: "fst (n_fault_protocol demo_nargs t e p) \<noteq> Exit 1" for t e p
    by (simp add: n_fault_protocol_def demo_nargs_def Let_def case_prod_unfold)
  from m have "o' = Exit 0"
  proof (cases rule: nano_main_cases)
    case (short leader procs0)
    with quiet [of "nv_t_start demo_nenv" "nv_protocol demo_nenv" procs0] show ?thesis by simp
  qed (use launched up in auto)
  with m show ?thesis by blast
qed

lemma demo_run_rounds:
  "\<forall>rd \<in> set (nv_rounds demo_nenv). nv_t_start demo_nenv \<le> sc_t (rd_clock rd) \<and> replicas_agree rd" "rounds_apart demo_nenv"
proof -
  show "\<forall>rd \<in> set (nv_rounds demo_nenv). nv_t_start demo_nenv \<le> sc_t (rd_clock rd) \<and> replicas_agree rd"
    by (simp add: demo_nenv_def demo_sweep_def replicas_agree_def)
  show "rounds_apart demo_nenv"
    using py_round_of_int [of 3 25] py_round_of_int [of 3 30] by (simp add: rounds_apart_def demo_nenv_def demo_sweep_def)
qed


section \<open>The report of a run\<close>

lemma analyze_main_report:
  assumes "analyze_load dir = Inr (map (csv_of t) rows, events, Some m)"
  obtains a where "analyze_main np dir None = Inr a" "an_spread a = q1_intra_shard_spread np (map (csv_of t) rows)"
    "an_detect a = q4_can_we_spot_the_bad_replica np (map (csv_of t) rows) (Some m)"
proof -
  have "\<not> list_ex (\<lambda>r. map_of r ''reachable'' = None) (map (csv_of t) rows)"
    by (auto simp: list_ex_iff csv_of_def SAMPLE_COLS_def)
  with assms that show thesis by (auto simp: analyze_main_def)
qed

end
