(* ===== verification/Weaviate_Io.thy ===== *)
theory Weaviate_Io
  imports Py_Dict Py_Text Bytes
begin

text \<open>
  The vocabulary of the Weaviate studies. Their scripts are sequences of effects: HTTP requests,
  reads of a node's internal port, docker commands, the clock and sleeping. A computation maps
  the history of effects performed so far to a stage and the extended history; what the cluster
  and the clock answer is a function of that history, so a \<open>world\<close> is any deterministic course of
  events, and a statement for all worlds covers them all. Answers of the HTTP helper are decoded
  JSON values or, when the body is no JSON or the node is unreachable, strings; bodies are taken to
  be valid UTF-8.
\<close>

named_theorems io_simps "evaluation of computations with effects"
named_theorems quiet_intros "computations that issue no docker command"
named_theorems smooth_intros "computations that issue no docker command and always go on"
named_theorems returns_intros "computations that do not wait for ever"

section \<open>JSON values\<close>

datatype json = JNull | JBool bool | JNum real | JStr string | JArr "json list" | JObj "(string \<times> json) list"

text \<open>Truth of a decoded value, and \<^verbatim>\<open>a or b\<close>.\<close>

fun truthy :: "json \<Rightarrow> bool" where
  "truthy JNull \<longleftrightarrow> False"
| "truthy (JBool b) \<longleftrightarrow> b"
| "truthy (JNum x) \<longleftrightarrow> x \<noteq> 0"
| "truthy (JStr s) \<longleftrightarrow> s \<noteq> []"
| "truthy (JArr xs) \<longleftrightarrow> xs \<noteq> []"
| "truthy (JObj d) \<longleftrightarrow> d \<noteq> []"

definition jor :: "json \<Rightarrow> json \<Rightarrow> json" where
  "jor a b = (if truthy a then a else b)"

text \<open>\<^verbatim>\<open>x.get(k)\<close>: only a dictionary has the method; a missing key gives \<^verbatim>\<open>None\<close>.\<close>

fun jget :: "string \<Rightarrow> json \<Rightarrow> json res" where
  "jget k (JObj d) = Inr (dict_get d k JNull)"
| "jget k _ = Inl (AttributeError ''get'')"

text \<open>\<^verbatim>\<open>for y in x\<close>.\<close>

fun jiter :: "json \<Rightarrow> json list res" where
  "jiter (JArr xs) = Inr xs"
| "jiter (JObj d) = Inr (map (JStr \<circ> fst) d)"
| "jiter (JStr s) = Inr (map (\<lambda>c. JStr [c]) s)"
| "jiter _ = Inl (TypeError ''not iterable'')"

text \<open>\<^verbatim>\<open>x[k]\<close> with a string and with the index 0.\<close>

fun jitem :: "string \<Rightarrow> json \<Rightarrow> json res" where
  "jitem k (JObj d) = (case map_of d k of None \<Rightarrow> Inl (KeyError k) | Some v \<Rightarrow> Inr v)"
| "jitem k _ = Inl (TypeError ''indices'')"

fun jhead :: "json \<Rightarrow> json res" where
  "jhead (JArr (x # _)) = Inr x"
| "jhead (JArr []) = Inl IndexError"
| "jhead (JStr (c # _)) = Inr (JStr [c])"
| "jhead (JStr []) = Inl IndexError"
| "jhead (JObj _) = Inl (KeyError ''0'')"
| "jhead _ = Inl (TypeError ''not subscriptable'')"

fun is_dict :: "json \<Rightarrow> bool" where
  "is_dict (JObj _) \<longleftrightarrow> True"
| "is_dict _ \<longleftrightarrow> False"

text \<open>\<^verbatim>\<open>x == n\<close> for an int: a bool equals 0 or 1.\<close>

fun jeq_num :: "json \<Rightarrow> real \<Rightarrow> bool" where
  "jeq_num (JNum x) n \<longleftrightarrow> x = n"
| "jeq_num (JBool b) n \<longleftrightarrow> (if b then 1 else 0) = n"
| "jeq_num _ n \<longleftrightarrow> False"

section \<open>Effects\<close>

datatype action =
    Request nat string string "json option"
  | Raw_get nat string
  | Docker string string
  | Clock
  | Sleep real

text \<open>
  What comes back for a request: a status with a body, an HTTP error with a body, or no answer at
  all, with the text of the exception. A body is empty, a JSON document or other text.
\<close>

datatype body = Empty | Json json | Text string

datatype reply = Replied int body | Http_error int body | Unreachable string

fun decoded :: "body \<Rightarrow> json" where
  "decoded Empty = JObj []"
| "decoded (Json j) = j"
| "decoded (Text s) = JStr s"

fun answer_of :: "reply \<Rightarrow> int \<times> json" where
  "answer_of (Replied st b) = (st, decoded b)"
| "answer_of (Http_error st b) = (st, decoded b)"
| "answer_of (Unreachable e) = (0, JStr e)"

record world =
  w_http :: "action list \<Rightarrow> nat \<Rightarrow> string \<Rightarrow> string \<Rightarrow> json option \<Rightarrow> reply"
  w_raw :: "action list \<Rightarrow> nat \<Rightarrow> string \<Rightarrow> int \<times> byte list"
  w_now :: "action list \<Rightarrow> real"

type_synonym 'a io = "action list \<Rightarrow> 'a stage \<times> action list"

definition retI :: "'a \<Rightarrow> 'a io" where
  "retI x h = (Go x, h)"

definition liftI :: "'a res \<Rightarrow> 'a io" where
  "liftI r h = (raised r, h)"

definition waitI :: "'a io" where
  "waitI h = (Waiting, h)"

definition bindI :: "'a io \<Rightarrow> ('a \<Rightarrow> 'b io) \<Rightarrow> 'b io" where
  "bindI m f h =
     (case m h of (Go x, h') \<Rightarrow> f x h' | (Exit c, h') \<Rightarrow> (Exit c, h') | (Crash e, h') \<Rightarrow> (Crash e, h')
      | (Waiting, h') \<Rightarrow> (Waiting, h'))"

text \<open>\<^verbatim>\<open>try: m finally: c\<close>: an exception of the last part replaces the outcome of the first.\<close>

definition finallyI :: "'a io \<Rightarrow> unit io \<Rightarrow> 'a io" where
  "finallyI m c h =
     (let (r, h1) = m h; (s, h2) = c h1
      in (case s of Go _ \<Rightarrow> r | Exit x \<Rightarrow> Exit x | Crash e \<Rightarrow> Crash e | Waiting \<Rightarrow> Waiting, h2))"

definition http_request :: "world \<Rightarrow> nat \<Rightarrow> string \<Rightarrow> string \<Rightarrow> json option \<Rightarrow> (int \<times> json) io" where
  "http_request w port meth path body h = (Go (answer_of (w_http w h port meth path body)), h @ [Request port meth path body])"

definition raw_read :: "world \<Rightarrow> nat \<Rightarrow> string \<Rightarrow> (int \<times> byte list) io" where
  "raw_read w port path h = (Go (w_raw w h port path), h @ [Raw_get port path])"

definition docker_cmd :: "string \<Rightarrow> string \<Rightarrow> unit io" where
  "docker_cmd verb container h = (Go (), h @ [Docker verb container])"

definition now :: "world \<Rightarrow> real io" where
  "now w h = (Go (w_now w h), h @ [Clock])"

definition sleep :: "real \<Rightarrow> unit io" where
  "sleep s h = (Go (), h @ [Sleep s])"

text \<open>A loop over a list.\<close>

fun forI :: "('a \<Rightarrow> 'b io) \<Rightarrow> 'a list \<Rightarrow> 'b list io" where
  "forI f [] = retI []"
| "forI f (x # xs) = bindI (f x) (\<lambda>y. bindI (forI f xs) (\<lambda>ys. retI (y # ys)))"

text \<open>
  \<^verbatim>\<open>while time.time() < deadline: ...\<close> on a loop state; the body says whether it breaks. \<open>fuel\<close> bounds
  the rounds; without a round left the loop is still running.
\<close>

fun while_before :: "world \<Rightarrow> nat \<Rightarrow> real \<Rightarrow> ('s \<Rightarrow> (bool \<times> 's) io) \<Rightarrow> 's \<Rightarrow> 's io" where
  "while_before w 0 deadline body s = waitI"
| "while_before w (Suc fuel) deadline body s =
     bindI (now w) (\<lambda>t.
       if \<not> t < deadline then retI s
       else bindI (body s) (\<lambda>(stop, s'). if stop then retI s' else while_before w fuel deadline body s'))"

lemmas io_defs = retI_def liftI_def waitI_def http_request_def raw_read_def docker_cmd_def now_def sleep_def

lemma bindI_Go [io_simps]: "m h = (Go x, h') \<Longrightarrow> bindI m f h = f x h'"
  by (simp add: bindI_def)

lemma bindI_Crash [io_simps]: "m h = (Crash e, h') \<Longrightarrow> bindI m f h = (Crash e, h')"
  by (simp add: bindI_def)

lemma bindI_ops [simp]:
  "bindI (retI x) f = f x"
  "bindI (http_request w p mt pa b) g h = g (answer_of (w_http w h p mt pa b)) (h @ [Request p mt pa b])"
  "bindI (raw_read w p pa) k h = k (w_raw w h p pa) (h @ [Raw_get p pa])"
  "bindI (docker_cmd v c) u h = u () (h @ [Docker v c])"
  "bindI (now w) t h = t (w_now w h) (h @ [Clock])"
  "bindI (sleep s) u h = u () (h @ [Sleep s])"
  "bindI (liftI (Inr y)) f' h = f' y h"
  "bindI (liftI (Inl e)) f' h = (Crash e, h)"
  by (auto simp: bindI_def io_defs)

lemma bindI_cases:
  obtains (go) x h' where "m h = (Go x, h')" "bindI m f h = f x h'"
  | (ends) r r' h' where "m h = (r, h')" "bindI m f h = (r', h')" "\<And>y. r' \<noteq> Go y" "r = Waiting \<longleftrightarrow> r' = Waiting"
proof -
  obtain r h' where m: "m h = (r, h')" by fastforce
  show thesis
  proof (cases r)
    case (Go x)
    with m show thesis by (intro go) (simp_all add: bindI_def)
  next
    case (Exit c)
    with m show thesis by (intro ends [of r h' "Exit c"]) (simp_all add: bindI_def)
  next
    case (Crash e)
    with m show thesis by (intro ends [of r h' "Crash e"]) (simp_all add: bindI_def)
  next
    case Waiting
    with m show thesis by (intro ends [of r h' Waiting]) (simp_all add: bindI_def)
  qed
qed

lemma bindI_assoc: "bindI (bindI m f) g = bindI m (\<lambda>x. bindI (f x) g)"
  by (rule ext) (simp add: bindI_def split: prod.split stage.split)

section \<open>Docker commands and containers\<close>

text \<open>The docker commands of a history, and the containers they leave paused and stopped.\<close>

fun docker_of :: "action list \<Rightarrow> (string \<times> string) list" where
  "docker_of [] = []"
| "docker_of (Docker v c # h) = (v, c) # docker_of h"
| "docker_of (_ # h) = docker_of h"

lemma docker_of_append [simp]: "docker_of (g @ h) = docker_of g @ docker_of h"
  by (induction g rule: docker_of.induct) simp_all

fun docker_step :: "string set \<times> string set \<Rightarrow> string \<times> string \<Rightarrow> string set \<times> string set" where
  "docker_step (paused, stopped) (verb, c) =
     (if verb = ''pause'' then (insert c paused, stopped)
      else if verb = ''unpause'' then (paused - {c}, stopped)
      else if verb = ''stop'' then (paused, insert c stopped)
      else if verb = ''start'' \<or> verb = ''restart'' then (paused, stopped - {c})
      else (paused, stopped))"

definition containers_after :: "action list \<Rightarrow> string set \<times> string set" where
  "containers_after h = foldl docker_step ({}, {}) (docker_of h)"

lemma containers_after_append: "containers_after (g @ h) = foldl docker_step (containers_after g) (docker_of h)"
  by (simp add: containers_after_def)

definition all_up :: "action list \<Rightarrow> bool" where
  "all_up h \<longleftrightarrow> containers_after h = ({}, {})"

section \<open>Rules\<close>

text \<open>\<open>quiet\<close>: no docker command, whatever the outcome. \<open>smooth\<close>: also, it always goes on.\<close>

definition quiet :: "'a io \<Rightarrow> bool" where
  "quiet m \<longleftrightarrow> (\<forall>h. docker_of (snd (m h)) = docker_of h)"

definition smooth :: "'a io \<Rightarrow> bool" where
  "smooth m \<longleftrightarrow> (\<forall>h. \<exists>x. fst (m h) = Go x) \<and> quiet m"

text \<open>All containers are up afterwards if they were before, whatever the outcome.\<close>

definition keeps_up :: "'a io \<Rightarrow> bool" where
  "keeps_up m \<longleftrightarrow> (\<forall>h. all_up h \<longrightarrow> all_up (snd (m h)))"

definition returns :: "'a io \<Rightarrow> bool" where
  "returns m \<longleftrightarrow> (\<forall>h. fst (m h) \<noteq> Waiting)"

lemma quiet_bindI [quiet_intros]: "quiet m \<Longrightarrow> (\<And>x. quiet (f x)) \<Longrightarrow> quiet (bindI m f)"
  unfolding quiet_def
proof
  fix h
  assume m: "\<forall>h. docker_of (snd (m h)) = docker_of h" and f: "\<And>x. \<forall>h. docker_of (snd (f x h)) = docker_of h"
  show "docker_of (snd (bindI m f h)) = docker_of h"
    by (rule bindI_cases [of m h f]) (use m [rule_format, of h] f in simp_all)
qed

lemma quiet_ops [quiet_intros]:
  "quiet (retI x)" "quiet (liftI r)" "quiet waitI" "quiet (http_request w p mt pa b)" "quiet (raw_read w p pa)"
  "quiet (now w)" "quiet (sleep s)"
  by (simp_all add: quiet_def io_defs)

lemma quiet_if [quiet_intros]: "quiet m \<Longrightarrow> quiet n \<Longrightarrow> quiet (if b then m else n)"
  by simp

lemma quiet_case_prod [quiet_intros]: "(\<And>a b. quiet (f a b)) \<Longrightarrow> quiet (case p of (a, b) \<Rightarrow> f a b)"
  by (cases p) simp

lemma quiet_case_option [quiet_intros]: "quiet a \<Longrightarrow> (\<And>x. quiet (f x)) \<Longrightarrow> quiet (case v of None \<Rightarrow> a | Some x \<Rightarrow> f x)"
  by (cases v) simp_all

lemma quiet_forI [quiet_intros]: "(\<And>x. quiet (f x)) \<Longrightarrow> quiet (forI f xs)"
  by (induction xs) (auto intro!: quiet_intros)

lemma quiet_while [quiet_intros]: "(\<And>s. quiet (body s)) \<Longrightarrow> quiet (while_before w fuel deadline body s)"
  by (induction fuel arbitrary: s) (auto intro!: quiet_intros)

lemma smoothI: "(\<And>h. \<exists>x. fst (m h) = Go x) \<Longrightarrow> quiet m \<Longrightarrow> smooth m"
  by (simp add: smooth_def)

lemma smooth_bindI [smooth_intros]: "smooth m \<Longrightarrow> (\<And>x. smooth (f x)) \<Longrightarrow> smooth (bindI m f)"
  unfolding smooth_def
proof (elim conjE, intro conjI allI)
  fix h
  assume m: "\<forall>h. \<exists>x. fst (m h) = Go x" and f: "\<And>x. (\<forall>h. \<exists>y. fst (f x h) = Go y) \<and> quiet (f x)"
  obtain x h' where "m h = (Go x, h')" using m by (metis prod.collapse)
  then show "\<exists>x. fst (bindI m f h) = Go x" using f by (simp add: bindI_def)
qed (simp add: quiet_bindI)

lemma smooth_ops [smooth_intros]:
  "smooth (retI x)" "smooth (http_request w p mt pa b)" "smooth (raw_read w p pa)" "smooth (now w)" "smooth (sleep s)"
  by (auto intro!: smoothI quiet_intros simp: io_defs)

lemma smooth_if [smooth_intros]: "smooth m \<Longrightarrow> smooth n \<Longrightarrow> smooth (if b then m else n)"
  by simp

lemma smooth_case_prod [smooth_intros]: "(\<And>a b. smooth (f a b)) \<Longrightarrow> smooth (case p of (a, b) \<Rightarrow> f a b)"
  by (cases p) simp

lemma keeps_up_quiet: "quiet m \<Longrightarrow> keeps_up m"
  by (simp add: keeps_up_def quiet_def all_up_def containers_after_def)

lemma keeps_up_bindI: "keeps_up m \<Longrightarrow> (\<And>x. keeps_up (f x)) \<Longrightarrow> keeps_up (bindI m f)"
proof -
  assume m: "keeps_up m" and f: "\<And>x. keeps_up (f x)"
  show "keeps_up (bindI m f)"
    unfolding keeps_up_def
  proof (intro allI impI)
    fix h assume "all_up h"
    with m have "all_up (snd (m h))" by (simp add: keeps_up_def)
    with f show "all_up (snd (bindI m f h))"
      by (rule_tac bindI_cases [of m h f]) (simp_all add: keeps_up_def)
  qed
qed

text \<open>A docker command, quiet work that always goes on, and the command that undoes the first.\<close>

lemma keeps_up_bracket:
  assumes "smooth m" and "\<And>h. all_up h \<Longrightarrow> containers_after (h @ [Docker v c, Docker v' c']) = ({}, {})"
    and "\<And>x. keeps_up (f x)"
  shows "keeps_up (bindI (docker_cmd v c) (\<lambda>_. bindI m (\<lambda>x. bindI (docker_cmd v' c') (\<lambda>_. f x))))"
  unfolding keeps_up_def
proof (intro allI impI)
  fix h assume up: "all_up h"
  let ?h = "h @ [Docker v c]"
  obtain x h' where m: "m ?h = (Go x, h')" using assms(1) by (metis prod.collapse smooth_def)
  have "docker_of h' = docker_of ?h" using assms(1) m by (metis smooth_def quiet_def snd_conv)
  then have "containers_after (h' @ [Docker v' c']) = containers_after (h @ [Docker v c, Docker v' c'])"
    by (simp add: containers_after_def)
  with assms(2) [OF up] have "all_up (h' @ [Docker v' c'])" by (simp add: all_up_def)
  with assms(3) show "all_up (snd (bindI (docker_cmd v c) (\<lambda>_. bindI m (\<lambda>x. bindI (docker_cmd v' c') (\<lambda>_. f x))) h))"
    by (simp add: bindI_Go [of m, OF m] keeps_up_def)
qed

section \<open>The clock, and loops that end\<close>

lemma returns_ops [returns_intros]:
  "returns (retI x)" "returns (liftI r)" "returns (http_request w p mt pa b)" "returns (raw_read w p pa)"
  "returns (docker_cmd v c)" "returns (now w)" "returns (sleep s)"
  by (cases r; simp add: returns_def io_defs)+

lemma returns_bindI [returns_intros]: "returns m \<Longrightarrow> (\<And>x. returns (f x)) \<Longrightarrow> returns (bindI m f)"
  unfolding returns_def
proof
  fix h
  assume m: "\<forall>h. fst (m h) \<noteq> Waiting" and f: "\<And>x. \<forall>h. fst (f x h) \<noteq> Waiting"
  show "fst (bindI m f h) \<noteq> Waiting"
    by (rule bindI_cases [of m h f]) (use m [rule_format, of h] f in simp_all)
qed

lemma returns_if [returns_intros]: "returns m \<Longrightarrow> returns n \<Longrightarrow> returns (if b then m else n)"
  by simp

lemma returns_case_prod [returns_intros]: "(\<And>a b. returns (f a b)) \<Longrightarrow> returns (case p of (a, b) \<Rightarrow> f a b)"
  by (cases p) simp

lemma returns_forI [returns_intros]: "(\<And>x. returns (f x)) \<Longrightarrow> returns (forI f xs)"
  by (induction xs) (auto intro!: returns_intros)

lemma returns_finallyI [returns_intros]: "returns m \<Longrightarrow> returns c \<Longrightarrow> returns (finallyI m c)"
  unfolding returns_def
proof
  fix h
  assume m: "\<forall>h. fst (m h) \<noteq> Waiting" and c: "\<forall>h. fst (c h) \<noteq> Waiting"
  obtain r h1 s h2 where "m h = (r, h1)" "c h1 = (s, h2)" by fastforce
  with m [rule_format, of h] c [rule_format, of h1] show "fst (finallyI m c h) \<noteq> Waiting"
    by (simp add: finallyI_def split: stage.split)
qed

text \<open>
  What the loops rely on: time does not run backwards and sleeping takes at least as long as asked.
  Loops that poll without sleeping also rely on a read of the internal port taking some time.
\<close>

locale steady_clock =
  fixes w :: world
  assumes mono: "w_now w h \<le> w_now w (h @ [a])"
    and sleeps: "0 \<le> s \<Longrightarrow> w_now w h + s \<le> w_now w (h @ [Sleep s])"
begin

definition advances :: "real \<Rightarrow> 'a io \<Rightarrow> bool" where
  "advances c m \<longleftrightarrow> (\<forall>h x h'. m h = (Go x, h') \<longrightarrow> w_now w h + c \<le> w_now w h')"

lemma advances_ops:
  "advances 0 (retI x)" "advances 0 (liftI r)" "advances 0 (http_request w p mt pa b)" "advances 0 (raw_read w p pa)"
  "advances 0 (docker_cmd v d)" "advances 0 (now w)" "0 \<le> s \<Longrightarrow> advances s (sleep s)" "advances 0 (sleep s)"
  by (auto simp: advances_def io_defs mono sleeps)

lemma advances_bindI: "advances c m \<Longrightarrow> (\<And>x. advances d (f x)) \<Longrightarrow> advances (c + d) (bindI m f)"
  unfolding advances_def
proof (intro allI impI)
  fix h y h2
  assume m: "\<forall>h x h'. m h = (Go x, h') \<longrightarrow> w_now w h + c \<le> w_now w h'"
    and f: "\<And>x. \<forall>h y h'. f x h = (Go y, h') \<longrightarrow> w_now w h + d \<le> w_now w h'" and b: "bindI m f h = (Go y, h2)"
  from b obtain x h1 where x: "m h = (Go x, h1)" and y: "f x h1 = (Go y, h2)"
    by (rule_tac bindI_cases [of m h f]) auto
  from m [rule_format, OF x] f [rule_format, OF y] show "w_now w h + (c + d) \<le> w_now w h2" by linarith
qed

lemma loop_returns:
  assumes body: "\<And>s. returns (body s)"
    and progress: "\<And>s h s' h'. body s h = (Go (False, s'), h') \<Longrightarrow> w_now w h + c \<le> w_now w h'"
    and "deadline \<le> w_now w h + c * real n" and "n < fuel"
  shows "fst (while_before w fuel deadline body s h) \<noteq> Waiting"
  using assms(3,4)
proof (induction fuel arbitrary: n s h)
  case (Suc fuel)
  let ?h = "h @ [Clock]"
  show ?case
  proof (cases "w_now w h < deadline")
    case True
    with Suc.prems(1) obtain k where n: "n = Suc k" by (cases n) auto
    show ?thesis
    proof (cases "\<exists>s' h'. body s ?h = (Go (False, s'), h')")
      case go: True
      then obtain s' h' where b: "body s ?h = (Go (False, s'), h')" by blast
      have "w_now w h + c \<le> w_now w h'" using progress [OF b] mono [of h Clock] by linarith
      then have "deadline \<le> w_now w h' + c * real k" using Suc.prems(1) by (simp add: n algebra_simps)
      from Suc.IH [OF this] Suc.prems(2) True show ?thesis by (simp add: n bindI_Go [of "body s", OF b])
    next
      case stop: False
      have "fst (body s ?h) \<noteq> Waiting" using body by (simp add: returns_def)
      with True stop show ?thesis
        by (auto simp: bindI_def now_def retI_def split: prod.splits stage.splits)
    qed
  qed (simp add: retI_def)
qed simp

end

text \<open>A clock that shows the time slept, and one that also charges a millisecond per read.\<close>

fun slept :: "real \<Rightarrow> action list \<Rightarrow> real" where
  "slept tick [] = 0"
| "slept tick (Sleep s # h) = max 0 s + slept tick h"
| "slept tick (Raw_get p q # h) = tick + slept tick h"
| "slept tick (_ # h) = slept tick h"

lemma slept_append [simp]: "slept tick (g @ h) = slept tick g + slept tick h"
  by (induction tick g rule: slept.induct) simp_all

definition with_clock :: "real \<Rightarrow> world \<Rightarrow> world" where
  "with_clock tick w = w\<lparr>w_now := slept tick\<rparr>"

locale ticking_clock = steady_clock +
  fixes tick :: real
  assumes tick: "0 < tick" "w_now w h + tick \<le> w_now w (h @ [Raw_get p q])"
begin

lemma raw_read_advances: "advances tick (raw_read w p q)"
  using tick(2) by (simp add: advances_def raw_read_def)

end

interpretation sw: steady_clock "with_clock 0 v" for v
proof
  fix h a
  show "w_now (with_clock 0 v) h \<le> w_now (with_clock 0 v) (h @ [a])" by (cases a) (simp_all add: with_clock_def)
qed (simp add: with_clock_def)

interpretation tw: ticking_clock "with_clock (1 / 1000) v" "1 / 1000" for v
proof
  fix h a
  show "w_now (with_clock (1 / 1000) v) h \<le> w_now (with_clock (1 / 1000) v) (h @ [a])" by (cases a) (simp_all add: with_clock_def)
qed (simp_all add: with_clock_def)

end
