(* ===== verification/Spec2Isabelle.thy ===== *)
theory Spec2Isabelle
  imports Over_Fetch Aggregate Link_Quality Sift Chaos_Writers Kill_Check Index_Gate Catchup Detector_Score Qdrant_Run
    Nano_Results Weaviate_Io
begin

text \<open>
  A verification development for the replica-recall experiments.
\<close>

section \<open>From the replicas to the report\<close>

lemma flat_report:
  assumes "numpy_api np" and "flat_instants rows" and "q1_intra_shard_spread np rows = Some (n, avg, p95, top_spread, lo, hi)"
  shows "avg = Fl 0 \<and> top_spread = 0"
proof -
  let ?sp = "fst (intra_shard_spreads rows)"
  have sp: "?sp \<noteq> []" "avg = np_mean np (map Fl ?sp)" "top_spread = Max (set ?sp)"
    using assms(3) by (auto simp: q1_intra_shard_spread_def Let_def case_prod_unfold split: if_splits)
  have "set ?sp = {0}" using flat_spreads [OF assms(2)] sp(1) by (cases ?sp) (auto simp: list_all_iff)
  moreover from this have "?sp = map (\<lambda>_. 0) ?sp" by (intro nth_equalityI) (auto dest: nth_mem)
  then have "mean ?sp = 0" using sp(1) by (metis mean_map_const)
  ultimately show ?thesis using sp by (simp add: numpy_api.mean [OF assms(1)])
qed

text \<open>
  C3. No divergence, no alarm, end to end: if in every sweep of a run the replicas of a shard hold
  the same ids and answer every search alike, and no two sweeps share a recorded time, then
  the report made from the files of the run shows a mean and a maximal spread of 0 whenever it
  shows a spread at all, and the detection question is never answered: every group is a tie and
  is excluded, whatever corpus, queries, faults, clock and interrupts the run had.
\<close>

theorem agreeing_replicas_no_alarm:
  assumes np: "numpy_api np" and run: "nano_main np args env files = (Exit 0, dir, procs)"
    and rounds: "\<forall>rd \<in> set (nv_rounds env). nv_t_start env \<le> sc_t (rd_clock rd) \<and> replicas_agree rd"
    and apart: "rounds_apart env"
  shows "\<exists>a. analyze_main np dir None = Inr a \<and>
    (case an_spread a of None \<Rightarrow> True | Some (n, avg, p95, top_spread, lo, hi) \<Rightarrow> avg = Fl 0 \<and> top_spread = 0) \<and>
    (an_detect a = No_groups \<or> (\<exists>c t g. an_detect a = Too_few c t g))"
  using run
proof (cases rule: nano_main_cases)
  case (complete queries w leader procs0 pr procs1 w' rows errs csv)
  let ?rows = "map (csv_of (nv_t_start env)) rows" and ?m = "meta_view (n_meta args pr rows errs w')"
  have flat: "flat_instants ?rows" using csv_flat [OF np complete(5) rounds apart] .
  have "analyze_load dir = Inr (?rows, map (\<lambda>e. (ce_target e, py_round 3 (ce_t e - nv_t_start env))) (np_events pr), Some ?m)"
    by (simp add: complete(7,8) analyze_load_def n_write_outputs_def comp_def)
  then obtain a where a: "analyze_main np dir None = Inr a" "an_spread a = q1_intra_shard_spread np ?rows"
    "an_detect a = q4_can_we_spot_the_bad_replica np ?rows (Some ?m)" by (rule analyze_main_report)
  have "case an_spread a of None \<Rightarrow> True | Some (n, avg, p95, top_spread, lo, hi) \<Rightarrow> avg = Fl 0 \<and> top_spread = 0"
    unfolding a(2) using flat_report [OF np flat] by (auto split: option.splits)
  moreover have "an_detect a = No_groups \<or> (\<exists>c t g. an_detect a = Too_few c t g)"
    unfolding a(3) q4_can_we_spot_the_bad_replica_def
    using flat_detection [OF flat resolution_eps_nonneg] by (auto split: option.splits)
  ultimately show ?thesis using a(1) by blast
qed simp_all

theorem agreeing_replicas_no_alarm_witness:
  "\<exists>dir procs a. nano_main numpy_ref demo_nargs demo_nenv \<lparr>nd_samples = None, nd_events = None, nd_meta = None\<rparr> = (Exit 0, dir, procs) \<and>
     analyze_main numpy_ref dir None = Inr a \<and> an_detect a \<noteq> Detects"
proof -
  obtain dir procs where m: "nano_main numpy_ref demo_nargs demo_nenv \<lparr>nd_samples = None, nd_events = None, nd_meta = None\<rparr> = (Exit 0, dir, procs)"
    using demo_run_completes by blast
  from agreeing_replicas_no_alarm [OF npr.numpy_api_axioms m demo_run_rounds] m show ?thesis by fastforce
qed

end
